(* ===== verification/Go_Prelude.thy ===== *)
theory Go_Prelude
  imports Main "HOL-Library.Word"
begin

text \<open>
  Shared vocabulary of the development: the parts of the Go language that the repository
  leans on everywhere, and the generic lemmas and interfaces that the components reuse.

  \<^item> Bytes are 8-bit words and a Go \<open>[]byte\<close> is a list of them; a Go string is a string
    whose characters are its bytes.
  \<^item> An \<open>error\<close> value is a \<open>go_error\<close>; a nil error is \<open>None\<close>. A Go function that
    returns a pair of a value and an error is modelled with the sum \<open>go_error + 'a\<close>.
  \<^item> A computation that may panic has type \<open>'a go\<close>. \<open>defer recoverPanic(..)()\<close> of
    \<^verbatim>\<open>nan0Util.go\<close> is \<open>recoverPanic\<close> applied by \<open>deferred\<close>.
  \<^item> A computation that also changes a state is an \<open>('s, 'a) act\<close>: the state survives a
    panic, as Go's heap does.
  \<^item> \<open>reach\<close>, with the locale \<open>machine_invariant\<close>, is the shared treatment of step
    relations; the locales \<open>codec\<close> and \<open>sized_codec\<close> state what an encoder promises.
\<close>

unbundle bit_operations_syntax

named_theorems go_eval \<open>equations that run the panic and state combinators\<close>

section \<open>Bytes, strings, errors\<close>

type_synonym byte = "8 word"
type_synonym bytes = "8 word list"
type_synonym u32 = "32 word"
type_synonym u64 = "64 word"

definition bytes_of_string :: "string \<Rightarrow> bytes" where
  "bytes_of_string s = map of_char s"

datatype go_error =
    EOF
  | ErrUnexpectedEOF
  | ErrText string
  | ErrNet nat
  | ErrRuntime string

datatype panic_value = PanicErr go_error | PanicStr string | PanicOther nat

datatype 'a go = Ret 'a | Panic panic_value

fun go_bind :: "'a go \<Rightarrow> ('a \<Rightarrow> 'b go) \<Rightarrow> 'b go" where
  "go_bind (Ret x) f = f x"
| "go_bind (Panic p) f = Panic p"

declare go_bind.simps [go_eval]

text \<open>
  \<^verbatim>\<open>checkError(err)\<close> panics with a non-nil error; \<open>checked\<close> is the idiom
  \<^verbatim>\<open>v, err := f(); checkError(err)\<close>.
\<close>

definition checkError :: "go_error option \<Rightarrow> unit go" where
  "checkError err = (case err of None \<Rightarrow> Ret () | Some e \<Rightarrow> Panic (PanicErr e))"

definition checked :: "go_error + 'a \<Rightarrow> 'a go" where
  "checked r = (case r of Inl e \<Rightarrow> Panic (PanicErr e) | Inr x \<Rightarrow> Ret x)"

text \<open>
  \<open>recoverPanic errfunc\<close> gives the deferred function; \<open>errfunc\<close> receives the error and
  the named results as they stand, and returns the results it leaves behind. A nil
  \<open>errfunc\<close> swallows the panic. A panic value that is neither an error nor a string is
  logged only.
\<close>

definition recoverPanic ::
    "(go_error \<Rightarrow> 'r \<Rightarrow> 'r) option \<Rightarrow> panic_value \<Rightarrow> 'r \<Rightarrow> 'r" where
  "recoverPanic errfunc e r =
     (case errfunc of
        Some f \<Rightarrow>
          (case e of
             PanicErr err \<Rightarrow> f err r
           | PanicStr s \<Rightarrow> f (ErrText s) r
           | PanicOther v \<Rightarrow> r)
      | None \<Rightarrow> r)"

fun deferred :: "(panic_value \<Rightarrow> 'r \<Rightarrow> 'r) \<Rightarrow> 'r \<Rightarrow> 'r go \<Rightarrow> 'r" where
  "deferred h r0 (Ret r) = r"
| "deferred h r0 (Panic p) = h p r0"

lemma go_bind_Ret_iff: "go_bind m f = Ret y \<longleftrightarrow> (\<exists>x. m = Ret x \<and> f x = Ret y)"
  by (cases m) auto

lemma go_bind_assoc: "go_bind (go_bind m f) g = go_bind m (\<lambda>x. go_bind (f x) g)"
  by (cases m) auto

lemma checkError_simps [simp, go_eval]:
  "checkError None = Ret ()"
  "checkError (Some e) = Panic (PanicErr e)"
  by (simp_all add: checkError_def)

lemma checked_simps [simp, go_eval]:
  "checked (Inl e) = Panic (PanicErr e)"
  "checked (Inr x) = Ret x"
  by (simp_all add: checked_def)

lemma checked_Ret_iff [simp]: "checked r = Ret x \<longleftrightarrow> r = Inr x"
  by (cases r) auto

lemma checkError_Ret_iff [simp]: "checkError e = Ret u \<longleftrightarrow> e = None"
  by (cases e) auto

lemma recoverPanic_simps [simp, go_eval]:
  "recoverPanic None p r = r"
  "recoverPanic (Some f) (PanicErr e) r = f e r"
  "recoverPanic (Some f) (PanicStr s) r = f (ErrText s) r"
  "recoverPanic (Some f) (PanicOther v) r = r"
  by (simp_all add: recoverPanic_def)

section \<open>State and panics together\<close>

type_synonym ('s, 'a) act = "'s \<Rightarrow> 'a go \<times> 's"

definition act_ret :: "'a \<Rightarrow> ('s, 'a) act" where
  "act_ret x s = (Ret x, s)"

definition act_lift :: "'a go \<Rightarrow> ('s, 'a) act" where
  "act_lift m s = (m, s)"

definition act_bind :: "('s, 'a) act \<Rightarrow> ('a \<Rightarrow> ('s, 'b) act) \<Rightarrow> ('s, 'b) act" where
  "act_bind m f s =
     (case m s of (Ret x, s') \<Rightarrow> f x s' | (Panic p, s') \<Rightarrow> (Panic p, s'))"

definition act_deferred ::
    "(panic_value \<Rightarrow> 'r \<Rightarrow> 'r) \<Rightarrow> 'r \<Rightarrow> ('s, 'r) act \<Rightarrow> 's \<Rightarrow> 'r \<times> 's" where
  "act_deferred h r0 m s = (case m s of (r, s') \<Rightarrow> (deferred h r0 r, s'))"

lemma act_simps [simp, go_eval]:
  "act_ret x s = (Ret x, s)"
  "act_lift g s = (g, s)"
  by (simp_all add: act_ret_def act_lift_def)

lemma act_bind_eval [go_eval]:
  "m s = (Ret x, s') \<Longrightarrow> act_bind m f s = f x s'"
  "m s = (Panic p, s') \<Longrightarrow> act_bind m f s = (Panic p, s')"
  by (simp_all add: act_bind_def)

lemma act_bind_lift [simp]:
  "act_bind (act_lift (Ret x)) f s = f x s"
  "act_bind (act_lift (Panic p)) f s = (Panic p, s)"
  "act_bind (act_ret x) f s = f x s"
  by (simp_all add: act_bind_def)

lemma act_bind_RetE:
  assumes "act_bind m f s = (Ret y, s')"
  obtains x s'' where "m s = (Ret x, s'')" and "f x s'' = (Ret y, s')"
  using assms by (auto simp: act_bind_def split: prod.splits go.splits)

section \<open>Slices\<close>

text \<open>
  A slice expression \<^verbatim>\<open>b[lo:hi]\<close> is checked against the capacity of \<open>b\<close>, not its
  length: the bytes between length and capacity become visible. \<open>spare\<close> is that tail.
  With the upper bound left out it is the length.
\<close>

definition slice_panic :: panic_value where
  "slice_panic = PanicErr (ErrRuntime ''slice bounds out of range'')"

definition go_slice :: "bytes \<Rightarrow> bytes \<Rightarrow> nat \<Rightarrow> nat \<Rightarrow> bytes go" where
  "go_slice b spare lo hi =
     (if lo \<le> hi \<and> hi \<le> length b + length spare
      then Ret (take (hi - lo) (drop lo (b @ spare)))
      else Panic slice_panic)"

definition go_slice_from :: "bytes \<Rightarrow> nat \<Rightarrow> bytes go" where
  "go_slice_from b lo = (if lo \<le> length b then Ret (drop lo b) else Panic slice_panic)"

lemma go_slice_exact:
  "go_slice b [] lo hi = (if lo \<le> hi \<and> hi \<le> length b then Ret (take (hi - lo) (drop lo b))
                          else Panic slice_panic)"
  by (simp add: go_slice_def)

section \<open>Step relations\<close>

inductive reach :: "('s \<Rightarrow> bool) \<Rightarrow> ('s \<Rightarrow> 's \<Rightarrow> bool) \<Rightarrow> 's \<Rightarrow> bool"
  for start :: "'s \<Rightarrow> bool" and step :: "'s \<Rightarrow> 's \<Rightarrow> bool" where
  reach_start: "start s \<Longrightarrow> reach start step s"
| reach_step: "reach start step s \<Longrightarrow> step s t \<Longrightarrow> reach start step t"

lemma reach_steps: "reach start step s \<Longrightarrow> step\<^sup>*\<^sup>* s t \<Longrightarrow> reach start step t"
  by (erule rtranclp_induct) (auto intro: reach_step)

text \<open>An invariant of a step relation: the contract between a machine and its safety facts.\<close>

locale machine_invariant =
  fixes start :: "'s \<Rightarrow> bool"
    and step :: "'s \<Rightarrow> 's \<Rightarrow> bool"
    and inv :: "'s \<Rightarrow> bool"
  assumes start_inv: "start s \<Longrightarrow> inv s"
    and step_inv: "step s t \<Longrightarrow> inv s \<Longrightarrow> inv t"
begin

lemma reach_inv: "reach start step s \<Longrightarrow> inv s"
  by (induction rule: reach.induct) (auto intro: start_inv step_inv)

lemma steps_inv: "step\<^sup>*\<^sup>* s t \<Longrightarrow> inv s \<Longrightarrow> inv t"
  by (induction rule: rtranclp_induct) (auto intro: step_inv)

end

section \<open>Encoders\<close>

text \<open>
  What every encoder of the program promises: on the values it accepts it does not panic,
  and its decoder returns the value that was encoded.
\<close>

locale codec =
  fixes enc :: "'a \<Rightarrow> 'b go"
    and dec :: "'b \<Rightarrow> 'a go"
    and accepts :: "'a \<Rightarrow> bool"
  assumes enc_total: "accepts a \<Longrightarrow> \<exists>b. enc a = Ret b"
    and dec_enc: "accepts a \<Longrightarrow> enc a = Ret b \<Longrightarrow> dec b = Ret a"
begin

lemma roundtrip: "accepts a \<Longrightarrow> go_bind (enc a) dec = Ret a"
  using enc_total dec_enc by fastforce

lemma enc_inject: "accepts a \<Longrightarrow> accepts a' \<Longrightarrow> enc a = enc a' \<Longrightarrow> a = a'"
  by (metis dec_enc enc_total go.inject(1))

end

text \<open>A fixed-width encoder: its code can be cut off the front of a stream.\<close>

locale sized_codec = codec enc dec accepts
  for enc :: "'a \<Rightarrow> 'c list go" and dec :: "'c list \<Rightarrow> 'a go" and accepts :: "'a \<Rightarrow> bool" +
  fixes width :: nat
  assumes enc_length: "enc a = Ret b \<Longrightarrow> length b = width"
begin

lemma dec_prefix: "accepts a \<Longrightarrow> enc a = Ret b \<Longrightarrow> dec (take width (b @ rest)) = Ret a"
  by (simp add: dec_enc enc_length)

end

end
