(* ===== verification/Go_AES_GCM.thy ===== *)
theory Go_AES_GCM
  imports Go_Prelude
begin

text \<open>
  The part of Go's \<open>crypto/aes\<close> and \<open>crypto/cipher\<close> that \<^verbatim>\<open>encryption.go\<close> uses:
  AES with a 256-bit key (FIPS 197) and Galois/counter mode with a 12-byte nonce, a 16-byte
  tag and no additional data (NIST SP 800-38D). The correctness facts are about the mode:
  \<open>gcm_Open\<close> inverts \<open>gcm_Seal\<close> whatever 16-byte block function is below it, and rejects
  what is too short to carry a tag.
\<close>

section \<open>AES-256\<close>

definition aes_sbox :: bytes where
  "aes_sbox = [
     99, 124, 119, 123, 242, 107, 111, 197, 48, 1, 103, 43, 254, 215, 171, 118,
     202, 130, 201, 125, 250, 89, 71, 240, 173, 212, 162, 175, 156, 164, 114, 192,
     183, 253, 147, 38, 54, 63, 247, 204, 52, 165, 229, 241, 113, 216, 49, 21,
     4, 199, 35, 195, 24, 150, 5, 154, 7, 18, 128, 226, 235, 39, 178, 117,
     9, 131, 44, 26, 27, 110, 90, 160, 82, 59, 214, 179, 41, 227, 47, 132,
     83, 209, 0, 237, 32, 252, 177, 91, 106, 203, 190, 57, 74, 76, 88, 207,
     208, 239, 170, 251, 67, 77, 51, 133, 69, 249, 2, 127, 80, 60, 159, 168,
     81, 163, 64, 143, 146, 157, 56, 245, 188, 182, 218, 33, 16, 255, 243, 210,
     205, 12, 19, 236, 95, 151, 68, 23, 196, 167, 126, 61, 100, 93, 25, 115,
     96, 129, 79, 220, 34, 42, 144, 136, 70, 238, 184, 20, 222, 94, 11, 219,
     224, 50, 58, 10, 73, 6, 36, 92, 194, 211, 172, 98, 145, 149, 228, 121,
     231, 200, 55, 109, 141, 213, 78, 169, 108, 86, 244, 234, 101, 122, 174, 8,
     186, 120, 37, 46, 28, 166, 180, 198, 232, 221, 116, 31, 75, 189, 139, 138,
     112, 62, 181, 102, 72, 3, 246, 14, 97, 53, 87, 185, 134, 193, 29, 158,
     225, 248, 152, 17, 105, 217, 142, 148, 155, 30, 135, 233, 206, 85, 40, 223,
     140, 161, 137, 13, 191, 230, 66, 104, 65, 153, 45, 15, 176, 84, 187, 22]"

definition sub_byte :: "byte \<Rightarrow> byte" where
  "sub_byte b = aes_sbox ! unat b"

definition xor_bytes :: "bytes \<Rightarrow> bytes \<Rightarrow> bytes" where
  "xor_bytes xs ys = map2 (XOR) xs ys"

definition xtime :: "byte \<Rightarrow> byte" where
  "xtime b = (if bit b 7 then push_bit 1 b XOR 27 else push_bit 1 b)"

fun round_constant :: "nat \<Rightarrow> byte" where
  "round_constant 0 = 1"
| "round_constant (Suc n) = xtime (round_constant n)"

text \<open>
  The key schedule: word \<open>i\<close> is word \<open>i - 8\<close> xor-ed with a transform of word \<open>i - 1\<close>.
\<close>

definition next_key_word :: "nat \<Rightarrow> bytes list \<Rightarrow> bytes" where
  "next_key_word i ws =
     (let t = ws ! (i - 1);
          t' = (if i mod 8 = 0 then
                  xor_bytes (map sub_byte (rotate1 t)) [round_constant (i div 8 - 1), 0, 0, 0]
                else if i mod 8 = 4 then map sub_byte t
                else t)
      in xor_bytes (ws ! (i - 8)) t')"

definition key_words :: "bytes \<Rightarrow> bytes list" where
  "key_words key =
     fold (\<lambda>i ws. ws @ [next_key_word i ws]) [8..<60]
       (map (\<lambda>i. take 4 (drop (4 * i) key)) [0..<8])"

definition round_key :: "bytes list \<Rightarrow> nat \<Rightarrow> bytes" where
  "round_key ws r = concat (take 4 (drop (4 * r) ws))"

text \<open>The state is 16 bytes, column after column.\<close>

definition shift_rows :: "bytes \<Rightarrow> bytes" where
  "shift_rows st = map (\<lambda>i. st ! ((i + 4 * (i mod 4)) mod 16)) [0..<16]"

definition mix_column :: "byte \<Rightarrow> byte \<Rightarrow> byte \<Rightarrow> byte \<Rightarrow> byte" where
  "mix_column a b c d = xtime a XOR (xtime b XOR b) XOR c XOR d"

definition mix_columns :: "bytes \<Rightarrow> bytes" where
  "mix_columns st =
     map (\<lambda>i. let at = (\<lambda>k. st ! (4 * (i div 4) + (i + k) mod 4))
              in mix_column (at 0) (at 1) (at 2) (at 3)) [0..<16]"

definition add_round_key :: "bytes list \<Rightarrow> nat \<Rightarrow> bytes \<Rightarrow> bytes" where
  "add_round_key ws r st = map (\<lambda>i. st ! i XOR round_key ws r ! i) [0..<16]"

definition aes_block :: "bytes \<Rightarrow> bytes \<Rightarrow> bytes" where
  "aes_block key blk =
     (let ws = key_words key;
          st = fold (\<lambda>r st. add_round_key ws r (mix_columns (shift_rows (map sub_byte st))))
                 [1..<14] (add_round_key ws 0 blk)
      in add_round_key ws 14 (shift_rows (map sub_byte st)))"

lemma length_aes_block [simp]: "length (aes_block key blk) = 16"
  by (simp add: aes_block_def add_round_key_def Let_def)

text \<open>
  \<^verbatim>\<open>aes.NewCipher\<close> checks the length of the key. The callers' keys have type
  \<^verbatim>\<open>[32]byte\<close>, so only AES-256 is modelled; any other length takes the error branch.
\<close>

definition aes_NewCipher :: "bytes \<Rightarrow> go_error + (bytes \<Rightarrow> bytes)" where
  "aes_NewCipher key =
     (if length key = 32 then Inr (aes_block key)
      else Inl (ErrText ''crypto/aes: invalid key size''))"

section \<open>Galois/counter mode\<close>

definition gcm_NonceSize :: nat where "gcm_NonceSize = 12"
definition gcm_TagSize :: nat where "gcm_TagSize = 16"

definition be_bytes :: "nat \<Rightarrow> nat \<Rightarrow> bytes" where
  "be_bytes w n = map (\<lambda>i. of_nat (n div 256 ^ i)) (rev [0..<w])"

definition block_value :: "bytes \<Rightarrow> 128 word" where
  "block_value bs = foldl (\<lambda>v b. push_bit 8 v OR ucast b) 0 bs"

definition value_block :: "128 word \<Rightarrow> bytes" where
  "value_block v = map (\<lambda>i. ucast (drop_bit (8 * i) v)) (rev [0..<16])"

text \<open>Multiplication in the field of \<open>2 ^ 128\<close> elements, most significant bit first.\<close>

definition gf_mult :: "128 word \<Rightarrow> 128 word \<Rightarrow> 128 word" where
  "gf_mult x y =
     fst (fold (\<lambda>i (z, v). (if bit x (127 - i) then z XOR v else z,
                            if bit v 0 then drop_bit 1 v XOR push_bit 120 225 else drop_bit 1 v))
            [0..<128] (0, y))"

definition pad16 :: "bytes \<Rightarrow> bytes" where
  "pad16 bs = bs @ replicate ((16 - length bs mod 16) mod 16) 0"

definition blocks16 :: "bytes \<Rightarrow> bytes list" where
  "blocks16 bs = map (\<lambda>i. take 16 (drop (16 * i) bs)) [0..<length bs div 16]"

definition ghash :: "128 word \<Rightarrow> bytes \<Rightarrow> 128 word" where
  "ghash h bs = foldl (\<lambda>y b. gf_mult (y XOR block_value b) h) 0 (blocks16 bs)"

definition counter_block :: "bytes \<Rightarrow> nat \<Rightarrow> bytes" where
  "counter_block nonce i = nonce @ be_bytes 4 (i mod 2 ^ 32)"

definition keystream :: "(bytes \<Rightarrow> bytes) \<Rightarrow> bytes \<Rightarrow> nat \<Rightarrow> bytes" where
  "keystream E nonce n =
     take n (concat (map (\<lambda>i. E (counter_block nonce (i + 2))) [0..<(n + 15) div 16]))"

definition ctr_crypt :: "(bytes \<Rightarrow> bytes) \<Rightarrow> bytes \<Rightarrow> bytes \<Rightarrow> bytes" where
  "ctr_crypt E nonce bs = xor_bytes bs (keystream E nonce (length bs))"

definition gcm_tag :: "(bytes \<Rightarrow> bytes) \<Rightarrow> bytes \<Rightarrow> bytes \<Rightarrow> bytes" where
  "gcm_tag E nonce ct =
     xor_bytes (E (counter_block nonce 1))
       (value_block (ghash (block_value (E (replicate 16 0)))
          (pad16 ct @ be_bytes 8 0 @ be_bytes 8 (8 * length ct))))"

text \<open>
  \<^verbatim>\<open>gcm.Seal(dst, nonce, plaintext, nil)\<close> appends ciphertext and tag to \<open>dst\<close>;
  \<^verbatim>\<open>gcm.Open(nil, nonce, ciphertext, nil)\<close> checks the tag first.
\<close>

definition gcm_max_plaintext :: nat where
  "gcm_max_plaintext = (2 ^ 32 - 2) * 16"

definition gcm_Seal :: "(bytes \<Rightarrow> bytes) \<Rightarrow> bytes \<Rightarrow> bytes \<Rightarrow> bytes \<Rightarrow> bytes go" where
  "gcm_Seal E dst nonce plaintext =
     (if length nonce \<noteq> gcm_NonceSize
      then Panic (PanicStr ''crypto/cipher: incorrect nonce length given to GCM'')
      else if gcm_max_plaintext < length plaintext
      then Panic (PanicStr ''crypto/cipher: message too large for GCM'')
      else (let ct = ctr_crypt E nonce plaintext in Ret (dst @ ct @ gcm_tag E nonce ct)))"

definition errOpen :: go_error where
  "errOpen = ErrText ''cipher: message authentication failed''"

definition gcm_Open :: "(bytes \<Rightarrow> bytes) \<Rightarrow> bytes \<Rightarrow> bytes \<Rightarrow> (go_error + bytes) go" where
  "gcm_Open E nonce ciphertext =
     (if length nonce \<noteq> gcm_NonceSize
      then Panic (PanicStr ''crypto/cipher: incorrect nonce length given to GCM'')
      else if length ciphertext < gcm_TagSize \<or> gcm_max_plaintext + gcm_TagSize < length ciphertext
      then Ret (Inl errOpen)
      else (let n = length ciphertext - gcm_TagSize;
                ct = take n ciphertext; tag = drop n ciphertext
            in if tag = gcm_tag E nonce ct then Ret (Inr (ctr_crypt E nonce ct))
               else Ret (Inl errOpen)))"

section \<open>Open inverts Seal\<close>

lemma length_xor_bytes [simp]: "length (xor_bytes xs ys) = min (length xs) (length ys)"
  by (simp add: xor_bytes_def)

lemma xor_bytes_twice: "length xs \<le> length ys \<Longrightarrow> xor_bytes (xor_bytes xs ys) ys = xs"
  by (induction xs ys rule: list_induct2') (auto simp: xor_bytes_def ac_simps)

lemma length_keystream:
  assumes "\<And>b. length (E b) = 16"
  shows "length (keystream E nonce n) = n"
proof -
  have "n \<le> 16 * ((n + 15) div 16)" by arith
  then show ?thesis
    by (simp add: keystream_def length_concat o_def assms sum_list_triv)
qed

lemma length_ctr_crypt:
  "(\<And>b. length (E b) = 16) \<Longrightarrow> length (ctr_crypt E nonce bs) = length bs"
  by (simp add: ctr_crypt_def length_keystream)

lemma ctr_crypt_twice:
  "(\<And>b. length (E b) = 16) \<Longrightarrow> ctr_crypt E nonce (ctr_crypt E nonce bs) = bs"
  by (simp add: ctr_crypt_def length_keystream xor_bytes_twice)

lemma length_gcm_tag: "(\<And>b. length (E b) = 16) \<Longrightarrow> length (gcm_tag E nonce ct) = 16"
  by (simp add: gcm_tag_def value_block_def)

lemma gcm_Seal_total:
  "length nonce = gcm_NonceSize \<Longrightarrow> length pt \<le> gcm_max_plaintext \<Longrightarrow>
     gcm_Seal E dst nonce pt = Ret (dst @ ctr_crypt E nonce pt @ gcm_tag E nonce (ctr_crypt E nonce pt))"
  by (simp add: gcm_Seal_def Let_def)

lemma gcm_Open_Seal:
  assumes E: "\<And>b. length (E b) = 16"
    and n: "length nonce = gcm_NonceSize" and pt: "length pt \<le> gcm_max_plaintext"
  shows "gcm_Open E nonce (ctr_crypt E nonce pt @ gcm_tag E nonce (ctr_crypt E nonce pt)) = Ret (Inr pt)"
  using n pt by (simp add: gcm_Open_def length_gcm_tag length_ctr_crypt ctr_crypt_twice E gcm_TagSize_def)

lemma gcm_Open_Ret: "length nonce = gcm_NonceSize \<Longrightarrow> \<exists>r. gcm_Open E nonce ct = Ret r"
  by (simp add: gcm_Open_def Let_def)

lemma gcm_Open_short:
  "length nonce = gcm_NonceSize \<Longrightarrow> length ct < gcm_TagSize \<Longrightarrow> gcm_Open E nonce ct = Ret (Inl errOpen)"
  by (simp add: gcm_Open_def)

text \<open>What is opened carries its tag: the ciphertext is exactly what sealing would produce.\<close>

lemma gcm_Open_authentic:
  assumes E: "\<And>b. length (E b) = 16" and o: "gcm_Open E nonce ct = Ret (Inr pt)"
  shows "gcm_Seal E [] nonce pt = Ret ct"
proof -
  define n where "n = length ct - gcm_TagSize"
  from o have ok: "length nonce = gcm_NonceSize" "gcm_TagSize \<le> length ct"
      "length ct \<le> gcm_max_plaintext + gcm_TagSize"
    and tag: "drop n ct = gcm_tag E nonce (take n ct)"
    and pt: "pt = ctr_crypt E nonce (take n ct)"
    by (auto simp: gcm_Open_def Let_def n_def split: if_splits)
  have "ctr_crypt E nonce pt = take n ct" by (simp add: pt ctr_crypt_twice E)
  moreover have "length pt \<le> gcm_max_plaintext"
    using ok by (simp add: pt length_ctr_crypt E n_def)
  ultimately show ?thesis
    using ok tag by (simp add: gcm_Seal_total) (metis append_take_drop_id)
qed

end
