(* ===== verification/Go_HMAC.thy ===== *)
theory Go_HMAC
  imports Go_Prelude
begin

text \<open>
  The part of Go's \<open>crypto/sha512\<close> and \<open>crypto/hmac\<close> that \<^verbatim>\<open>encryption.go\<close> uses:
  SHA-512/256 (FIPS 180-4) and HMAC over it (FIPS 198-1).
\<close>

section \<open>SHA-512/256\<close>

definition sha512_K :: "u64 list" where
  "sha512_K = [
     4794697086780616226, 8158064640168781261, 13096744586834688815, 16840607885511220156,
     4131703408338449720, 6480981068601479193, 10538285296894168987, 12329834152419229976,
     15566598209576043074, 1334009975649890238, 2608012711638119052, 6128411473006802146,
     8268148722764581231, 9286055187155687089, 11230858885718282805, 13951009754708518548,
     16472876342353939154, 17275323862435702243, 1135362057144423861, 2597628984639134821,
     3308224258029322869, 5365058923640841347, 6679025012923562964, 8573033837759648693,
     10970295158949994411, 12119686244451234320, 12683024718118986047, 13788192230050041572,
     14330467153632333762, 15395433587784984357, 489312712824947311, 1452737877330783856,
     2861767655752347644, 3322285676063803686, 5560940570517711597, 5996557281743188959,
     7280758554555802590, 8532644243296465576, 9350256976987008742, 10552545826968843579,
     11727347734174303076, 12113106623233404929, 14000437183269869457, 14369950271660146224,
     15101387698204529176, 15463397548674623760, 17586052441742319658, 1182934255886127544,
     1847814050463011016, 2177327727835720531, 2830643537854262169, 3796741975233480872,
     4115178125766777443, 5681478168544905931, 6601373596472566643, 7507060721942968483,
     8399075790359081724, 8693463985226723168, 9568029438360202098, 10144078919501101548,
     10430055236837252648, 11840083180663258601, 13761210420658862357, 14299343276471374635,
     14566680578165727644, 15097957966210449927, 16922976911328602910, 17689382322260857208,
     500013540394364858, 748580250866718886, 1242879168328830382, 1977374033974150939,
     2944078676154940804, 3659926193048069267, 4368137639120453308, 4836135668995329356,
     5532061633213252278, 6448918945643986474, 6902733635092675308, 7801388544844847127]"

definition sha512_256_init :: "u64 list" where
  "sha512_256_init = [
     2463787394917988140, 11481187982095705282, 2563595384472711505, 10824532655140301501,
     10819967247969091555, 13717434660681038226, 3098927326965381290, 1060366662362279074]"

definition shift_xor :: "nat \<Rightarrow> nat \<Rightarrow> nat \<Rightarrow> u64 \<Rightarrow> u64" where
  "shift_xor a b c x = word_rotr a x XOR word_rotr b x XOR drop_bit c x"

definition rotate_xor :: "nat \<Rightarrow> nat \<Rightarrow> nat \<Rightarrow> u64 \<Rightarrow> u64" where
  "rotate_xor a b c x = word_rotr a x XOR word_rotr b x XOR word_rotr c x"

definition be_word :: "bytes \<Rightarrow> u64" where
  "be_word bs = foldl (\<lambda>v b. push_bit 8 v OR ucast b) 0 bs"

definition word_be :: "u64 \<Rightarrow> bytes" where
  "word_be v = map (\<lambda>i. ucast (drop_bit (8 * i) v)) (rev [0..<8])"

definition message_schedule :: "bytes \<Rightarrow> u64 list" where
  "message_schedule blk =
     fold (\<lambda>t w. w @ [shift_xor 19 61 6 (w ! (t - 2)) + w ! (t - 7)
                      + shift_xor 1 8 7 (w ! (t - 15)) + w ! (t - 16)])
       [16..<80] (map (\<lambda>i. be_word (take 8 (drop (8 * i) blk))) [0..<16])"

fun sha512_round :: "u64 \<times> u64 \<Rightarrow> u64 list \<Rightarrow> u64 list" where
  "sha512_round (k, w) [a, b, c, d, e, f, g, h] =
     (let t1 = h + rotate_xor 14 18 41 e + ((e AND f) XOR (NOT e AND g)) + k + w;
          t2 = rotate_xor 28 34 39 a + ((a AND b) XOR (a AND c) XOR (b AND c))
      in [t1 + t2, a, b, c, d + t1, e, f, g])"
| "sha512_round _ st = st"

definition sha512_block :: "u64 list \<Rightarrow> bytes \<Rightarrow> u64 list" where
  "sha512_block st blk = map2 (+) st (fold sha512_round (zip sha512_K (message_schedule blk)) st)"

definition sha512_pad :: "bytes \<Rightarrow> bytes" where
  "sha512_pad msg =
     msg @ [128] @ replicate ((239 - length msg mod 128) mod 128) 0
       @ map (\<lambda>i. of_nat (8 * length msg div 256 ^ i)) (rev [0..<16])"

definition sha512_256 :: "bytes \<Rightarrow> bytes" where
  "sha512_256 msg =
     (let p = sha512_pad msg;
          blks = map (\<lambda>i. take 128 (drop (128 * i) p)) [0..<length p div 128]
      in take 32 (concat (map word_be (foldl sha512_block sha512_256_init blks))))"

definition sha512_BlockSize :: nat where "sha512_BlockSize = 128"

section \<open>HMAC\<close>

text \<open>
  \<^verbatim>\<open>hmac.New(h, key)\<close>, one \<open>Write\<close> and \<^verbatim>\<open>Sum(nil)\<close>. A key longer than a block is
  hashed first, a shorter one is filled with zeros.
\<close>

definition hmac_block_key :: "bytes \<Rightarrow> bytes" where
  "hmac_block_key key =
     (let k = (if sha512_BlockSize < length key then sha512_256 key else key)
      in k @ replicate (sha512_BlockSize - length k) 0)"

definition hmac_sha512_256 :: "bytes \<Rightarrow> bytes \<Rightarrow> bytes" where
  "hmac_sha512_256 key data =
     (let k = hmac_block_key key;
          inner = sha512_256 (map (\<lambda>b. b XOR 54) k @ data)
      in sha512_256 (map (\<lambda>b. b XOR 92) k @ inner))"

definition hmac_Equal :: "bytes \<Rightarrow> bytes \<Rightarrow> bool" where
  "hmac_Equal mac1 mac2 \<longleftrightarrow> mac1 = mac2"

section \<open>Sizes\<close>

lemma length_sha512_round:
  "length st = 8 \<Longrightarrow> length (sha512_round kw st) = 8"
  by (cases "(kw, st)" rule: sha512_round.cases) (auto simp: Let_def)

lemma length_fold_sha512_round: "length st = 8 \<Longrightarrow> length (fold sha512_round kws st) = 8"
  by (induction kws arbitrary: st) (auto simp: length_sha512_round)

lemma length_sha512_blocks: "length st = 8 \<Longrightarrow> length (foldl sha512_block st blks) = 8"
  by (induction blks arbitrary: st) (auto simp: sha512_block_def length_fold_sha512_round)

lemma length_sha512_256 [simp]: "length (sha512_256 msg) = 32"
proof -
  have "length sha512_256_init = 8" by (simp add: sha512_256_init_def)
  then show ?thesis
    by (simp add: sha512_256_def Let_def length_concat o_def word_be_def sum_list_triv
        length_sha512_blocks)
qed

lemma length_hmac [simp]: "length (hmac_sha512_256 key data) = 32"
  by (simp add: hmac_sha512_256_def Let_def)

text \<open>The padded message is a whole number of blocks.\<close>

lemma sha512_pad_blocks: "128 dvd length (sha512_pad msg)"
proof -
  define r where "r = length msg mod 128"
  have "r < 128" by (simp add: r_def)
  have "(r + (17 + (239 - r) mod 128)) mod 128 = 0"
  proof (cases "r \<le> 111")
    case True
    then have "(239 - r) mod 128 = 111 - r"
      using mod_add_self1 [of 128 "111 - r"] by simp
    with True show ?thesis by simp
  next
    case False
    then have "(239 - r) mod 128 = 239 - r" by simp
    with False \<open>r < 128\<close> show ?thesis by simp
  qed
  then have "(length msg + (17 + (239 - r) mod 128)) mod 128 = 0"
    unfolding r_def by (metis mod_add_left_eq)
  then show ?thesis
    by (simp add: sha512_pad_def r_def [symmetric] dvd_eq_mod_eq_0 ac_simps)
qed

end
