(* ===== verification/Go_IO.thy ===== *)
theory Go_IO
  imports Go_Prelude
begin

text \<open>
  Readers and writers of the Go standard library, as far as \<^verbatim>\<open>nan0Util.go\<close> and
  \<^verbatim>\<open>nan0.go\<close> use them: \<open>io.Reader\<close> and \<open>io.Writer\<close> as operations, the read side of a
  TCP connection (\<open>conn_Read\<close>) and \<open>bufio.Reader\<close> (\<open>bufio_Read\<close>).

  The segmentation of a TCP stream is the environment's choice: a connection holds the list
  of segments that will arrive, and one \<open>Read\<close> returns bytes of one segment only. When
  none is left a \<open>Read\<close> gives the connection's final error (EOF, a deadline, a reset).
\<close>

section \<open>The reader interface\<close>

type_synonym 'r reader = "nat \<Rightarrow> 'r \<Rightarrow> (bytes \<times> go_error option) \<times> 'r"

text \<open>
  \<open>read n r\<close> is \<^verbatim>\<open>r.Read(p)\<close> for a buffer of \<open>n\<close> bytes: the bytes placed at its
  front, the error, the reader afterwards. \<open>pending\<close> is the stream still to come.
\<close>

locale io_reader =
  fixes read :: "'r reader"
    and pending :: "'r \<Rightarrow> bytes"
  assumes read_pending: "read n r = ((bs, e), r') \<Longrightarrow> pending r = bs @ pending r'"
    and read_bound: "read n r = ((bs, e), r') \<Longrightarrow> length bs \<le> n"
    and read_error: "read n r = ((bs, Some err), r') \<Longrightarrow> bs = []"
begin

lemma read_consumes: "read n r = ((bs, e), r') \<Longrightarrow> length (pending r') \<le> length (pending r)"
  by (drule read_pending) simp

end

section \<open>The read side of a TCP connection\<close>

record netin =
  segments :: "bytes list"
  fin :: go_error

fun next_segment :: "nat \<Rightarrow> bytes list \<Rightarrow> (bytes \<times> bytes list) option" where
  "next_segment n [] = None"
| "next_segment n ([] # ss) = next_segment n ss"
| "next_segment n (s # ss) =
     Some (take n s, if length s \<le> n then ss else drop n s # ss)"

definition conn_Read :: "netin reader" where
  "conn_Read n c =
     (if n = 0 then (([], None), c)
      else case next_segment n (segments c) of
             None \<Rightarrow> (([], Some (fin c)), c\<lparr>segments := []\<rparr>)
           | Some (bs, ss) \<Rightarrow> ((bs, None), c\<lparr>segments := ss\<rparr>))"

lemma next_segment_None: "next_segment n ss = None \<Longrightarrow> concat ss = []"
  by (induction n ss rule: next_segment.induct) auto

lemma next_segment_Some:
  "next_segment n ss = Some (bs, ss') \<Longrightarrow>
     concat ss = bs @ concat ss' \<and> length bs \<le> n \<and> (0 < n \<longrightarrow> bs \<noteq> [])"
  by (induction n ss rule: next_segment.induct) (auto split: if_splits)

lemma next_segment_first:
  "s \<noteq> [] \<Longrightarrow> next_segment n (s # ss) = Some (take n s, if length s \<le> n then ss else drop n s # ss)"
  by (cases s) simp_all

lemma conn_Read_first:
  "0 < n \<Longrightarrow> s \<noteq> [] \<Longrightarrow> length s \<le> n \<Longrightarrow>
     conn_Read n \<lparr>segments = s # ss, fin = e\<rparr> = ((s, None), \<lparr>segments = ss, fin = e\<rparr>)"
  by (simp add: conn_Read_def next_segment_first)

interpretation tcp: io_reader conn_Read "\<lambda>c. concat (segments c)"
  by unfold_locales
    (auto simp: conn_Read_def next_segment_None split: if_splits option.splits
          dest!: next_segment_Some)

section \<open>\<open>bufio.Reader\<close>\<close>

text \<open>
  The buffer's unread bytes, its capacity, the sticky error and the connection. \<open>Read\<close>
  never waits for more than one \<open>Read\<close> of the connection: it returns what the buffer
  holds, even when that is less than asked for.
\<close>

record bufreader =
  buffered :: bytes
  bufSize :: nat
  bufErr :: "go_error option"
  rd :: netin

definition bufio_NewReader :: "netin \<Rightarrow> bufreader" where
  "bufio_NewReader c = \<lparr>buffered = [], bufSize = 4096, bufErr = None, rd = c\<rparr>"

definition bufio_Read :: "bufreader reader" where
  "bufio_Read n b =
     (if n = 0 then
        (if buffered b \<noteq> [] then (([], None), b) else (([], bufErr b), b\<lparr>bufErr := None\<rparr>))
      else if buffered b = [] then
        (if bufErr b \<noteq> None then (([], bufErr b), b\<lparr>bufErr := None\<rparr>)
         else if bufSize b \<le> n then
           (case conn_Read n (rd b) of ((bs, e), c) \<Rightarrow> ((bs, e), b\<lparr>rd := c\<rparr>))
         else
           (case conn_Read (bufSize b) (rd b) of ((bs, e), c) \<Rightarrow>
              if bs = [] then (([], e), b\<lparr>rd := c\<rparr>)
              else ((take n bs, None), b\<lparr>buffered := drop n bs, bufErr := e, rd := c\<rparr>)))
      else ((take n (buffered b), None), b\<lparr>buffered := drop n (buffered b)\<rparr>))"

definition bufio_pending :: "bufreader \<Rightarrow> bytes" where
  "bufio_pending b = buffered b @ concat (segments (rd b))"

text \<open>A non-empty buffer serves a read on its own.\<close>

lemma bufio_Read_buffered:
  "buffered b \<noteq> [] \<Longrightarrow> bufio_Read n b = ((take n (buffered b), None), b\<lparr>buffered := drop n (buffered b)\<rparr>)"
  by (cases "n = 0") (simp_all add: bufio_Read_def)

text \<open>A read that the buffer holds in full; at the end of the buffer this is the empty read.\<close>

lemma bufio_Read_full:
  assumes "buffered b = bs @ rest" and "bufErr b = None" and "bs \<noteq> [] \<or> n = 0" and "length bs = n"
  shows "bufio_Read n b = ((bs, None), b\<lparr>buffered := rest\<rparr>)"
  using assms by (cases "bs = []") (auto simp: bufio_Read_def)

lemma bufio_Read_load:
  assumes "buffered b = []" and "bufErr b = None" and "segments (rd b) = s # ss" and "s \<noteq> []"
    and "0 < n" and "n < bufSize b"
  shows "bufio_Read n b =
    ((take n s, None),
     b\<lparr>buffered := drop n (take (bufSize b) s),
       rd := (rd b)\<lparr>segments := if length s \<le> bufSize b then ss else drop (bufSize b) s # ss\<rparr>\<rparr>)"
  using assms by (simp add: bufio_Read_def conn_Read_def next_segment_first min_def)

lemma bufio_Read_laws:
  assumes "bufio_Read n b = ((bs, e), b')"
  shows "bufio_pending b = bs @ bufio_pending b' \<and> length bs \<le> n \<and> (e \<noteq> None \<longrightarrow> bs = [])"
  using assms
  by (auto simp: bufio_Read_def bufio_pending_def split: if_splits prod.splits
           dest: tcp.read_pending tcp.read_bound tcp.read_error)

interpretation bufio: io_reader bufio_Read bufio_pending
  by unfold_locales (auto dest: bufio_Read_laws)

text \<open>
  Reading a buffered reader that was just made from a connection whose next segment fits the
  buffer is reading a reader that already holds the segment.
\<close>

lemma bufio_Read_fresh:
  assumes "0 < n" and "n < 4096" and "s \<noteq> []"
  shows "bufio_Read n (bufio_NewReader \<lparr>segments = s # ss, fin = e\<rparr>) =
    ((take n s, None),
     \<lparr>buffered = drop n (take 4096 s), bufSize = 4096, bufErr = None,
      rd = \<lparr>segments = if length s \<le> 4096 then ss else drop 4096 s # ss, fin = e\<rparr>\<rparr>)"
  using assms by (subst bufio_Read_load) (auto simp: bufio_NewReader_def)

lemma bufio_pending_NewReader [simp]: "bufio_pending (bufio_NewReader c) = concat (segments c)"
  by (simp add: bufio_pending_def bufio_NewReader_def)

section \<open>Writers\<close>

text \<open>
  \<^verbatim>\<open>w.Write(p)\<close>: how many of the bytes were written, and the error. The bytes that
  reach the wire are the first that many.
\<close>

type_synonym writer = "bytes \<Rightarrow> nat \<times> go_error option"

definition write_all :: writer where
  "write_all bs = (length bs, None)"

text \<open>\<^verbatim>\<open>io.ReadFull(r, buf)\<close> on a finite stream of random bytes.\<close>

definition ReadFull :: "nat \<Rightarrow> bytes \<Rightarrow> (go_error + bytes) \<times> bytes" where
  "ReadFull n tape =
     (if n \<le> length tape then (Inr (take n tape), drop n tape)
      else (Inl (if tape = [] then EOF else ErrUnexpectedEOF), []))"

lemma ReadFull_length: "ReadFull n tape = (Inr bs, tape') \<Longrightarrow> length bs = n"
  by (auto simp: ReadFull_def split: if_splits)

end
