(* ===== verification/Nan0_Wire.thy ===== *)
theory Nan0_Wire
  imports Go_Prelude
begin

text \<open>
  The wire primitives of \<^verbatim>\<open>nan0Util.go\<close>: the preamble, the size fields
  (\<open>SizeReader\<close>, \<open>SizeWriter\<close>), the message-type identifier (\<open>hashString\<close>, FNV-1a),
  and TCP addresses (\<open>composeTcpAddress\<close>). Go's \<open>encoding/binary\<close>, \<open>hash/fnv\<close> and
  \<open>fmt\<close> are modelled as far as these functions use them. Go's \<open>int\<close> is the 64-bit one;
  the values that occur here fit, so it is \<open>int\<close>.
\<close>

section \<open>The preamble\<close>

definition ProtoPreamble :: bytes where
  "ProtoPreamble = [0x01, 0x02, 0x03, 0xFF, 0x03, 0x02, 0x01]"

lemma length_ProtoPreamble [simp]: "length ProtoPreamble = 7"
  by (simp add: ProtoPreamble_def)

lemma zero_notin_ProtoPreamble: "0 \<notin> set ProtoPreamble"
  by (simp add: ProtoPreamble_def)

section \<open>Big-endian size fields\<close>

definition defaultArrayWidth :: nat where
  "defaultArrayWidth = 4"

definition index_panic :: panic_value where
  "index_panic = PanicErr (ErrRuntime ''index out of range'')"

text \<open>\<^verbatim>\<open>binary.BigEndian\<close>: both functions first touch index 3, which is the bounds check.\<close>

definition be_PutUint32 :: "bytes \<Rightarrow> u32 \<Rightarrow> bytes go" where
  "be_PutUint32 b v =
     (if length b < 4 then Panic index_panic
      else Ret ([ucast (drop_bit 24 v), ucast (drop_bit 16 v), ucast (drop_bit 8 v), ucast v]
                @ drop 4 b))"

fun be_Uint32 :: "bytes \<Rightarrow> u32 go" where
  "be_Uint32 (b0 # b1 # b2 # b3 # _) =
     Ret (ucast b3 OR push_bit 8 (ucast b2) OR push_bit 16 (ucast b1) OR push_bit 24 (ucast b0))"
| "be_Uint32 _ = Panic index_panic"

text \<open>The width is the package variable \<open>SizeArrayWidth\<close>, an argument here.\<close>

definition SizeReader :: "bytes \<Rightarrow> int go" where
  "SizeReader bs = go_bind (be_Uint32 bs) (\<lambda>v. Ret (uint v))"

definition SizeWriter :: "nat \<Rightarrow> int \<Rightarrow> bytes go" where
  "SizeWriter SizeArrayWidth n =
     (let bs = replicate SizeArrayWidth 0 in be_PutUint32 bs (word_of_int n))"

lemma bytes_of_u32:
  fixes v :: u32
  shows "ucast (ucast v :: byte)
      OR push_bit 8 (ucast (ucast (drop_bit 8 v) :: byte))
      OR push_bit 16 (ucast (ucast (drop_bit 16 v) :: byte))
      OR push_bit 24 (ucast (ucast (drop_bit 24 v) :: byte)) = v"
proof (rule bit_word_eqI)
  fix n assume "n < LENGTH(32)"
  then consider "n < 8" | "8 \<le> n" "n < 16" | "16 \<le> n" "n < 24" | "24 \<le> n" "n < 32"
    by fastforce
  then show "bit ((ucast (ucast v :: byte) :: u32)
      OR push_bit 8 (ucast (ucast (drop_bit 8 v) :: byte))
      OR push_bit 16 (ucast (ucast (drop_bit 16 v) :: byte))
      OR push_bit 24 (ucast (ucast (drop_bit 24 v) :: byte))) n = bit v n"
    by cases (auto simp: bit_simps)
qed

lemma be_Uint32_PutUint32: "4 \<le> length b \<Longrightarrow> go_bind (be_PutUint32 b v) be_Uint32 = Ret v"
proof -
  assume "4 \<le> length b"
  moreover have "ucast (ucast v :: byte)
      OR push_bit 8 (ucast (ucast (drop_bit 8 v) :: byte))
      OR push_bit 16 (ucast (ucast (drop_bit 16 v) :: byte))
      OR push_bit 24 (ucast (ucast (drop_bit 24 v) :: byte)) = v"
    by (rule bytes_of_u32)
  ultimately show ?thesis by (simp add: be_PutUint32_def)
qed

lemma be_PutUint32_length: "be_PutUint32 b v = Ret c \<Longrightarrow> length c = length b"
  by (auto simp: be_PutUint32_def split: if_splits)

lemma SizeWriter_length: "SizeWriter w n = Ret b \<Longrightarrow> length b = w"
  by (auto simp: SizeWriter_def Let_def dest: be_PutUint32_length)

lemma SizeWriter_total: "4 \<le> w \<Longrightarrow> \<exists>b. SizeWriter w n = Ret b"
  by (simp add: SizeWriter_def be_PutUint32_def)

lemma SizeWriter_narrow: "w < 4 \<Longrightarrow> SizeWriter w n = Panic index_panic"
  by (simp add: SizeWriter_def be_PutUint32_def)

lemma SizeReader_SizeWriter_mod:
  assumes "4 \<le> w"
  shows "go_bind (SizeWriter w n) SizeReader = Ret (n mod 2 ^ 32)"
proof -
  have "go_bind (SizeWriter w n) be_Uint32 = Ret (word_of_int n)"
    unfolding SizeWriter_def Let_def by (rule be_Uint32_PutUint32) (simp add: assms)
  then show ?thesis
    by (auto simp: SizeReader_def go_bind_Ret_iff uint_word_of_int)
qed

definition u32_range :: "int \<Rightarrow> bool" where
  "u32_range n \<longleftrightarrow> 0 \<le> n \<and> n < 2 ^ 32"

lemma SizeReader_SizeWriter:
  "4 \<le> w \<Longrightarrow> u32_range n \<Longrightarrow> SizeWriter w n = Ret b \<Longrightarrow> SizeReader b = Ret n"
  using SizeReader_SizeWriter_mod [of w n] by (simp add: u32_range_def)

lemma SizeReader_range: "SizeReader bs = Ret n \<Longrightarrow> u32_range n"
  by (cases bs rule: be_Uint32.cases)
    (auto simp: SizeReader_def u32_range_def intro: less_le_trans [OF uint_bounded])

lemma SizeReader_total: "4 \<le> length bs \<Longrightarrow> \<exists>n. SizeReader bs = Ret n"
  by (cases bs rule: be_Uint32.cases) (auto simp: SizeReader_def)

text \<open>The size field at its default width, as the interface of a fixed-width encoder.\<close>

interpretation size_field:
  sized_codec "SizeWriter defaultArrayWidth" SizeReader u32_range defaultArrayWidth
  by unfold_locales
    (auto simp: defaultArrayWidth_def SizeWriter_total SizeWriter_length
          intro: SizeReader_SizeWriter [of 4])

section \<open>Message-type identifiers\<close>

text \<open>\<^verbatim>\<open>fnv.New32a\<close>: per byte, xor then multiply by the FNV prime, modulo \<open>2 ^ 32\<close>.\<close>

definition hashString :: "string \<Rightarrow> u32" where
  "hashString s = foldl (\<lambda>h c. (h XOR ucast c) * 16777619) 2166136261 (bytes_of_string s)"

lemma hashString_range: "u32_range (uint (hashString s))"
  by (auto simp: u32_range_def intro: less_le_trans [OF uint_bounded])

text \<open>Two distinct valid message names with one identifier.\<close>

lemma hashString_collision: "hashString ''costarring'' = hashString ''liquid''"
  by (simp add: hashString_def bytes_of_string_def)

section \<open>TCP addresses\<close>

fun decimal_digits :: "nat \<Rightarrow> string" where
  "decimal_digits n =
     (if n < 10 then [char_of (48 + n)] else decimal_digits (n div 10) @ [char_of (48 + n mod 10)])"

declare decimal_digits.simps [simp del]

definition fmt_d :: "int \<Rightarrow> string" where
  "fmt_d n = (if n < 0 then ''-'' @ decimal_digits (nat (- n)) else decimal_digits (nat n))"

text \<open>The port is an \<open>int32\<close>.\<close>

definition composeTcpAddress :: "string \<Rightarrow> u32 \<Rightarrow> string" where
  "composeTcpAddress hostName port = hostName @ '':'' @ fmt_d (sint port)"

fun digits_value :: "string \<Rightarrow> nat" where
  "digits_value s = foldl (\<lambda>v c. 10 * v + (of_char c - 48)) 0 s"

lemma decimal_digits_value: "digits_value (decimal_digits n) = n"
proof (induction n rule: decimal_digits.induct)
  case (1 n)
  then show ?case
    by (cases "n < 10") (simp_all add: decimal_digits.simps [of n])
qed

lemma decimal_digits_inject: "decimal_digits m = decimal_digits n \<Longrightarrow> m = n"
  by (metis decimal_digits_value)

lemma decimal_digits_chars:
  "c \<in> set (decimal_digits n) \<Longrightarrow> 48 \<le> (of_char c :: nat) \<and> (of_char c :: nat) < 58"
proof (induction n rule: decimal_digits.induct)
  case (1 n)
  then show ?case
    by (cases "n < 10") (auto simp: decimal_digits.simps [of n])
qed

lemma fmt_d_no_colon: "CHR '':'' \<notin> set (fmt_d n)"
  using decimal_digits_chars [of "CHR '':''"] by (auto simp: fmt_d_def)

lemma no_minus: "CHR ''-'' \<notin> set (decimal_digits n)"
  using decimal_digits_chars [of "CHR ''-''"] by auto

lemma fmt_d_inject: "fmt_d m = fmt_d n \<Longrightarrow> m = n"
  using no_minus [of "nat m"] no_minus [of "nat n"]
  by (auto simp: fmt_d_def split: if_splits dest!: decimal_digits_inject)
    (metis list.set_intros(1))+

lemma last_colon_split:
  assumes "h @ '':'' @ d = h' @ '':'' @ d'"
    and "CHR '':'' \<notin> set d" and "CHR '':'' \<notin> set d'"
  shows "h = h' \<and> d = d'"
proof -
  let ?p = "\<lambda>c. c \<noteq> CHR '':''"
  have e: "rev d @ CHR '':'' # rev h = rev d' @ CHR '':'' # rev h'"
    using arg_cong [OF assms(1), of rev] by simp
  have "takeWhile ?p (rev d @ CHR '':'' # rev h) = rev d"
    and "takeWhile ?p (rev d' @ CHR '':'' # rev h') = rev d'"
    using assms(2,3) by (auto simp: takeWhile_tail takeWhile_append)
  with e have "rev d = rev d'" by simp
  with e show ?thesis by simp
qed

lemma composeTcpAddress_split:
  "composeTcpAddress h p = composeTcpAddress h' p' \<Longrightarrow> h = h' \<and> p = p'"
  unfolding composeTcpAddress_def
  by (drule last_colon_split) (auto simp: fmt_d_no_colon dest!: fmt_d_inject intro: signed_word_eqI)

end
