(* ===== verification/Nan0_Messages.thy ===== *)
theory Nan0_Messages
  imports Nan0_Wire
begin

text \<open>
  Messages. First the protobuf library, which is not part of the repository: it is the
  parameter \<open>'m proto_api\<close> of every definition that marshals, unmarshals, clones or names
  a message, and \<open>proto_laws\<close> collects the documented behaviour the code relies on. Then
  the repository's own message structs (\<^verbatim>\<open>service.pb.go\<close>, \<^verbatim>\<open>mdns_definition.pb.go\<close>,
  \<^verbatim>\<open>apiKey.pb.go\<close>) with their nil-safe getters, and the service's methods
  (\<^verbatim>\<open>service.pb.ext.go\<close>). A Go pointer or interface that may be nil is an option.
\<close>

section \<open>The protobuf library as a parameter\<close>

record 'm proto_api =
  FullName :: "'m \<Rightarrow> string"
  Marshal :: "'m option \<Rightarrow> go_error + bytes"
  Unmarshal :: "bytes \<Rightarrow> 'm option \<Rightarrow> (go_error + 'm option) go"
  Clone :: "'m option \<Rightarrow> 'm option"
  NewPublicKey :: 'm
  NewEncryptedMessage :: 'm

text \<open>
  The documented behaviour: message names are not empty; a clone has its original's type;
  there is no clone of nil; what was marshalled is unmarshalled into any message of the same
  type, which keeps its type; unmarshalling into a message returns, with or without an error,
  and into a nil message is a runtime error. The two
  handshake messages of goprocrypt have different types.
\<close>

definition proto_laws :: "'m proto_api \<Rightarrow> bool" where
  "proto_laws P \<longleftrightarrow>
     (\<forall>m. FullName P m \<noteq> '''') \<and>
     Clone P None = None \<and>
     (\<forall>m. \<exists>c. Clone P (Some m) = Some c \<and> FullName P c = FullName P m) \<and>
     (\<forall>m bs t. Marshal P (Some m) = Inr bs \<and> FullName P t = FullName P m \<longrightarrow>
        Unmarshal P bs (Some t) = Ret (Inr (Some m))) \<and>
     (\<forall>bs t r. Unmarshal P bs (Some t) = Ret (Inr r) \<longrightarrow>
        (\<exists>m. r = Some m \<and> FullName P m = FullName P t)) \<and>
     (\<forall>bs. \<exists>e. Unmarshal P bs None = Panic (PanicErr e)) \<and>
     (\<forall>bs t. \<exists>r. Unmarshal P bs (Some t) = Ret r) \<and>
     FullName P (NewPublicKey P) \<noteq> FullName P (NewEncryptedMessage P)"

lemma proto_lawsD:
  assumes "proto_laws P"
  shows "FullName P m \<noteq> ''''"
    and "Clone P None = None"
    and "\<exists>c. Clone P (Some m) = Some c \<and> FullName P c = FullName P m"
    and "Marshal P (Some m) = Inr bs \<Longrightarrow> FullName P t = FullName P m \<Longrightarrow>
           Unmarshal P bs (Some t) = Ret (Inr (Some m))"
    and "Unmarshal P bs (Some t) = Ret (Inr r) \<Longrightarrow> \<exists>m. r = Some m \<and> FullName P m = FullName P t"
    and "\<exists>e. Unmarshal P bs None = Panic (PanicErr e)"
    and "\<exists>r. Unmarshal P bs (Some t) = Ret r"
    and "FullName P (NewPublicKey P) \<noteq> FullName P (NewEncryptedMessage P)"
  using assms unfolding proto_laws_def by blast+

lemma Clone_SomeD:
  "proto_laws P \<Longrightarrow> Clone P mo = Some c \<Longrightarrow> \<exists>m. mo = Some m \<and> FullName P c = FullName P m"
  by (metis proto_lawsD(2,3) not_None_eq option.inject option.distinct(1))

definition getProtobufMessageName :: "'m proto_api \<Rightarrow> 'm option \<Rightarrow> string" where
  "getProtobufMessageName P message =
     (case message of None \<Rightarrow> '''' | Some m \<Rightarrow> FullName P m)"

lemma getProtobufMessageName_simps [simp]:
  "getProtobufMessageName P None = ''''"
  "getProtobufMessageName P (Some m) = FullName P m"
  by (simp_all add: getProtobufMessageName_def)

lemma getProtobufMessageName_empty_iff:
  "proto_laws P \<Longrightarrow> getProtobufMessageName P mo = '''' \<longleftrightarrow> mo = None"
  by (cases mo) (auto simp: proto_lawsD(1))

section \<open>A concrete library\<close>

text \<open>
  Messages that are a type name (not empty: a first character and the others) and an
  uninterpreted payload satisfy the laws; the witnesses of theorems about any protobuf
  library run on them.
\<close>

datatype raw_message = RawMessage (raw_initial: char) (raw_rest: string) (raw_payload: bytes)

definition raw_api :: "raw_message proto_api" where
  "raw_api =
     \<lparr>FullName = (\<lambda>m. raw_initial m # raw_rest m),
      Marshal = (\<lambda>mo. case mo of None \<Rightarrow> Inr [] | Some m \<Rightarrow> Inr (raw_payload m)),
      Unmarshal = (\<lambda>bs mo. case mo of
          None \<Rightarrow> Panic (PanicErr (ErrRuntime ''nil pointer dereference''))
        | Some t \<Rightarrow> Ret (Inr (Some (RawMessage (raw_initial t) (raw_rest t) bs)))),
      Clone = (\<lambda>mo. mo),
      NewPublicKey = RawMessage CHR ''g'' ''oprocrypt.PublicKey'' [],
      NewEncryptedMessage = RawMessage CHR ''g'' ''oprocrypt.EncryptedMessage'' []\<rparr>"

lemma raw_api_laws: "proto_laws raw_api"
  by (auto simp: proto_laws_def raw_api_def raw_message.expand)

lemma raw_api_simps [simp]:
  "FullName raw_api m = raw_initial m # raw_rest m"
  "Marshal raw_api (Some m) = Inr (raw_payload m)"
  "Unmarshal raw_api bs (Some t) = Ret (Inr (Some (RawMessage (raw_initial t) (raw_rest t) bs)))"
  "Clone raw_api mo = mo"
  "NewPublicKey raw_api = RawMessage CHR ''g'' ''oprocrypt.PublicKey'' []"
  "NewEncryptedMessage raw_api = RawMessage CHR ''g'' ''oprocrypt.EncryptedMessage'' []"
  by (simp_all add: raw_api_def)

section \<open>The repository's messages\<close>

record service =
  Expired :: bool
  Port :: u32
  StartTime :: u64
  HostName :: string
  Uri :: string
  ServiceName :: string
  ServiceType :: string

definition Service_zero :: service where
  "Service_zero = \<lparr>Expired = False, Port = 0, StartTime = 0, HostName = '''', Uri = '''',
     ServiceName = '''', ServiceType = ''''\<rparr>"

definition Service_Reset :: "service \<Rightarrow> service" where
  "Service_Reset x = Service_zero"

definition Service_GetExpired :: "service option \<Rightarrow> bool" where
  "Service_GetExpired x = (case x of Some s \<Rightarrow> Expired s | None \<Rightarrow> False)"

definition Service_GetPort :: "service option \<Rightarrow> u32" where
  "Service_GetPort x = (case x of Some s \<Rightarrow> Port s | None \<Rightarrow> 0)"

definition Service_GetStartTime :: "service option \<Rightarrow> u64" where
  "Service_GetStartTime x = (case x of Some s \<Rightarrow> StartTime s | None \<Rightarrow> 0)"

definition Service_GetHostName :: "service option \<Rightarrow> string" where
  "Service_GetHostName x = (case x of Some s \<Rightarrow> HostName s | None \<Rightarrow> '''')"

definition Service_GetUri :: "service option \<Rightarrow> string" where
  "Service_GetUri x = (case x of Some s \<Rightarrow> Uri s | None \<Rightarrow> '''')"

definition Service_GetServiceName :: "service option \<Rightarrow> string" where
  "Service_GetServiceName x = (case x of Some s \<Rightarrow> ServiceName s | None \<Rightarrow> '''')"

definition Service_GetServiceType :: "service option \<Rightarrow> string" where
  "Service_GetServiceType x = (case x of Some s \<Rightarrow> ServiceType s | None \<Rightarrow> '''')"

record connection_info =
  ci_Websocket :: bool
  ci_Port :: u32
  ci_HostName :: string
  ci_Uri :: string

record mdefinition =
  md_ConnectionInfo :: "connection_info option"
  md_SupportedMessageTypes :: "string list"

definition ConnectionInfo_zero :: connection_info where
  "ConnectionInfo_zero = \<lparr>ci_Websocket = False, ci_Port = 0, ci_HostName = '''', ci_Uri = ''''\<rparr>"

definition ConnectionInfo_Reset :: "connection_info \<Rightarrow> connection_info" where
  "ConnectionInfo_Reset x = ConnectionInfo_zero"

definition ConnectionInfo_GetWebsocket :: "connection_info option \<Rightarrow> bool" where
  "ConnectionInfo_GetWebsocket x = (case x of Some c \<Rightarrow> ci_Websocket c | None \<Rightarrow> False)"

definition ConnectionInfo_GetPort :: "connection_info option \<Rightarrow> u32" where
  "ConnectionInfo_GetPort x = (case x of Some c \<Rightarrow> ci_Port c | None \<Rightarrow> 0)"

definition ConnectionInfo_GetHostName :: "connection_info option \<Rightarrow> string" where
  "ConnectionInfo_GetHostName x = (case x of Some c \<Rightarrow> ci_HostName c | None \<Rightarrow> '''')"

definition ConnectionInfo_GetUri :: "connection_info option \<Rightarrow> string" where
  "ConnectionInfo_GetUri x = (case x of Some c \<Rightarrow> ci_Uri c | None \<Rightarrow> '''')"

definition MDefinition_zero :: mdefinition where
  "MDefinition_zero = \<lparr>md_ConnectionInfo = None, md_SupportedMessageTypes = []\<rparr>"

definition MDefinition_Reset :: "mdefinition \<Rightarrow> mdefinition" where
  "MDefinition_Reset x = MDefinition_zero"

definition MDefinition_GetConnectionInfo :: "mdefinition option \<Rightarrow> connection_info option" where
  "MDefinition_GetConnectionInfo x = (case x of Some d \<Rightarrow> md_ConnectionInfo d | None \<Rightarrow> None)"

definition MDefinition_GetSupportedMessageTypes :: "mdefinition option \<Rightarrow> string list" where
  "MDefinition_GetSupportedMessageTypes x =
     (case x of Some d \<Rightarrow> md_SupportedMessageTypes d | None \<Rightarrow> [])"

record api_key =
  ak_EncKey :: bytes
  ak_HmacKey :: bytes

definition ApiKey_zero :: api_key where
  "ApiKey_zero = \<lparr>ak_EncKey = [], ak_HmacKey = []\<rparr>"

definition ApiKey_Reset :: "api_key \<Rightarrow> api_key" where
  "ApiKey_Reset x = ApiKey_zero"

definition ApiKey_GetEncKey :: "api_key option \<Rightarrow> bytes" where
  "ApiKey_GetEncKey x = (case x of Some k \<Rightarrow> ak_EncKey k | None \<Rightarrow> [])"

definition ApiKey_GetHmacKey :: "api_key option \<Rightarrow> bytes" where
  "ApiKey_GetHmacKey x = (case x of Some k \<Rightarrow> ak_HmacKey k | None \<Rightarrow> [])"

section \<open>Methods of a service\<close>

definition MdnsTag :: "service \<Rightarrow> string" where
  "MdnsTag ns = ServiceName ns @ ''.'' @ ServiceType ns"

definition Service_Equals :: "service \<Rightarrow> service \<Rightarrow> bool" where
  "Service_Equals ns other \<longleftrightarrow>
     Port ns = Port other \<and>
     HostName ns = HostName other \<and>
     Expired ns = Expired other \<and>
     StartTime ns = StartTime other \<and>
     ServiceName ns = ServiceName other \<and>
     ServiceType ns = ServiceType other"

text \<open>\<open>start\<close> listens on every interface: the host part of the address is empty.\<close>

definition start_address :: "service \<Rightarrow> string" where
  "start_address ns = composeTcpAddress '''' (Port ns)"

lemma Service_Equals_iff: "Service_Equals a b \<longleftrightarrow> a\<lparr>Uri := Uri b\<rparr> = b"
  by (cases a; cases b) (auto simp: Service_Equals_def)

lemma start_address_inject: "start_address a = start_address b \<Longrightarrow> Port a = Port b"
  unfolding start_address_def by (blast dest: composeTcpAddress_split)

end
