(* ===== verification/Nan0_Encryption.thy ===== *)
theory Nan0_Encryption
  imports Go_AES_GCM Go_HMAC Go_IO Nan0_Messages
begin

text \<open>
  \<^verbatim>\<open>encryption.go\<close>: sign-then-encrypt for messages. The source of randomness
  (\<^verbatim>\<open>rand.Reader\<close>) is a finite tape of random bytes, the state of the functions that draw
  from it: a draw that the tape cannot serve is the failing read of the Go code. A key
  (\<^verbatim>\<open>*[32]byte\<close>) is a list of 32 bytes.

  The lemmas: what \<open>Encrypt\<close> produces \<open>Decrypt\<close> returns, nothing shorter than a nonce and
  a tag decrypts, and \<open>DecryptProtobuf\<close> hands over a message only when the signature of
  its bytes is right.
\<close>

section \<open>Keys\<close>

definition NewEncryptionKey :: "(bytes, bytes) act" where
  "NewEncryptionKey tape =
     (case ReadFull 32 tape of
        (Inl err, tape') \<Rightarrow> (Panic (PanicErr err), tape')
      | (Inr key, tape') \<Rightarrow> (Ret key, tape'))"

definition NewHMACKey :: "(bytes, bytes) act" where
  "NewHMACKey tape =
     (case ReadFull 32 tape of
        (Inl err, tape') \<Rightarrow> (Panic (PanicErr err), tape')
      | (Inr key, tape') \<Rightarrow> (Ret key, tape'))"

definition is_key :: "bytes \<Rightarrow> bool" where
  "is_key k \<longleftrightarrow> length k = 32"

lemma NewEncryptionKey_is_key: "NewEncryptionKey tape = (Ret k, tape') \<Longrightarrow> is_key k"
  by (auto simp: NewEncryptionKey_def is_key_def dest: ReadFull_length split: prod.splits sum.splits)

lemma NewHMACKey_is_key: "NewHMACKey tape = (Ret k, tape') \<Longrightarrow> is_key k"
  by (auto simp: NewHMACKey_def is_key_def dest: ReadFull_length split: prod.splits sum.splits)

section \<open>AES-GCM\<close>

definition Encrypt :: "bytes \<Rightarrow> bytes \<Rightarrow> (bytes, go_error + bytes) act" where
  "Encrypt plaintext key tape =
     (case aes_NewCipher key of
        Inl err \<Rightarrow> (Ret (Inl err), tape)
      | Inr block \<Rightarrow>
          (case ReadFull gcm_NonceSize tape of
             (Inl err, tape') \<Rightarrow> (Ret (Inl err), tape')
           | (Inr nonce, tape') \<Rightarrow>
               (go_bind (gcm_Seal block nonce nonce plaintext) (\<lambda>c. Ret (Inr c)), tape')))"

definition Decrypt :: "bytes \<Rightarrow> bytes \<Rightarrow> (go_error + bytes) go" where
  "Decrypt ciphertext key =
     (case aes_NewCipher key of
        Inl err \<Rightarrow> Ret (Inl err)
      | Inr block \<Rightarrow>
          if length ciphertext < gcm_NonceSize
          then Ret (Inl (ErrText ''malformed ciphertext''))
          else gcm_Open block (take gcm_NonceSize ciphertext) (drop gcm_NonceSize ciphertext))"

text \<open>A sealed message is the nonce, the ciphertext and the tag.\<close>

definition sealed_size :: "nat \<Rightarrow> nat" where
  "sealed_size n = gcm_NonceSize + n + gcm_TagSize"

lemma Encrypt_draws:
  assumes "is_key key" and "gcm_NonceSize \<le> length tape" and "length pt \<le> gcm_max_plaintext"
  shows "\<exists>c. Encrypt pt key tape = (Ret (Inr c), drop gcm_NonceSize tape)
             \<and> length c = sealed_size (length pt)"
  using assms
  by (simp add: Encrypt_def is_key_def aes_NewCipher_def ReadFull_def gcm_Seal_def Let_def
      sealed_size_def length_ctr_crypt length_gcm_tag gcm_TagSize_def)

lemma Decrypt_Encrypt:
  assumes "Encrypt pt key tape = (Ret (Inr c), tape')"
  shows "Decrypt c key = Ret (Inr pt)"
proof -
  from assms obtain nonce where key: "length key = 32"
    and nonce: "ReadFull gcm_NonceSize tape = (Inr nonce, tape')"
    and seal: "gcm_Seal (aes_block key) nonce nonce pt = Ret c"
    by (auto simp: Encrypt_def aes_NewCipher_def go_bind_Ret_iff split: if_splits sum.splits prod.splits)
  from nonce have n: "length nonce = gcm_NonceSize" by (rule ReadFull_length)
  with seal have "length pt \<le> gcm_max_plaintext"
    and "c = nonce @ ctr_crypt (aes_block key) nonce pt
               @ gcm_tag (aes_block key) nonce (ctr_crypt (aes_block key) nonce pt)"
    by (auto simp: gcm_Seal_def Let_def split: if_splits)
  with key n show ?thesis by (simp add: Decrypt_def aes_NewCipher_def gcm_Open_Seal)
qed

lemma Decrypt_total: "\<exists>r. Decrypt c key = Ret r"
  by (auto simp: Decrypt_def aes_NewCipher_def intro!: gcm_Open_Ret)

lemma Decrypt_short: "length c < sealed_size 0 \<Longrightarrow> \<exists>e. Decrypt c key = Ret (Inl e)"
  by (auto simp: Decrypt_def aes_NewCipher_def sealed_size_def gcm_Open_short)

lemma Decrypt_authentic:
  assumes "Decrypt c key = Ret (Inr pt)"
  shows "gcm_Seal (aes_block key) [] (take gcm_NonceSize c) pt = Ret (drop gcm_NonceSize c)
         \<and> gcm_NonceSize \<le> length c"
  using assms
  by (auto simp: Decrypt_def aes_NewCipher_def gcm_Open_authentic split: if_splits)

section \<open>Signatures\<close>

definition GenerateHMAC :: "bytes \<Rightarrow> bytes \<Rightarrow> bytes" where
  "GenerateHMAC data key = hmac_sha512_256 key data"

definition CheckHMAC :: "bytes \<Rightarrow> bytes \<Rightarrow> bytes \<Rightarrow> bool" where
  "CheckHMAC data suppliedMAC key =
     (let expectedMAC = GenerateHMAC data key in hmac_Equal expectedMAC suppliedMAC)"

lemma length_GenerateHMAC [simp]: "length (GenerateHMAC data key) = 32"
  by (simp add: GenerateHMAC_def)

lemma CheckHMAC_iff: "CheckHMAC data mac key \<longleftrightarrow> mac = GenerateHMAC data key"
  by (auto simp: CheckHMAC_def hmac_Equal_def)

section \<open>Messages\<close>

text \<open>
  \<open>EncryptProtobuf\<close> recovers from every panic and has an unnamed result: after a failure it
  returns the nil slice.
\<close>

definition EncryptProtobuf_body ::
    "'m proto_api \<Rightarrow> nat \<Rightarrow> 'm option \<Rightarrow> int \<Rightarrow> bytes \<Rightarrow> bytes \<Rightarrow> (bytes, bytes) act" where
  "EncryptProtobuf_body P w pb typeVal encryptKey hmacKey =
     act_bind (act_lift (checked (Marshal P pb))) (\<lambda>rawData.
       let mac = GenerateHMAC rawData hmacKey;
           macSize = int (length mac);
           data = mac @ rawData
       in act_bind (Encrypt data encryptKey) (\<lambda>r.
          act_bind (act_lift (checked r)) (\<lambda>encryptedMsg.
          let encryptedMsgSize = int (length encryptedMsg)
          in act_lift
            (go_bind (SizeWriter w typeVal) (\<lambda>tb.
             go_bind (SizeWriter w macSize) (\<lambda>mb.
             go_bind (SizeWriter w encryptedMsgSize) (\<lambda>sb.
             Ret (ProtoPreamble @ tb @ mb @ sb @ encryptedMsg))))))))"

definition EncryptProtobuf ::
    "'m proto_api \<Rightarrow> nat \<Rightarrow> 'm option \<Rightarrow> int \<Rightarrow> bytes \<Rightarrow> bytes \<Rightarrow> bytes \<Rightarrow> bytes \<times> bytes" where
  "EncryptProtobuf P w pb typeVal encryptKey hmacKey =
     act_deferred (recoverPanic (Some (\<lambda>e r. r))) []
       (EncryptProtobuf_body P w pb typeVal encryptKey hmacKey)"

text \<open>
  \<open>DecryptProtobuf\<close> fills the message it is given; its result here is the filled message or
  the error. \<open>hmacSize\<close> comes off the wire.
\<close>

definition DecryptProtobuf_body ::
    "'m proto_api \<Rightarrow> bytes \<Rightarrow> 'm option \<Rightarrow> int \<Rightarrow> bytes \<Rightarrow> bytes \<Rightarrow> 'm option go" where
  "DecryptProtobuf_body P rawData msg hmacSize decryptKey hmacKey =
     go_bind (Decrypt rawData decryptKey) (\<lambda>r.
     go_bind (checked r) (\<lambda>decryptedBytes.
     go_bind (if hmacSize < 0 then Panic slice_panic
              else go_slice decryptedBytes [] 0 (nat hmacSize)) (\<lambda>mac.
     go_bind (go_slice_from decryptedBytes (nat hmacSize)) (\<lambda>realData.
     if CheckHMAC realData mac hmacKey
     then go_bind (Unmarshal P realData msg) checked
     else Panic (PanicErr (ErrText ''authentication failed''))))))"

definition DecryptProtobuf ::
    "'m proto_api \<Rightarrow> bytes \<Rightarrow> 'm option \<Rightarrow> int \<Rightarrow> bytes \<Rightarrow> bytes \<Rightarrow> go_error + 'm option" where
  "DecryptProtobuf P rawData msg hmacSize decryptKey hmacKey =
     deferred (recoverPanic (Some (\<lambda>e r. Inl e))) (Inr msg)
       (go_bind (DecryptProtobuf_body P rawData msg hmacSize decryptKey hmacKey) (\<lambda>m. Ret (Inr m)))"

text \<open>What a message has passed when \<open>DecryptProtobuf_body\<close> returns it.\<close>

lemma DecryptProtobuf_body_Ret:
  assumes "DecryptProtobuf_body P raw msg n dk hk = Ret m"
  obtains mac real where "Decrypt raw dk = Ret (Inr (mac @ real))" and "n = int (length mac)"
    and "mac = GenerateHMAC real hk" and "Unmarshal P real msg = Ret (Inr m)"
proof -
  from assms obtain d real where d: "Decrypt raw dk = Ret (Inr d)" and n: "0 \<le> n" "nat n \<le> length d"
    and real: "real = drop (nat n) d" and chk: "CheckHMAC real (take (nat n) d) hk"
    and m: "Unmarshal P real msg = Ret (Inr m)"
    by (auto simp: DecryptProtobuf_body_def go_bind_Ret_iff go_slice_exact go_slice_from_def
        split: if_splits)
  show thesis
  proof (rule that)
    show "Decrypt raw dk = Ret (Inr (take (nat n) d @ real))" by (simp add: d real)
    show "n = int (length (take (nat n) d))" using n by simp
    show "take (nat n) d = GenerateHMAC real hk" using chk by (simp add: CheckHMAC_iff)
    show "Unmarshal P real msg = Ret (Inr m)" by (rule m)
  qed
qed

text \<open>With a well-behaved protobuf library, decryption fails with an error only.\<close>

lemma DecryptProtobuf_body_Panic:
  assumes "proto_laws P" and "DecryptProtobuf_body P raw (Some t) n dk hk = Panic p"
  shows "\<exists>e. p = PanicErr e"
proof -
  obtain r where r: "Decrypt raw dk = Ret r" using Decrypt_total by blast
  have u: "\<exists>r. Unmarshal P bs (Some t) = Ret r" for bs by (rule proto_lawsD(7) [OF assms(1)])
  show ?thesis
  proof (cases r)
    case (Inl e)
    with r assms(2) show ?thesis by (auto simp: DecryptProtobuf_body_def)
  next
    case (Inr d)
    obtain q where "Unmarshal P (drop (nat n) d) (Some t) = Ret q" using u by blast
    with r Inr assms(2) show ?thesis
      by (cases q) (auto simp: DecryptProtobuf_body_def go_slice_exact go_slice_from_def
          slice_panic_def split: if_splits)
  qed
qed

lemma DecryptProtobuf_Inr:
  assumes "proto_laws P" and "DecryptProtobuf P raw (Some t) n dk hk = Inr m"
  shows "DecryptProtobuf_body P raw (Some t) n dk hk = Ret m"
  using assms(2) DecryptProtobuf_body_Panic [OF assms(1), of raw t n dk hk]
  by (cases "DecryptProtobuf_body P raw (Some t) n dk hk") (auto simp: DecryptProtobuf_def)

lemma DecryptProtobuf_body_signed:
  assumes "Decrypt raw dk = Ret (Inr (GenerateHMAC real hk @ real))"
    and "Unmarshal P real msg = Ret (Inr m)"
  shows "DecryptProtobuf_body P raw msg 32 dk hk = Ret m"
  using assms by (simp add: DecryptProtobuf_body_def go_slice_exact go_slice_from_def CheckHMAC_iff)

lemma EncryptProtobuf_body_Ret:
  assumes "Marshal P pb = Inr real" and "is_key ek" and "gcm_NonceSize \<le> length tape"
    and "length real + 32 \<le> gcm_max_plaintext" and "4 \<le> w"
  obtains c tb mb sb where
    "EncryptProtobuf P w pb tv ek hk tape = (ProtoPreamble @ tb @ mb @ sb @ c, drop gcm_NonceSize tape)"
    and "SizeWriter w tv = Ret tb" and "SizeWriter w 32 = Ret mb"
    and "SizeWriter w (int (length c)) = Ret sb"
    and "Decrypt c ek = Ret (Inr (GenerateHMAC real hk @ real))"
    and "length c = sealed_size (32 + length real)"
proof -
  obtain c where c: "Encrypt (GenerateHMAC real hk @ real) ek tape = (Ret (Inr c), drop gcm_NonceSize tape)"
    and len: "length c = sealed_size (32 + length real)"
    using Encrypt_draws [OF assms(2,3), of "GenerateHMAC real hk @ real"] assms(4)
    by (auto simp: add.commute)
  obtain tb mb sb where b: "SizeWriter w tv = Ret tb" "SizeWriter w 32 = Ret mb"
      "SizeWriter w (int (length c)) = Ret sb"
    using SizeWriter_total [OF assms(5)] by metis
  show thesis
    by (rule that [OF _ b Decrypt_Encrypt [OF c] len])
      (simp add: EncryptProtobuf_def act_deferred_def EncryptProtobuf_body_def assms(1) Let_def
        act_bind_eval(1) [where m = "Encrypt _ _", OF c] b)
qed

end
