(* ===== verification/Nan0_Builder.thy ===== *)
theory Nan0_Builder
  imports Nan0_Messages
begin

text \<open>
  The builders: \<^verbatim>\<open>baseBuilder.go\<close>, the option handling of \<^verbatim>\<open>nanoBuilder.go\<close> and
  \<^verbatim>\<open>nan0WebsocketBuilder.go\<close>, and the constructors of \<^verbatim>\<open>service.pb.ext.go\<close>.

  A builder option is a function on the builder; one that may panic returns a \<open>go\<close> value.
  \<open>base_option\<close> lists the options the package exports: \<open>baseBuilder\<close> is not exported, so
  these are all the options there can be. The locale \<open>message_registry\<close> is the interface by
  which the framing code relies on the two identity maps.

  Durations are nanoseconds in \<open>int\<close>. A route is a value of \<open>'r\<close>, nil being \<open>None\<close>, and what it
  does an \<open>ExecutableRoute\<close>; a map entry may hold a nil message.
\<close>

section \<open>State\<close>

type_synonym 'r RouteMap = "string \<rightharpoonup> 'r"

text \<open>\<^verbatim>\<open>Execute\<close>: the values that the route puts in the sender's channel, and whether it panics after that.\<close>

type_synonym 'm ExecutableRoute = "'m \<Rightarrow> 'm option list \<times> panic_value option"

record ('m, 'r) baseBuilder =
  ns :: service
  writeDeadlineActive :: bool
  messageIdentMap :: "int \<rightharpoonup> 'm option"
  inverseIdentMap :: "string \<rightharpoonup> int"
  routes :: "'r RouteMap"
  serviceDiscovery :: bool
  purgeConnections :: int
  txRxIdleDuration :: int
  maxServerConnections :: int
  sendBuffer :: int
  receiveBuffer :: int
  secure :: bool

definition DefaultRoute :: string where
  "DefaultRoute = ''''"

definition defaultTxRxIdleDuration :: int where
  "defaultTxRxIdleDuration = 300000000000"

text \<open>\<^verbatim>\<open>new(baseBuilder)\<close>: all fields zero; \<open>ns\<close>, nil until \<open>initialize\<close>, is the argument.\<close>

definition zero_baseBuilder :: "service \<Rightarrow> ('m, 'r) baseBuilder" where
  "zero_baseBuilder s =
     \<lparr>ns = s, writeDeadlineActive = False, messageIdentMap = Map.empty,
      inverseIdentMap = Map.empty, routes = Map.empty, serviceDiscovery = False,
      purgeConnections = 0, txRxIdleDuration = 0, maxServerConnections = 0, sendBuffer = 0,
      receiveBuffer = 0, secure = False\<rparr>"

definition initialize :: "service \<Rightarrow> ('m, 'r) baseBuilder \<Rightarrow> ('m, 'r) baseBuilder" where
  "initialize s bb =
     bb\<lparr>messageIdentMap := Map.empty, inverseIdentMap := Map.empty, routes := Map.empty, ns := s\<rparr>"

definition NewNanoBuilder :: "service \<Rightarrow> ('m, 'r) baseBuilder" where
  "NewNanoBuilder s =
     initialize s ((zero_baseBuilder s)\<lparr>txRxIdleDuration := defaultTxRxIdleDuration\<rparr>)"

section \<open>Options\<close>

definition ident_of :: "string \<Rightarrow> int" where
  "ident_of t = uint (hashString t)"

definition addSingleIdentity ::
    "'m proto_api \<Rightarrow> 'm option \<Rightarrow> ('m, 'r) baseBuilder \<Rightarrow> ('m, 'r) baseBuilder" where
  "addSingleIdentity P messageIdent bb =
     (let t = getProtobufMessageName P messageIdent;
          i = uint (hashString t)
      in bb\<lparr>messageIdentMap := (messageIdentMap bb)(i \<mapsto> messageIdent),
            inverseIdentMap := (inverseIdentMap bb)(t \<mapsto> i)\<rparr>)"

definition addRoute ::
    "'m proto_api \<Rightarrow> 'm option \<Rightarrow> 'r option \<Rightarrow> ('m, 'r) baseBuilder \<Rightarrow> ('m, 'r) baseBuilder go" where
  "addRoute P messageIdent route bb =
     (case route of
        None \<Rightarrow> Panic (PanicErr (ErrText ''ExecutableRoute cannot be nil''))
      | Some r \<Rightarrow>
          let t = getProtobufMessageName P messageIdent
          in Ret (bb\<lparr>routes := (routes bb)(t \<mapsto> r)\<rparr>))"

definition AddMessageIdentities ::
    "'m proto_api \<Rightarrow> 'm option list \<Rightarrow> ('m, 'r) baseBuilder \<Rightarrow> ('m, 'r) baseBuilder" where
  "AddMessageIdentities P messageIdents bb = foldl (\<lambda>b m. addSingleIdentity P m b) bb messageIdents"

definition AddMessageIdentity ::
    "'m proto_api \<Rightarrow> 'm option \<Rightarrow> ('m, 'r) baseBuilder \<Rightarrow> ('m, 'r) baseBuilder" where
  "AddMessageIdentity P messageIdent bb = addSingleIdentity P messageIdent bb"

definition Route ::
    "'m proto_api \<Rightarrow> 'm option \<Rightarrow> 'r option \<Rightarrow> ('m, 'r) baseBuilder \<Rightarrow> ('m, 'r) baseBuilder go" where
  "Route P messageIdent route bb =
     (if secure bb \<and> messageIdent = None then Ret bb
      else addRoute P messageIdent route (addSingleIdentity P messageIdent bb))"

definition ServiceDiscovery :: "('m, 'r) baseBuilder \<Rightarrow> ('m, 'r) baseBuilder" where
  "ServiceDiscovery bb = bb\<lparr>serviceDiscovery := True\<rparr>"

definition Insecure :: "('m, 'r) baseBuilder \<Rightarrow> ('m, 'r) baseBuilder" where
  "Insecure bb = bb\<lparr>secure := False\<rparr>"

definition Secure :: "'m proto_api \<Rightarrow> ('m, 'r) baseBuilder \<Rightarrow> ('m, 'r) baseBuilder" where
  "Secure P bb =
     (let bb1 = bb\<lparr>secure := True\<rparr>;
          bb2 = AddMessageIdentities P
                  [Clone P (Some (NewPublicKey P)), Clone P (Some (NewEncryptedMessage P))] bb1
      in if routes bb2 '''' \<noteq> None then bb2\<lparr>routes := (routes bb2)('''' := None)\<rparr> else bb2)"

definition ToggleWriteDeadline :: "bool \<Rightarrow> ('m, 'r) baseBuilder \<Rightarrow> ('m, 'r) baseBuilder" where
  "ToggleWriteDeadline writeDeadline bb = bb\<lparr>writeDeadlineActive := writeDeadline\<rparr>"

definition MaxConnections :: "int \<Rightarrow> ('m, 'r) baseBuilder \<Rightarrow> ('m, 'r) baseBuilder" where
  "MaxConnections m bb = bb\<lparr>maxServerConnections := m\<rparr>"

definition SendBuffer :: "int \<Rightarrow> ('m, 'r) baseBuilder \<Rightarrow> ('m, 'r) baseBuilder" where
  "SendBuffer n bb = bb\<lparr>sendBuffer := n\<rparr>"

definition ReceiveBuffer :: "int \<Rightarrow> ('m, 'r) baseBuilder \<Rightarrow> ('m, 'r) baseBuilder" where
  "ReceiveBuffer n bb = bb\<lparr>receiveBuffer := n\<rparr>"

definition PurgeConnectionsAfter :: "int \<Rightarrow> ('m, 'r) baseBuilder \<Rightarrow> ('m, 'r) baseBuilder" where
  "PurgeConnectionsAfter duration bb = bb\<lparr>purgeConnections := duration\<rparr>"

definition MaxIdleDuration :: "int \<Rightarrow> ('m, 'r) baseBuilder \<Rightarrow> ('m, 'r) baseBuilder" where
  "MaxIdleDuration duration bb = bb\<lparr>txRxIdleDuration := duration\<rparr>"

datatype ('m, 'r) base_option =
    OptServiceDiscovery
  | OptInsecure
  | OptSecure
  | OptToggleWriteDeadline bool
  | OptAddMessageIdentities "'m option list"
  | OptAddMessageIdentity "'m option"
  | OptRoute "'m option" "'r option"
  | OptMaxConnections int
  | OptSendBuffer int
  | OptReceiveBuffer int
  | OptPurgeConnectionsAfter int
  | OptMaxIdleDuration int

fun apply_base_option ::
    "'m proto_api \<Rightarrow> ('m, 'r) base_option \<Rightarrow> ('m, 'r) baseBuilder \<Rightarrow> ('m, 'r) baseBuilder go" where
  "apply_base_option P OptServiceDiscovery bb = Ret (ServiceDiscovery bb)"
| "apply_base_option P OptInsecure bb = Ret (Insecure bb)"
| "apply_base_option P OptSecure bb = Ret (Secure P bb)"
| "apply_base_option P (OptToggleWriteDeadline d) bb = Ret (ToggleWriteDeadline d bb)"
| "apply_base_option P (OptAddMessageIdentities ms) bb = Ret (AddMessageIdentities P ms bb)"
| "apply_base_option P (OptAddMessageIdentity m) bb = Ret (AddMessageIdentity P m bb)"
| "apply_base_option P (OptRoute m r) bb = Route P m r bb"
| "apply_base_option P (OptMaxConnections n) bb = Ret (MaxConnections n bb)"
| "apply_base_option P (OptSendBuffer n) bb = Ret (SendBuffer n bb)"
| "apply_base_option P (OptReceiveBuffer n) bb = Ret (ReceiveBuffer n bb)"
| "apply_base_option P (OptPurgeConnectionsAfter d) bb = Ret (PurgeConnectionsAfter d bb)"
| "apply_base_option P (OptMaxIdleDuration d) bb = Ret (MaxIdleDuration d bb)"

text \<open>\<^verbatim>\<open>bb.build(opts...)\<close>: the options in order, up to the first panic.\<close>

fun build ::
    "'m proto_api \<Rightarrow> ('m, 'r) base_option list \<Rightarrow> ('m, 'r) baseBuilder \<Rightarrow> ('m, 'r) baseBuilder go" where
  "build P [] bb = Ret bb"
| "build P (opt # opts) bb = go_bind (apply_base_option P opt bb) (build P opts)"

section \<open>The builders' option loops\<close>

text \<open>
  \<^verbatim>\<open>buildOpts\<close> takes values of any type and switches on it: named base options, plain
  functions on a base builder (\<open>Secure\<close>, \<open>Insecure\<close>, \<open>ServiceDiscovery\<close> as function values),
  and the builder's own kind. Everything else is skipped.
\<close>

record tls_config =
  CertFile :: string
  KeyFile :: string

record url =
  url_Scheme :: string
  url_Host :: string
  url_Path :: string

record ('m, 'r) websocketBuilder =
  websocketFlag :: bool
  origin :: string
  origins :: "url list"
  tls :: "tls_config option"
  base :: "('m, 'r) baseBuilder"

datatype ws_option =
    OptSecureWs tls_config
  | OptAddOrigins "string list"
  | OptAppendOrigins "url list"

datatype ('m, 'r) build_arg =
    BaseArg "('m, 'r) base_option"
  | FuncArg "('m, 'r) base_option"
  | NanoArg "('m, 'r) baseBuilder \<Rightarrow> ('m, 'r) baseBuilder"
  | WsArg ws_option
  | OtherArg

fun nano_buildOpts ::
    "'m proto_api \<Rightarrow> ('m, 'r) build_arg list \<Rightarrow> ('m, 'r) baseBuilder \<Rightarrow> ('m, 'r) baseBuilder go" where
  "nano_buildOpts P [] nsb = Ret nsb"
| "nano_buildOpts P (BaseArg ot # opts) nsb = go_bind (apply_base_option P ot nsb) (nano_buildOpts P opts)"
| "nano_buildOpts P (NanoArg ot # opts) nsb = nano_buildOpts P opts (ot nsb)"
| "nano_buildOpts P (FuncArg ot # opts) nsb = go_bind (apply_base_option P ot nsb) (nano_buildOpts P opts)"
| "nano_buildOpts P (_ # opts) nsb = nano_buildOpts P opts nsb"

definition NewWebsocketBuilder :: "service \<Rightarrow> ('m, 'r) websocketBuilder" where
  "NewWebsocketBuilder s =
     \<lparr>websocketFlag = True, origin = '''', origins = [], tls = None,
      base = initialize s (zero_baseBuilder s)\<rparr>"

definition SecureWs :: "tls_config \<Rightarrow> ('m, 'r) websocketBuilder \<Rightarrow> ('m, 'r) websocketBuilder" where
  "SecureWs config wsb = wsb\<lparr>base := (base wsb)\<lparr>secure := True\<rparr>, tls := Some config\<rparr>"

text \<open>\<open>parse\<close> is \<^verbatim>\<open>url.Parse\<close>; an origin it rejects is dropped silently.\<close>

definition AddOrigins ::
    "(string \<Rightarrow> go_error + url) \<Rightarrow> string list \<Rightarrow> ('m, 'r) websocketBuilder \<Rightarrow> ('m, 'r) websocketBuilder" where
  "AddOrigins parse orig wsb =
     foldl (\<lambda>w v. case parse v of Inr u \<Rightarrow> w\<lparr>origins := origins w @ [u]\<rparr> | Inl err \<Rightarrow> w) wsb orig"

definition AppendOrigins :: "url list \<Rightarrow> ('m, 'r) websocketBuilder \<Rightarrow> ('m, 'r) websocketBuilder" where
  "AppendOrigins orig wsb = wsb\<lparr>origins := origins wsb @ orig\<rparr>"

fun apply_ws_option ::
    "(string \<Rightarrow> go_error + url) \<Rightarrow> ws_option \<Rightarrow> ('m, 'r) websocketBuilder \<Rightarrow> ('m, 'r) websocketBuilder" where
  "apply_ws_option parse (OptSecureWs c) wsb = SecureWs c wsb"
| "apply_ws_option parse (OptAddOrigins os) wsb = AddOrigins parse os wsb"
| "apply_ws_option parse (OptAppendOrigins us) wsb = AppendOrigins us wsb"

fun ws_buildOpts ::
    "(string \<Rightarrow> go_error + url) \<Rightarrow> 'm proto_api \<Rightarrow> ('m, 'r) build_arg list \<Rightarrow>
     ('m, 'r) websocketBuilder \<Rightarrow> ('m, 'r) websocketBuilder go" where
  "ws_buildOpts parse P [] wsb = Ret wsb"
| "ws_buildOpts parse P (BaseArg ot # opts) wsb =
     go_bind (apply_base_option P ot (base wsb)) (\<lambda>b. ws_buildOpts parse P opts (wsb\<lparr>base := b\<rparr>))"
| "ws_buildOpts parse P (WsArg ot # opts) wsb = ws_buildOpts parse P opts (apply_ws_option parse ot wsb)"
| "ws_buildOpts parse P (FuncArg ot # opts) wsb =
     go_bind (apply_base_option P ot (base wsb)) (\<lambda>b. ws_buildOpts parse P opts (wsb\<lparr>base := b\<rparr>))"
| "ws_buildOpts parse P (_ # opts) wsb = ws_buildOpts parse P opts wsb"

section \<open>Channel capacities\<close>

text \<open>\<^verbatim>\<open>make(chan T, n)\<close> panics when \<open>n\<close> is negative.\<close>

definition make_chan :: "int \<Rightarrow> nat go" where
  "make_chan n =
     (if n < 0 then Panic (PanicErr (ErrRuntime ''makechan: size out of range'')) else Ret (nat n))"

definition makeSendChannelFromBuilder :: "('m, 'r) baseBuilder \<Rightarrow> nat go" where
  "makeSendChannelFromBuilder bb = (if sendBuffer bb = 0 then make_chan 0 else make_chan (sendBuffer bb))"

definition makeReceiveChannelFromBuilder :: "('m, 'r) baseBuilder \<Rightarrow> nat go" where
  "makeReceiveChannelFromBuilder bb =
     (if receiveBuffer bb = 0 then make_chan 0 else make_chan (receiveBuffer bb))"

end
