(* ===== verification/Nan0_Registry.thy ===== *)
theory Nan0_Registry
  imports Nan0_Builder
begin

text \<open>
  What the builder's options keep of its maps. \<open>registry_inv\<close> ties the two identity maps and
  the routes together and holds of every builder the API can produce; \<open>secure_inv\<close> is the
  rule that a secure builder has no default route. \<open>message_registry\<close> is what the framing
  code relies on: a registered type's identifier leads back to a message of that type, as
  long as the registered names have distinct hashes (\<open>collision_free\<close>).
\<close>

named_theorems option_defs \<open>definitions of the builder options\<close>

declare
  AddMessageIdentity_def [option_defs] ServiceDiscovery_def [option_defs]
  Insecure_def [option_defs] ToggleWriteDeadline_def [option_defs]
  MaxConnections_def [option_defs] SendBuffer_def [option_defs] ReceiveBuffer_def [option_defs]
  PurgeConnectionsAfter_def [option_defs] MaxIdleDuration_def [option_defs]

section \<open>The registry invariant\<close>

definition registry_inv :: "'m proto_api \<Rightarrow> ('m, 'r) baseBuilder \<Rightarrow> bool" where
  "registry_inv P bb \<longleftrightarrow>
     (\<forall>i mo. messageIdentMap bb i = Some mo \<longrightarrow>
        i = ident_of (getProtobufMessageName P mo) \<and>
        getProtobufMessageName P mo \<in> dom (inverseIdentMap bb)) \<and>
     (\<forall>t i. inverseIdentMap bb t = Some i \<longrightarrow>
        i = ident_of t \<and> messageIdentMap bb i \<noteq> None) \<and>
     dom (routes bb) \<subseteq> dom (inverseIdentMap bb)"

lemma registry_inv_other_fields [simp]:
  "registry_inv P (bb\<lparr>secure := b\<rparr>) = registry_inv P bb"
  "registry_inv P (bb\<lparr>serviceDiscovery := b\<rparr>) = registry_inv P bb"
  "registry_inv P (bb\<lparr>writeDeadlineActive := b\<rparr>) = registry_inv P bb"
  "registry_inv P (bb\<lparr>maxServerConnections := n\<rparr>) = registry_inv P bb"
  "registry_inv P (bb\<lparr>sendBuffer := n\<rparr>) = registry_inv P bb"
  "registry_inv P (bb\<lparr>receiveBuffer := n\<rparr>) = registry_inv P bb"
  "registry_inv P (bb\<lparr>purgeConnections := n\<rparr>) = registry_inv P bb"
  "registry_inv P (bb\<lparr>txRxIdleDuration := n\<rparr>) = registry_inv P bb"
  by (simp_all add: registry_inv_def)

text \<open>Any set of routes will do whose names are registered.\<close>

lemma registry_inv_routes:
  "registry_inv P bb \<Longrightarrow> dom rs \<subseteq> dom (inverseIdentMap bb) \<Longrightarrow> registry_inv P (bb\<lparr>routes := rs\<rparr>)"
  by (simp add: registry_inv_def)

lemma registry_inv_routesD: "registry_inv P bb \<Longrightarrow> dom (routes bb) \<subseteq> dom (inverseIdentMap bb)"
  by (simp add: registry_inv_def)

lemma registry_inv_initialize: "registry_inv P (initialize s bb)"
  by (simp add: registry_inv_def initialize_def)

lemma registry_inv_addSingleIdentity:
  "registry_inv P bb \<Longrightarrow> registry_inv P (addSingleIdentity P mo bb)"
  unfolding registry_inv_def addSingleIdentity_def Let_def ident_of_def
  by (auto split: if_splits)

lemma inverseIdentMap_addSingleIdentity:
  "inverseIdentMap (addSingleIdentity P mo bb) =
     (inverseIdentMap bb)(getProtobufMessageName P mo \<mapsto> ident_of (getProtobufMessageName P mo))"
  by (simp add: addSingleIdentity_def Let_def ident_of_def)

lemma addSingleIdentity_fields [simp]:
  "routes (addSingleIdentity P mo bb) = routes bb"
  "secure (addSingleIdentity P mo bb) = secure bb"
  "ns (addSingleIdentity P mo bb) = ns bb"
  by (simp_all add: addSingleIdentity_def Let_def)

lemma registry_inv_AddMessageIdentities:
  "registry_inv P bb \<Longrightarrow> registry_inv P (AddMessageIdentities P ms bb)"
  by (induction ms arbitrary: bb)
    (auto simp: AddMessageIdentities_def registry_inv_addSingleIdentity)

lemma AddMessageIdentities_fields [simp]:
  "routes (AddMessageIdentities P ms bb) = routes bb"
  "secure (AddMessageIdentities P ms bb) = secure bb"
  "ns (AddMessageIdentities P ms bb) = ns bb"
  by (induction ms arbitrary: bb) (auto simp: AddMessageIdentities_def)

lemma registry_inv_Secure: "registry_inv P bb \<Longrightarrow> registry_inv P (Secure P bb)"
proof -
  assume "registry_inv P bb"
  then have add: "registry_inv P (AddMessageIdentities P ms (bb\<lparr>secure := True\<rparr>))" for ms
    by (intro registry_inv_AddMessageIdentities) simp
  define b2 where "b2 = AddMessageIdentities P
    [Clone P (Some (NewPublicKey P)), Clone P (Some (NewEncryptedMessage P))] (bb\<lparr>secure := True\<rparr>)"
  have b2: "registry_inv P b2" unfolding b2_def by (rule add)
  have "registry_inv P (b2\<lparr>routes := (routes b2)(t := None)\<rparr>)" for t
    using registry_inv_routesD [OF b2] by (intro registry_inv_routes b2) auto
  with b2 show ?thesis unfolding Secure_def Let_def b2_def [symmetric] by simp
qed

lemma registry_inv_Route:
  assumes "registry_inv P bb" and "Route P mo r bb = Ret bb'"
  shows "registry_inv P bb'"
proof (cases "secure bb \<and> mo = None")
  case True
  with assms show ?thesis by (simp add: Route_def)
next
  case False
  let ?bb = "addSingleIdentity P mo bb"
  from False assms(2) obtain e where
    bb': "bb' = ?bb\<lparr>routes := (routes bb)(getProtobufMessageName P mo \<mapsto> e)\<rparr>"
    by (auto simp: Route_def addRoute_def Let_def split: if_splits option.splits)
  have "registry_inv P ?bb" by (rule registry_inv_addSingleIdentity) (rule assms(1))
  moreover have "dom (routes bb) \<subseteq> dom (inverseIdentMap ?bb)"
    using registry_inv_routesD [OF assms(1)] by (auto simp: inverseIdentMap_addSingleIdentity)
  ultimately show ?thesis
    unfolding bb' by (intro registry_inv_routes) (auto simp: inverseIdentMap_addSingleIdentity)
qed

lemma registry_inv_apply_base_option:
  assumes "registry_inv P bb" and "apply_base_option P opt bb = Ret bb'"
  shows "registry_inv P bb'"
proof (cases opt)
  case (OptRoute m r)
  with assms show ?thesis by (auto intro: registry_inv_Route)
qed (use assms in \<open>auto simp: option_defs registry_inv_addSingleIdentity
       registry_inv_AddMessageIdentities registry_inv_Secure\<close>)

lemma registry_inv_build:
  "registry_inv P bb \<Longrightarrow> build P opts bb = Ret bb' \<Longrightarrow> registry_inv P bb'"
  by (induction opts arbitrary: bb)
    (auto simp: go_bind_Ret_iff dest: registry_inv_apply_base_option)

section \<open>Lookup through both maps\<close>

definition collision_free :: "('m, 'r) baseBuilder \<Rightarrow> bool" where
  "collision_free bb \<longleftrightarrow> inj_on hashString (dom (inverseIdentMap bb))"

lemma ident_of_inject_on:
  "collision_free bb \<Longrightarrow> s \<in> dom (inverseIdentMap bb) \<Longrightarrow> t \<in> dom (inverseIdentMap bb) \<Longrightarrow>
     ident_of s = ident_of t \<Longrightarrow> s = t"
  unfolding collision_free_def ident_of_def by (metis inj_onD unsigned_word_eqI)

text \<open>
  The contract of a message registry: registering a message makes its name known; a known
  name has a 32-bit identifier; and while the state is good (\<open>sound\<close>) the identifier of a
  name leads to a message of that name.
\<close>

locale message_registry =
  fixes register :: "'m option \<Rightarrow> 's \<Rightarrow> 's"
    and ident :: "'s \<Rightarrow> int \<rightharpoonup> 'm option"
    and inverse :: "'s \<Rightarrow> string \<rightharpoonup> int"
    and name :: "'m option \<Rightarrow> string"
    and sound :: "'s \<Rightarrow> bool"
  assumes registered: "inverse (register mo s) (name mo) \<noteq> None"
    and kept: "inverse s t \<noteq> None \<Longrightarrow> inverse (register mo s) t \<noteq> None"
    and ident_range: "sound s \<Longrightarrow> inverse s t = Some i \<Longrightarrow> u32_range i"
    and inverse_ident: "sound s \<Longrightarrow> inverse s t = Some i \<Longrightarrow> \<exists>mo. ident s i = Some mo \<and> name mo = t"
begin

lemma ident_inject: "sound s \<Longrightarrow> inverse s t = Some i \<Longrightarrow> inverse s t' = Some i \<Longrightarrow> t = t'"
  by (metis inverse_ident option.inject)

lemma foldl_registered:
  "mo \<in> set ms \<Longrightarrow> inverse (foldl (\<lambda>s m. register m s) s ms) (name mo) \<noteq> None"
proof (induction ms arbitrary: s)
  case (Cons m ms)
  have "inverse s t \<noteq> None \<Longrightarrow> inverse (foldl (\<lambda>s m. register m s) s ms) t \<noteq> None" for s t
    by (induction ms arbitrary: s) (simp_all del: not_None_eq add: kept)
  with Cons registered show ?case by auto
qed simp

end

definition registry_sound :: "'m proto_api \<Rightarrow> ('m, 'r) baseBuilder \<Rightarrow> bool" where
  "registry_sound P bb \<longleftrightarrow> registry_inv P bb \<and> collision_free bb"

interpretation registry: message_registry "addSingleIdentity P" messageIdentMap inverseIdentMap
    "getProtobufMessageName P" "registry_sound P"
  for P :: "'m proto_api"
proof
  fix s :: "('m, 'b) baseBuilder" and t i
  assume ok: "registry_sound P s" and t: "inverseIdentMap s t = Some i"
  then have i: "i = ident_of t" "messageIdentMap s i \<noteq> None"
    by (auto simp: registry_sound_def registry_inv_def)
  then show "u32_range i" by (simp add: ident_of_def hashString_range)
  from i obtain mo where mo: "messageIdentMap s i = Some mo" by blast
  with ok have "i = ident_of (getProtobufMessageName P mo)"
    "getProtobufMessageName P mo \<in> dom (inverseIdentMap s)"
    by (auto simp: registry_sound_def registry_inv_def)
  with i t ok have "getProtobufMessageName P mo = t"
    by (auto simp: registry_sound_def intro: ident_of_inject_on)
  with mo show "\<exists>mo. messageIdentMap s i = Some mo \<and> getProtobufMessageName P mo = t"
    by blast
qed (auto simp: inverseIdentMap_addSingleIdentity)

section \<open>Default routes and security\<close>

definition secure_inv :: "('m, 'r) baseBuilder \<Rightarrow> bool" where
  "secure_inv bb \<longleftrightarrow> (secure bb \<longrightarrow> routes bb DefaultRoute = None)"

lemma secure_inv_Route:
  assumes "proto_laws P" and "secure_inv bb" and "Route P mo r bb = Ret bb'"
  shows "secure_inv bb'"
proof -
  have "getProtobufMessageName P mo \<noteq> ''''" if "mo \<noteq> None"
    using getProtobufMessageName_empty_iff [OF assms(1)] that by simp
  with assms(2,3) show ?thesis
    by (auto simp: secure_inv_def Route_def addRoute_def Let_def DefaultRoute_def
        simp del: getProtobufMessageName_simps split: if_splits option.splits)
qed

lemma secure_inv_apply_base_option:
  assumes "proto_laws P" and "secure_inv bb" and "apply_base_option P opt bb = Ret bb'"
  shows "secure_inv bb'"
proof (cases opt)
  case (OptRoute m r)
  with assms show ?thesis by (auto intro: secure_inv_Route)
qed (use assms in \<open>auto simp: secure_inv_def option_defs Secure_def Let_def DefaultRoute_def\<close>)

lemma secure_inv_build:
  "proto_laws P \<Longrightarrow> secure_inv bb \<Longrightarrow> build P opts bb = Ret bb' \<Longrightarrow> secure_inv bb'"
  by (induction opts arbitrary: bb)
    (auto simp: go_bind_Ret_iff dest: secure_inv_apply_base_option)

lemma secure_inv_NewNanoBuilder: "secure_inv (NewNanoBuilder s)"
  by (simp add: secure_inv_def NewNanoBuilder_def initialize_def zero_baseBuilder_def)

section \<open>Every builder the API can produce\<close>

text \<open>
  The unexported option type \<open>nanoBuilderOption\<close> has no values outside the package, and the
  package makes none: an argument list of a caller has no \<open>NanoArg\<close>.
\<close>

fun callers_arg :: "('m, 'r) build_arg \<Rightarrow> bool" where
  "callers_arg (NanoArg f) = False"
| "callers_arg _ = True"

lemma nano_buildOpts_keeps:
  assumes opt: "\<And>opt bb bb'. apply_base_option P opt bb = Ret bb' \<Longrightarrow> I bb \<Longrightarrow> I bb'"
  shows "list_all callers_arg args \<Longrightarrow> nano_buildOpts P args bb = Ret bb' \<Longrightarrow> I bb \<Longrightarrow> I bb'"
proof (induction args arbitrary: bb)
  case (Cons a args)
  then show ?case by (cases a) (auto simp: go_bind_Ret_iff dest: opt)
qed simp

lemma registry_inv_NewNanoBuilder: "registry_inv P (NewNanoBuilder s)"
  unfolding NewNanoBuilder_def by (rule registry_inv_initialize)

text \<open>
  C24. Whatever options a caller of \<open>BuildNanoClient\<close>, \<open>BuildNanoServer\<close> or \<open>BuildNanoDNS\<close>
  passes, in whatever order, the two identity maps of the resulting builder agree: an
  identifier is the hash of the name of the message it leads to, a name's identifier is its
  hash and leads to some message, every routed type is registered; and a secure builder has
  no default route.
\<close>

theorem built_maps_agree:
  assumes "proto_laws P" and "list_all callers_arg args"
    and "nano_buildOpts P args (NewNanoBuilder s) = Ret bb"
  shows "(messageIdentMap bb i = Some mo \<longrightarrow>
            i = uint (hashString (getProtobufMessageName P mo)) \<and>
            inverseIdentMap bb (getProtobufMessageName P mo) = Some i) \<and>
         (inverseIdentMap bb t = Some k \<longrightarrow>
            k = uint (hashString t) \<and> (\<exists>mo'. messageIdentMap bb k = Some mo')) \<and>
         (routes bb t \<noteq> None \<longrightarrow> inverseIdentMap bb t \<noteq> None) \<and>
         (secure bb \<longrightarrow> routes bb DefaultRoute = None)"
proof -
  have "registry_inv P bb"
    by (rule nano_buildOpts_keeps [where I = "registry_inv P", OF _ assms(2,3) registry_inv_NewNanoBuilder])
      (rule registry_inv_apply_base_option)
  moreover have "secure_inv bb"
    by (rule nano_buildOpts_keeps [where I = secure_inv, OF _ assms(2,3) secure_inv_NewNanoBuilder])
      (rule secure_inv_apply_base_option [OF assms(1)])
  ultimately show ?thesis
    unfolding registry_inv_def secure_inv_def ident_of_def by fastforce
qed

theorem built_maps_agree_witness:
  "\<exists>bb. nano_buildOpts raw_api
      [BaseArg (OptRoute None (Some ())), BaseArg (OptAddMessageIdentity (Some (RawMessage CHR ''a'' '''' []))),
       FuncArg OptSecure, OtherArg, BaseArg (OptRoute None (Some ()))] (NewNanoBuilder Service_zero) = Ret bb
    \<and> inverseIdentMap bb ''a'' = Some (uint (hashString ''a'')) \<and> secure bb
    \<and> routes bb DefaultRoute = None"
proof -
  let ?args = "[BaseArg (OptRoute None (Some ())), BaseArg (OptAddMessageIdentity (Some (RawMessage CHR ''a'' '''' []))),
       FuncArg OptSecure, OtherArg, BaseArg (OptRoute None (Some ()))]"
  obtain bb where bb: "nano_buildOpts raw_api ?args (NewNanoBuilder Service_zero) = Ret bb"
      and reg: "inverseIdentMap bb ''a'' \<noteq> None" and sec: "secure bb"
    by (simp add: Route_def addRoute_def Secure_def Let_def AddMessageIdentities_def option_defs
        inverseIdentMap_addSingleIdentity NewNanoBuilder_def initialize_def zero_baseBuilder_def)
  from built_maps_agree [OF raw_api_laws _ bb, of _ None "''a''"] reg sec
  have "routes bb DefaultRoute = None" by simp
  moreover from built_maps_agree [OF raw_api_laws _ bb, of _ None "''a''"] reg
  have "inverseIdentMap bb ''a'' = Some (uint (hashString ''a''))" by auto
  ultimately show ?thesis using bb sec by blast
qed

text \<open>
  The websocket builder does not keep that rule: \<open>SecureWs\<close> sets the same \<open>secure\<close> flag
  and leaves a default route in place.
\<close>

lemma SecureWs_keeps_default_route:
  "case ws_buildOpts parse P [BaseArg (OptRoute None (Some r)), WsArg (OptSecureWs c)]
          (NewWebsocketBuilder s) of
     Ret wsb \<Rightarrow> secure (base wsb) \<and> tls wsb = Some c \<and> routes (base wsb) DefaultRoute = Some r
   | Panic p \<Rightarrow> False"
  by (simp add: Route_def addRoute_def SecureWs_def NewWebsocketBuilder_def initialize_def
      zero_baseBuilder_def DefaultRoute_def)

end
