(* ===== verification/Nan0_Frame.thy ===== *)
theory Nan0_Frame
  imports Nan0_Encryption Nan0_Registry
begin

text \<open>
  Framed messages on a byte stream: \<open>putMessageInConnection\<close> and
  \<open>getMessageFromConnection\<close> of \<^verbatim>\<open>nan0Util.go\<close>, with \<open>isPreambleValid\<close> and
  \<open>readSize\<close>. The functions take the reader or writer as an argument, as the Go code takes
  an \<open>io.Reader\<close> or an \<open>io.Writer\<close>; \<open>w\<close> is the package variable \<open>SizeArrayWidth\<close>.

  A frame is the preamble, the type identifier, (for an encrypted message) the size of the
  signature, the size of the body, and the body. The named results of the Go functions are
  the pair of a message and an error.
\<close>

section \<open>Reading the fields\<close>

text \<open>
  \<open>readSize\<close> recovers from its own panics and has an unnamed result, so a failed read is the
  size 0. It ignores how many bytes were read: the rest of the field stays zero.
\<close>

definition readSize :: "'r reader \<Rightarrow> nat \<Rightarrow> 'r \<Rightarrow> int \<times> 'r" where
  "readSize read w =
     act_deferred (recoverPanic (Some (\<lambda>e r. r))) 0
       (\<lambda>r. case read w r of ((bs, err), r') \<Rightarrow>
          (go_bind (checkError err) (\<lambda>_. SizeReader (bs @ replicate (w - length bs) 0)), r'))"

fun preamble_matches :: "bytes \<Rightarrow> bytes \<Rightarrow> bool" where
  "preamble_matches [] p = True"
| "preamble_matches (v # b) [] = True"
| "preamble_matches (v # b) (q # p) = (v = q \<and> preamble_matches b p)"

definition preamble_error :: go_error where
  "preamble_error = ErrText ''preamble invalid''"

definition isPreambleValid :: "'r reader \<Rightarrow> 'r \<Rightarrow> go_error option \<times> 'r" where
  "isPreambleValid read =
     act_deferred (recoverPanic (Some (\<lambda>e r. Some e))) None
       (\<lambda>r. case read (length ProtoPreamble) r of ((bs, err), r') \<Rightarrow>
          (if err = Some EOF then Ret (Some EOF)
           else go_bind (checkError err) (\<lambda>_.
             let b = bs @ replicate (length ProtoPreamble - length bs) 0
             in if preamble_matches b ProtoPreamble then Ret None else Ret (Some preamble_error)),
           r'))"

section \<open>Receiving\<close>

definition size_error :: go_error where
  "size_error = ErrText ''message size discrepancy while sending''"

definition ident_error :: "int \<Rightarrow> go_error" where
  "ident_error i = ErrText (''message ident '' @ fmt_d i @ '' not found'')"

text \<open>A Go map lookup of an absent key gives the nil message.\<close>

definition ident_lookup :: "(int \<rightharpoonup> 'm option) \<Rightarrow> int \<Rightarrow> 'm option" where
  "ident_lookup identMap i = (case identMap i of None \<Rightarrow> None | Some mo \<Rightarrow> mo)"

definition act_of :: "('s \<Rightarrow> 'a \<times> 's) \<Rightarrow> ('s, 'a) act" where
  "act_of f s = (case f s of (x, s') \<Rightarrow> (Ret x, s'))"

definition read_body :: "'r reader \<Rightarrow> int \<Rightarrow> ('r, bytes) act" where
  "read_body read msgSize r =
     (case read (nat msgSize) r of ((v, err), r') \<Rightarrow>
        (go_bind (checkError err) (\<lambda>_.
           if int (length v) \<noteq> msgSize then Panic (PanicErr size_error) else Ret v), r'))"

definition decode_body ::
    "'m proto_api \<Rightarrow> bytes \<Rightarrow> 'm option \<Rightarrow> int \<Rightarrow> bytes option \<Rightarrow> bytes option \<Rightarrow> 'm option go" where
  "decode_body P v msg hmacSize decryptKey hmacKey =
     (case (decryptKey, hmacKey) of
        (Some dk, Some hk) \<Rightarrow> checked (DecryptProtobuf P v msg hmacSize dk hk)
      | _ \<Rightarrow> go_bind (Unmarshal P v msg) checked)"

definition getMessage_body ::
    "'r reader \<Rightarrow> 'm proto_api \<Rightarrow> nat \<Rightarrow> (int \<rightharpoonup> 'm option) \<Rightarrow> bytes option \<Rightarrow> bytes option \<Rightarrow>
     ('r, 'm option \<times> go_error option) act" where
  "getMessage_body read P w identMap decryptKey hmacKey =
     (let encrypted = (decryptKey \<noteq> None \<and> hmacKey \<noteq> None) in
      act_bind (act_of (isPreambleValid read)) (\<lambda>err.
      if err = Some EOF then act_ret (None, None)
      else
        act_bind (act_lift (checkError err)) (\<lambda>_.
        act_bind (act_of (readSize read w)) (\<lambda>messageType.
        let msg = Clone P (ident_lookup identMap messageType) in
        if msg = None then act_lift (Panic (PanicErr (ident_error messageType)))
        else
          act_bind (if encrypted then act_of (readSize read w) else act_ret 0) (\<lambda>hmacSize.
          act_bind (act_of (readSize read w)) (\<lambda>msgSize.
          act_bind (read_body read msgSize) (\<lambda>v.
          act_bind (act_lift (decode_body P v msg hmacSize decryptKey hmacKey)) (\<lambda>m.
          act_ret (m, None)))))))))"

definition getMessageFromConnection ::
    "'r reader \<Rightarrow> 'm proto_api \<Rightarrow> nat \<Rightarrow> (int \<rightharpoonup> 'm option) \<Rightarrow> bytes option \<Rightarrow> bytes option \<Rightarrow>
     'r \<Rightarrow> ('m option \<times> go_error option) \<times> 'r" where
  "getMessageFromConnection read P w identMap decryptKey hmacKey =
     act_deferred (recoverPanic (Some (\<lambda>e r. (None, Some e)))) (None, None)
       (getMessage_body read P w identMap decryptKey hmacKey)"

section \<open>Sending\<close>

text \<open>The state of a send: the random tape, and the bytes that have reached the wire.\<close>

type_synonym send_state = "bytes \<times> bytes"

definition ident_absent_error :: go_error where
  "ident_absent_error = ErrText ''type value for message not present''"

definition plain_frame :: "'m proto_api \<Rightarrow> nat \<Rightarrow> 'm option \<Rightarrow> int \<Rightarrow> bytes go" where
  "plain_frame P w pb typeVal =
     go_bind (checked (Marshal P pb)) (\<lambda>v.
     let protoSize = int (length v) in
     go_bind (SizeWriter w typeVal) (\<lambda>tb.
     go_bind (SizeWriter w protoSize) (\<lambda>sb.
     Ret (ProtoPreamble @ tb @ sb @ v))))"

definition write_frame :: "writer \<Rightarrow> bytes \<Rightarrow> (send_state, go_error option) act" where
  "write_frame wr bigBytes st =
     (case st of (tape, wire) \<Rightarrow>
        let (n, err) = wr bigBytes
        in (go_bind (checkError err) (\<lambda>_.
              Ret (if length bigBytes \<noteq> n then Some size_error else None)),
            (tape, wire @ take n bigBytes)))"

definition putMessage_body ::
    "writer \<Rightarrow> 'm proto_api \<Rightarrow> nat \<Rightarrow> 'm option \<Rightarrow> (string \<rightharpoonup> int) \<Rightarrow> bytes option \<Rightarrow> bytes option \<Rightarrow>
     (send_state, go_error option) act" where
  "putMessage_body wr P w pb inverseMap encryptKey hmacKey =
     (case inverseMap (getProtobufMessageName P pb) of
        None \<Rightarrow> act_lift (Panic (PanicErr ident_absent_error))
      | Some typeVal \<Rightarrow>
          (case (encryptKey, hmacKey) of
             (Some ek, Some hk) \<Rightarrow>
               (\<lambda>(tape, wire).
                  case EncryptProtobuf P w pb typeVal ek hk tape of (bigBytes, tape') \<Rightarrow>
                    write_frame wr bigBytes (tape', wire))
           | _ \<Rightarrow> act_bind (act_lift (plain_frame P w pb typeVal)) (write_frame wr)))"

definition putMessageInConnection ::
    "writer \<Rightarrow> 'm proto_api \<Rightarrow> nat \<Rightarrow> 'm option \<Rightarrow> (string \<rightharpoonup> int) \<Rightarrow> bytes option \<Rightarrow> bytes option \<Rightarrow>
     send_state \<Rightarrow> go_error option \<times> send_state" where
  "putMessageInConnection wr P w pb inverseMap encryptKey hmacKey =
     act_deferred (recoverPanic (Some (\<lambda>e r. Some e))) None
       (putMessage_body wr P w pb inverseMap encryptKey hmacKey)"

end
