(* ===== verification/Nan0_Frame_Props.thy ===== *)
theory Nan0_Frame_Props
  imports Nan0_Frame
begin

text \<open>
  Framed messages: what is sent is received. The receiving functions are generic in their
  reader, so their facts are proved for interfaces: \<open>io_reader\<close> (any reader) gives what a
  received message says about the bytes consumed, \<open>serving_reader\<close> (a reader with the next
  bytes at hand) gives what is received. Both are interpreted for the buffered reader that
  the code uses and for a bare connection.
\<close>

section \<open>Field by field\<close>

lemma preamble_matches_iff: "length b = length p \<Longrightarrow> preamble_matches b p \<longleftrightarrow> b = p"
  by (induction b p rule: list_induct2) auto

lemma SizeReader_zeros: "4 \<le> w \<Longrightarrow> SizeReader (replicate w 0) = Ret 0"
  by (auto simp: SizeReader_def numeral_eq_Suc dest!: le_Suc_ex)

lemma readSize_read:
  "read w r = ((bs, None), r') \<Longrightarrow> SizeReader (bs @ replicate (w - length bs) 0) = Ret n \<Longrightarrow>
     readSize read w r = (n, r')"
  by (simp add: readSize_def act_deferred_def)

lemma readSize_failed: "read w r = ((bs, Some e), r') \<Longrightarrow> readSize read w r = (0, r')"
  by (simp add: readSize_def act_deferred_def)

lemma isPreambleValid_read:
  "read 7 r = ((ProtoPreamble, None), r') \<Longrightarrow> isPreambleValid read r = (None, r')"
  by (simp add: isPreambleValid_def act_deferred_def preamble_matches_iff)

text \<open>The two ways a receive runs to its end, as one evaluation rule.\<close>

lemma getMessage_eval:
  assumes "isPreambleValid read r = (None, r1)" and "readSize read w r1 = (i, r2)"
    and "Clone P (ident_lookup identMap i) = Some t"
    and "if dk \<noteq> None \<and> hk \<noteq> None then readSize read w r2 = (hs, r3) else r3 = r2 \<and> hs = 0"
    and "readSize read w r3 = (n, r4)"
    and "read (nat n) r4 = ((v, err), r5)"
  shows "getMessageFromConnection read P w identMap dk hk r =
    (deferred (recoverPanic (Some (\<lambda>e r. (None, Some e)))) (None, None)
       (go_bind (checkError err) (\<lambda>_.
        if int (length v) \<noteq> n then Panic (PanicErr size_error)
        else go_bind (decode_body P v (Some t) hs dk hk) (\<lambda>m. Ret (m, None)))), r5)"
proof -
  have b: "read_body read n r4 = (go_bind (checkError err) (\<lambda>_.
      if int (length v) \<noteq> n then Panic (PanicErr size_error) else Ret v), r5)"
    by (simp add: read_body_def assms(6))
  show ?thesis
    using assms(1-5)
    by (cases err; cases "decode_body P v (Some t) hs dk hk")
      (auto simp: getMessageFromConnection_def getMessage_body_def act_deferred_def act_bind_def
        act_of_def act_ret_def act_lift_def b split: if_splits)
qed

text \<open>The reads of a receive that returned a message.\<close>

lemma getMessage_reads:
  assumes "getMessageFromConnection read P w identMap dk hk r = ((Some m, e), r')"
  obtains r1 i r2 t hs r3 n r4 v where "e = None" and "isPreambleValid read r = (None, r1)"
    and "readSize read w r1 = (i, r2)" and "Clone P (ident_lookup identMap i) = Some t"
    and "if dk \<noteq> None \<and> hk \<noteq> None then readSize read w r2 = (hs, r3) else r3 = r2 \<and> hs = 0"
    and "readSize read w r3 = (n, r4)" and "read_body read n r4 = (Ret v, r')"
    and "decode_body P v (Some t) hs dk hk = Ret (Some m)"
proof -
  have d: "deferred (recoverPanic (Some (\<lambda>e r. (None, Some e)))) (None, None) g = (Some m, e) \<Longrightarrow>
      g = Ret (Some m, e)" for g :: "('a option \<times> go_error option) go" and m e
    by (cases g) (auto simp: recoverPanic_def split: panic_value.splits)
  from assms(1) have "getMessage_body read P w identMap dk hk r = (Ret (Some m, e), r')"
    by (auto simp: getMessageFromConnection_def act_deferred_def dest!: d split: prod.splits)
  then obtain r1 i r2 t hs r3 n r4 v where "e = None" "isPreambleValid read r = (None, r1)"
      "readSize read w r1 = (i, r2)" "Clone P (ident_lookup identMap i) = Some t"
      "if dk \<noteq> None \<and> hk \<noteq> None then readSize read w r2 = (hs, r3) else r3 = r2 \<and> hs = 0"
      "readSize read w r3 = (n, r4)" "read_body read n r4 = (Ret v, r')"
      "decode_body P v (Some t) hs dk hk = Ret (Some m)"
    by (auto simp: getMessage_body_def Let_def act_of_def act_ret_def act_lift_def checkError_def
        elim!: act_bind_RetE split: if_splits prod.splits option.splits)
  then show thesis by (rule that)
qed

section \<open>Any reader: what a received message says about the stream\<close>

text \<open>
  A size field as \<open>readSize\<close> understands it: the bytes that came, which may be fewer than \<open>w\<close> (a
  segment that ends in the field) or none (a failed read), filled with zeros.
\<close>

definition size_field_value :: "nat \<Rightarrow> bytes \<Rightarrow> int \<Rightarrow> bool" where
  "size_field_value w bs n \<longleftrightarrow>
     length bs \<le> w \<and> SizeReader (bs @ replicate (w - length bs) 0) = Ret n"

context io_reader
begin

lemma readSize_pending:
  assumes "readSize read w r = (n, r')" and "4 \<le> w"
  shows "\<exists>bs. pending r = bs @ pending r' \<and> size_field_value w bs n"
proof -
  obtain bs err r1 where rd: "read w r = ((bs, err), r1)" by (metis prod.exhaust_sel)
  note p = read_pending [OF rd] read_bound [OF rd]
  show ?thesis
  proof (cases err)
    case None
    obtain k where k: "SizeReader (bs @ replicate (w - length bs) 0) = Ret k"
      using SizeReader_total [of "bs @ replicate (w - length bs) 0"] p(2) assms(2) by auto
    from readSize_read [of read, OF rd [unfolded None] k] assms(1) p k show ?thesis
      by (auto simp: size_field_value_def)
  next
    case (Some e)
    with rd have "bs = []" by (blast dest: read_error)
    with readSize_failed [of read, OF rd [unfolded Some]] assms p show ?thesis
      by (auto simp: size_field_value_def SizeReader_zeros)
  qed
qed

lemma isPreambleValid_pending:
  assumes "isPreambleValid read r = (None, r')"
  shows "pending r = ProtoPreamble @ pending r'"
proof -
  obtain bs err r1 where rd: "read 7 r = ((bs, err), r1)" by (metis prod.exhaust_sel)
  note p = read_pending [OF rd] read_bound [OF rd]
  let ?b = "bs @ replicate (7 - length bs) 0"
  from assms rd have r': "r' = r1" and m: "preamble_matches ?b ProtoPreamble"
    by (cases err; auto simp: isPreambleValid_def act_deferred_def Let_def split: if_splits)+
  from m p(2) have b: "?b = ProtoPreamble" by (subst (asm) preamble_matches_iff) auto
  with zero_notin_ProtoPreamble have "7 - length bs = 0"
    by (metis Un_iff in_set_replicate set_append)
  with b p(1) r' show ?thesis by simp
qed

lemma read_body_Ret:
  assumes "read_body read n r = (Ret v, r')"
  shows "pending r = v @ pending r' \<and> int (length v) = n"
  using assms
  by (auto simp: read_body_def go_bind_Ret_iff split: prod.splits if_splits dest: read_pending)

text \<open>
  A message is returned only for a frame at the front of the stream: the preamble, the type
  field, the signature size if there are keys, the size field, and a body of that size.
\<close>

lemma getMessage_frame:
  assumes "getMessageFromConnection read P w identMap dk hk r = ((Some m, e), r')" and "4 \<le> w"
  shows "e = None \<and> (\<exists>tb hb sb v i hs t.
      pending r = ProtoPreamble @ tb @ hb @ sb @ v @ pending r'
    \<and> size_field_value w tb i \<and> Clone P (ident_lookup identMap i) = Some t
    \<and> (if dk \<noteq> None \<and> hk \<noteq> None then size_field_value w hb hs else hb = [] \<and> hs = 0)
    \<and> size_field_value w sb (int (length v))
    \<and> decode_body P v (Some t) hs dk hk = Ret (Some m))"
proof -
  from assms(1) obtain r1 i r2 t hs r3 n r4 v where
      r1: "isPreambleValid read r = (None, r1)" and r2: "readSize read w r1 = (i, r2)"
    and t: "Clone P (ident_lookup identMap i) = Some t"
    and r3: "if dk \<noteq> None \<and> hk \<noteq> None then readSize read w r2 = (hs, r3) else r3 = r2 \<and> hs = 0"
    and r4: "readSize read w r3 = (n, r4)" and v: "read_body read n r4 = (Ret v, r')"
    and m: "decode_body P v (Some t) hs dk hk = Ret (Some m)" and e: "e = None"
    by (rule getMessage_reads)
  obtain tb where tb: "pending r1 = tb @ pending r2" "size_field_value w tb i"
    using readSize_pending [OF r2 assms(2)] by blast
  obtain hb where hb: "pending r2 = hb @ pending r3"
      "if dk \<noteq> None \<and> hk \<noteq> None then size_field_value w hb hs else hb = [] \<and> hs = 0"
    using r3 readSize_pending [OF _ assms(2), of r2 hs r3] by (auto split: if_splits)
  obtain sb where sb: "pending r3 = sb @ pending r4" "size_field_value w sb n"
    using readSize_pending [OF r4 assms(2)] by blast
  have "pending r = ProtoPreamble @ tb @ hb @ sb @ v @ pending r'"
    using isPreambleValid_pending [OF r1] tb hb sb read_body_Ret [OF v] by simp
  with tb(2) hb(2) sb(2) read_body_Ret [OF v] e t m show ?thesis by blast
qed

end


section \<open>A reader with the next bytes at hand\<close>

text \<open>\<open>holds r bs\<close>: the next reads of \<open>r\<close> are served, in full, from \<open>bs\<close>.\<close>

locale serving_reader =
  fixes read :: "'r reader"
    and holds :: "'r \<Rightarrow> bytes \<Rightarrow> bool"
  assumes serve:
    "holds r (bs @ rest) \<Longrightarrow> \<exists>r'. read (length bs) r = ((bs, None), r') \<and> holds r' rest"
begin

lemma serve_preamble:
  "holds r (ProtoPreamble @ rest) \<Longrightarrow> \<exists>r'. isPreambleValid read r = (None, r') \<and> holds r' rest"
  by (drule serve) (auto intro: isPreambleValid_read)

lemma serve_size:
  assumes "holds r (fb @ rest)" and "length fb = w" and "SizeReader fb = Ret n"
  shows "\<exists>r'. readSize read w r = (n, r') \<and> holds r' rest"
  using serve [OF assms(1)] assms(2,3) readSize_read [of read w r fb] by fastforce

lemma getMessage_serving:
  assumes r: "holds r (ProtoPreamble @ tb @ hb @ sb @ v @ rest)"
    and tb: "length tb = w" "SizeReader tb = Ret i"
    and t: "Clone P (ident_lookup identMap i) = Some t"
    and hb: "if dk \<noteq> None \<and> hk \<noteq> None then length hb = w \<and> SizeReader hb = Ret hs else hb = [] \<and> hs = 0"
    and sb: "length sb = w" "SizeReader sb = Ret (int (length v))"
    and m: "decode_body P v (Some t) hs dk hk = Ret m"
  shows "\<exists>r'. getMessageFromConnection read P w identMap dk hk r = ((m, None), r') \<and> holds r' rest"
proof -
  obtain r1 where r1: "isPreambleValid read r = (None, r1)" "holds r1 (tb @ hb @ sb @ v @ rest)"
    using serve_preamble [OF r] by blast
  obtain r2 where r2: "readSize read w r1 = (i, r2)" "holds r2 (hb @ sb @ v @ rest)"
    using serve_size [OF r1(2) tb] by blast
  obtain r3 where r3: "if dk \<noteq> None \<and> hk \<noteq> None then readSize read w r2 = (hs, r3) else r3 = r2 \<and> hs = 0"
      "holds r3 (sb @ v @ rest)"
    using serve_size [OF r2(2), of w hs] hb r2(2) by (auto split: if_splits)
  obtain r4 where r4: "readSize read w r3 = (int (length v), r4)" "holds r4 (v @ rest)"
    using serve_size [OF r3(2) sb] by blast
  obtain r5 where r5: "read (length v) r4 = ((v, None), r5)" "holds r5 rest"
    using serve [OF r4(2)] by blast
  have "getMessageFromConnection read P w identMap dk hk r = ((m, None), r5)"
    by (subst getMessage_eval [OF r1(1) r2(1) t r3(1) r4(1), of v None r5])
      (use r5 m in simp_all)
  with r5(2) show ?thesis by blast
qed

end

definition bufio_holds :: "netin \<Rightarrow> bufreader \<Rightarrow> bytes \<Rightarrow> bool" where
  "bufio_holds c b bs \<longleftrightarrow> buffered b = bs \<and> bufErr b = None \<and> rd b = c"

definition conn_holds :: "bytes list \<Rightarrow> netin \<Rightarrow> bytes \<Rightarrow> bool" where
  "conn_holds ss c bs \<longleftrightarrow> segments c = (if bs = [] then ss else bs # ss)"

interpretation bufio: serving_reader bufio_Read "bufio_holds c" for c
proof
  fix r bs rest assume "bufio_holds c r (bs @ rest)"
  then show "\<exists>r'. bufio_Read (length bs) r = ((bs, None), r') \<and> bufio_holds c r' rest"
    by (subst bufio_Read_full [of r bs rest]) (auto simp: bufio_holds_def)
qed

interpretation tcp: serving_reader conn_Read "conn_holds ss" for ss
proof
  fix r bs rest assume h: "conn_holds ss r (bs @ rest)"
  show "\<exists>r'. conn_Read (length bs) r = ((bs, None), r') \<and> conn_holds ss r' rest"
  proof (cases "bs = []")
    case True
    with h show ?thesis by (simp add: conn_Read_def)
  next
    case False
    with h show ?thesis
      by (simp add: conn_holds_def conn_Read_def next_segment_first)
  qed
qed

section \<open>The buffered reader\<close>

text \<open>
  A receive starts by reading the preamble, so on a fresh buffered reader it starts by loading
  the first segment, or 4096 bytes of it.
\<close>

definition loaded :: "bytes \<Rightarrow> bytes list \<Rightarrow> go_error \<Rightarrow> bufreader" where
  "loaded s ss e =
     \<lparr>buffered = take 4096 s, bufSize = 4096, bufErr = None,
      rd = \<lparr>segments = if length s \<le> 4096 then ss else drop 4096 s # ss, fin = e\<rparr>\<rparr>"

lemma bufio_Read_loaded:
  assumes "0 < n" and "n < 4096" and "s \<noteq> []"
  shows "bufio_Read n (bufio_NewReader \<lparr>segments = s # ss, fin = e\<rparr>) = bufio_Read n (loaded s ss e)"
  using assms by (simp add: bufio_Read_fresh bufio_Read_buffered loaded_def)

lemma getMessage_cong_read:
  assumes "read 7 r = read 7 r'"
  shows "getMessageFromConnection read P w im dk hk r = getMessageFromConnection read P w im dk hk r'"
proof -
  have "isPreambleValid read r = isPreambleValid read r'"
    by (simp add: isPreambleValid_def act_deferred_def assms)
  then show ?thesis
    by (simp add: getMessageFromConnection_def act_deferred_def getMessage_body_def Let_def
        act_bind_def act_of_def)
qed

lemma getMessage_loaded:
  "s \<noteq> [] \<Longrightarrow> getMessageFromConnection bufio_Read P w im dk hk
       (bufio_NewReader \<lparr>segments = s # ss, fin = e\<rparr>)
     = getMessageFromConnection bufio_Read P w im dk hk (loaded s ss e)"
  by (rule getMessage_cong_read) (simp add: bufio_Read_loaded)

lemma loaded_holds: "length s \<le> 4096 \<Longrightarrow> bufio_holds \<lparr>segments = ss, fin = e\<rparr> (loaded s ss e) s"
  by (simp add: loaded_def bufio_holds_def)

text \<open>A body that the buffer holds only in part is refused, whatever follows on the wire.\<close>

lemma getMessage_short_body:
  assumes b: "bufio_holds c b (ProtoPreamble @ tb @ hb @ sb @ v)"
    and tb: "length tb = w" "SizeReader tb = Ret i"
    and t: "Clone P (ident_lookup identMap i) = Some t"
    and hb: "if dk \<noteq> None \<and> hk \<noteq> None then length hb = w \<and> SizeReader hb = Ret hs else hb = [] \<and> hs = 0"
    and sb: "length sb = w" "SizeReader sb = Ret n"
    and v: "v \<noteq> []" "int (length v) < n"
  shows "fst (getMessageFromConnection bufio_Read P w identMap dk hk b) = (None, Some size_error)"
proof -
  obtain r1 where r1: "isPreambleValid bufio_Read b = (None, r1)" "bufio_holds c r1 (tb @ hb @ sb @ v)"
    using bufio.serve_preamble [OF b] by blast
  obtain r2 where r2: "readSize bufio_Read w r1 = (i, r2)" "bufio_holds c r2 (hb @ sb @ v)"
    using bufio.serve_size [OF r1(2) tb] by blast
  obtain r3 where r3: "if dk \<noteq> None \<and> hk \<noteq> None then readSize bufio_Read w r2 = (hs, r3) else r3 = r2 \<and> hs = 0"
      "bufio_holds c r3 (sb @ v)"
    using bufio.serve_size [OF r2(2), of w hs] hb r2(2) by (auto split: if_splits)
  obtain r4 where r4: "readSize bufio_Read w r3 = (n, r4)" "bufio_holds c r4 v"
    using bufio.serve_size [OF r3(2) sb] by blast
  have "bufio_Read (nat n) r4 = ((v, None), r4\<lparr>buffered := []\<rparr>)"
    using r4(2) v by (subst bufio_Read_buffered) (auto simp: bufio_holds_def)
  from getMessage_eval [OF r1(1) r2(1) t r3(1) r4(1) this] v(2) show ?thesis by simp
qed

section \<open>Sending\<close>

lemma plain_frame_Ret:
  assumes "Marshal P pb = Inr v" and "4 \<le> w"
  obtains tb sb where "plain_frame P w pb i = Ret (ProtoPreamble @ tb @ sb @ v)"
    and "SizeWriter w i = Ret tb" and "SizeWriter w (int (length v)) = Ret sb"
  using SizeWriter_total [OF assms(2), of i] SizeWriter_total [OF assms(2), of "int (length v)"]
  by (auto simp: plain_frame_def Let_def assms(1))

lemma write_all_frame: "write_frame write_all bs (tape, wire) = (Ret None, (tape, wire @ bs))"
  by (simp add: write_frame_def write_all_def)

lemma putMessage_plain:
  assumes "inverseMap (getProtobufMessageName P pb) = Some i" and "plain_frame P w pb i = Ret bs"
    and "ek = None \<or> hk = None"
  shows "putMessageInConnection write_all P w pb inverseMap ek hk (tape, wire) = (None, (tape, wire @ bs))"
  using assms
  by (auto simp: putMessageInConnection_def putMessage_body_def act_deferred_def write_all_frame
      split: option.splits)

lemma putMessage_encrypted:
  assumes "inverseMap (getProtobufMessageName P pb) = Some i"
    and "EncryptProtobuf P w pb i ek hk tape = (bs, tape')"
  shows "putMessageInConnection write_all P w pb inverseMap (Some ek) (Some hk) (tape, wire)
         = (None, (tape', wire @ bs))"
  using assms
  by (simp add: putMessageInConnection_def putMessage_body_def act_deferred_def write_all_frame)

section \<open>Two endpoints\<close>

text \<open>
  The identifier of a message type depends on its name only, so a type registered at both ends
  is understood, provided the receiver's names have distinct hashes.
\<close>

lemma registered_ident:
  "registry_inv P bb \<Longrightarrow> inverseIdentMap bb t \<noteq> None \<Longrightarrow> inverseIdentMap bb t = Some (ident_of t)"
  by (auto simp: registry_inv_def)

lemma ident_of_range: "u32_range (ident_of t)"
  by (simp add: ident_of_def hashString_range)

lemma registered_lookup:
  assumes "proto_laws P" and "registry_sound P bb" and "inverseIdentMap bb (FullName P m) \<noteq> None"
  shows "\<exists>t. Clone P (ident_lookup (messageIdentMap bb) (ident_of (FullName P m))) = Some t
             \<and> FullName P t = FullName P m"
proof -
  from assms have "inverseIdentMap bb (FullName P m) = Some (ident_of (FullName P m))"
    by (auto simp: registry_sound_def dest: registered_ident)
  from registry.inverse_ident [OF assms(2) this] obtain mo where
    mo: "messageIdentMap bb (ident_of (FullName P m)) = Some mo" "getProtobufMessageName P mo = FullName P m"
    by blast
  with proto_lawsD(1) [OF assms(1), of m] obtain c where "mo = Some c" "FullName P c = FullName P m"
    by (cases mo) auto
  with mo proto_lawsD(3) [OF assms(1), of c] show ?thesis by (auto simp: ident_lookup_def)
qed

section \<open>Reading only takes from a connection\<close>

text \<open>A stateful computation that never makes a measure of its state larger.\<close>

definition shrinks :: "('s \<Rightarrow> nat) \<Rightarrow> ('s, 'a) act \<Rightarrow> bool" where
  "shrinks f m \<longleftrightarrow> (\<forall>s. f (snd (m s)) \<le> f s)"

lemma shrinks_bind:
  assumes "shrinks f m" and "\<And>x. shrinks f (g x)" shows "shrinks f (act_bind m g)"
  unfolding shrinks_def
proof
  fix s
  obtain r s' where r: "m s = (r, s')" by (cases "m s")
  with assms(1) have "f s' \<le> f s" unfolding shrinks_def by (metis snd_conv)
  moreover have "f (snd (g x s')) \<le> f s'" for x using assms(2) by (simp add: shrinks_def)
  ultimately show "f (snd (act_bind m g s)) \<le> f s"
    using r by (cases r) (auto simp: act_bind_def intro: le_trans)
qed

lemma shrinks_pure: "shrinks f (act_ret x)" "shrinks f (act_lift y)"
  by (simp_all add: shrinks_def)

lemma shrinks_of: "(\<And>s. f (snd (h s)) \<le> f s) \<Longrightarrow> shrinks f (act_of h)"
  by (simp add: shrinks_def act_of_def split_beta)

lemma shrinks_deferred: "shrinks f m \<Longrightarrow> f (snd (act_deferred h r0 m s)) \<le> f s"
  by (simp add: shrinks_def act_deferred_def split_beta)

lemma shrinks_read: "(\<And>n r. f (snd (read n r)) \<le> f r) \<Longrightarrow> shrinks f (\<lambda>r. case read k r of ((v, err), r') \<Rightarrow> (g v err, r'))"
  by (simp add: shrinks_def split_beta)

lemma getMessage_shrinks:
  fixes f :: "'r \<Rightarrow> nat"
  assumes "\<And>n r. f (snd (read n r)) \<le> f r"
  shows "f (snd (getMessageFromConnection read P w idm dk hk r)) \<le> f r"
proof -
  have size: "f (snd (readSize read w r)) \<le> f r" for r
    unfolding readSize_def by (intro shrinks_deferred [where f = f] shrinks_read assms)
  have pre: "f (snd (isPreambleValid read r)) \<le> f r" for r
    unfolding isPreambleValid_def by (intro shrinks_deferred [where f = f] shrinks_read assms)
  have body: "shrinks f (read_body read n)" for n
    unfolding read_body_def by (intro shrinks_read assms)
  have "shrinks f (getMessage_body read P w idm dk hk)"
    unfolding getMessage_body_def Let_def
    by (auto intro!: shrinks_bind shrinks_pure shrinks_of size pre body)
  then show ?thesis unfolding getMessageFromConnection_def by (rule shrinks_deferred [where f = f])
qed

lemma next_segment_shrinks: "next_segment n ss = Some (bs, ss') \<Longrightarrow> length ss' \<le> length ss"
  by (induction n ss rule: next_segment.induct) (auto split: if_splits)

lemma conn_Read_shrinks: "length (segments (snd (conn_Read n c))) \<le> length (segments c)"
  by (auto simp: conn_Read_def split: option.splits dest: next_segment_shrinks)

lemma bufio_Read_shrinks: "length (segments (rd (snd (bufio_Read n b)))) \<le> length (segments (rd b))"
  using conn_Read_shrinks [of n "rd b"] conn_Read_shrinks [of "bufSize b" "rd b"]
  by (auto simp: bufio_Read_def split: prod.splits)

lemma getMessage_takes_segments:
  "length (segments (rd (snd (getMessageFromConnection bufio_Read P w idm dk hk b)))) \<le> length (segments (rd b))"
  by (rule getMessage_shrinks [where f = "\<lambda>b. length (segments (rd b))"]) (rule bufio_Read_shrinks)

end
