(* ===== verification/Nan0_Messaging.thy ===== *)
theory Nan0_Messaging
  imports Nan0_Frame_Props
begin

text \<open>
  Properties of framed messages between two endpoints built by the builders: what arrives,
  what is refused, what a received message proves about the bytes, and the cases in which the
  framing loses or confuses messages.
\<close>

section \<open>A builder with one registered type\<close>

definition one_type_builder :: "raw_message \<Rightarrow> (raw_message, unit) baseBuilder" where
  "one_type_builder m = AddMessageIdentity raw_api (Some m) (NewNanoBuilder Service_zero)"

lemma one_type_builder_sound: "registry_sound raw_api (one_type_builder m)"
  by (auto simp: registry_sound_def collision_free_def one_type_builder_def option_defs
      NewNanoBuilder_def initialize_def inverseIdentMap_addSingleIdentity
      intro!: registry_inv_addSingleIdentity registry_inv_initialize [unfolded initialize_def])

lemma one_type_builder_inv: "registry_inv raw_api (one_type_builder m)"
  using one_type_builder_sound by (simp add: registry_sound_def)

lemma one_type_builder_registered:
  "inverseIdentMap (one_type_builder m) (FullName raw_api m) \<noteq> None"
  by (simp add: one_type_builder_def option_defs inverseIdentMap_addSingleIdentity)

section \<open>What is sent is received\<close>

text \<open>The receiver's side of both round trips: a frame at the front of the first segment.\<close>

lemma receive_frame:
  assumes "proto_laws P" and "registry_sound P br" and "inverseIdentMap br (FullName P m) \<noteq> None"
    and tb: "SizeWriter 4 (ident_of (FullName P m)) = Ret tb"
    and hb: "if dk \<noteq> None \<and> hk \<noteq> None then SizeWriter 4 32 = Ret hb \<and> hs = 32 else hb = [] \<and> hs = 0"
    and sb: "SizeWriter 4 (int (length v)) = Ret sb"
    and v: "length (ProtoPreamble @ tb @ hb @ sb @ v @ rest) \<le> 4096"
    and dec: "\<And>t. FullName P t = FullName P m \<Longrightarrow> decode_body P v (Some t) hs dk hk = Ret (Some m)"
  shows "\<exists>b. getMessageFromConnection bufio_Read P 4 (messageIdentMap br) dk hk
      (bufio_NewReader \<lparr>segments = (ProtoPreamble @ tb @ hb @ sb @ v @ rest) # ss, fin = e\<rparr>)
      = ((Some m, None), b) \<and> buffered b = rest \<and> rd b = \<lparr>segments = ss, fin = e\<rparr>"
proof -
  let ?s = "ProtoPreamble @ tb @ hb @ sb @ v @ rest"
  obtain t where t: "Clone P (ident_lookup (messageIdentMap br) (ident_of (FullName P m))) = Some t"
      "FullName P t = FullName P m"
    using registered_lookup [OF assms(1-3)] by blast
  have "length v \<le> 4096" using v by simp
  then have rb: "SizeReader sb = Ret (int (length v))"
    by (intro SizeReader_SizeWriter [OF _ _ sb]) (simp_all add: u32_range_def)
  have "SizeReader tb = Ret (ident_of (FullName P m))"
    by (rule SizeReader_SizeWriter [OF _ ident_of_range tb]) simp
  note len = SizeWriter_length [OF tb] SizeWriter_length [OF sb]
  have "if dk \<noteq> None \<and> hk \<noteq> None then length hb = 4 \<and> SizeReader hb = Ret hs else hb = [] \<and> hs = 0"
    using hb by (auto simp: u32_range_def dest: SizeWriter_length intro: SizeReader_SizeWriter [of 4])
  from bufio.getMessage_serving [OF loaded_holds [OF v, of ss e] len(1) \<open>SizeReader tb = _\<close> t(1) this
      len(2) rb dec [OF t(2)]]
  show ?thesis
    by (subst getMessage_loaded) (auto simp: bufio_holds_def ProtoPreamble_def)
qed

text \<open>A plaintext frame that arrives as one segment is received.\<close>

lemma plain_frame_received:
  assumes "proto_laws P" and "registry_sound P br" and "inverseIdentMap br (FullName P m) \<noteq> None"
    and "Marshal P (Some m) = Inr v" and "length v \<le> 4081"
  obtains frame b where "plain_frame P 4 (Some m) (ident_of (FullName P m)) = Ret frame"
    and "getMessageFromConnection bufio_Read P 4 (messageIdentMap br) None None
          (bufio_NewReader \<lparr>segments = frame # ss, fin = e\<rparr>) = ((Some m, None), b)"
    and "rd b = \<lparr>segments = ss, fin = e\<rparr>"
proof -
  let ?i = "ident_of (FullName P m)"
  obtain tb sb where f: "plain_frame P 4 (Some m) ?i = Ret (ProtoPreamble @ tb @ sb @ v)"
      and tb: "SizeWriter 4 ?i = Ret tb" and sb: "SizeWriter 4 (int (length v)) = Ret sb"
    using plain_frame_Ret [OF assms(4), of 4] by auto
  have "length (ProtoPreamble @ tb @ [] @ sb @ v @ []) \<le> 4096"
    using assms(5) SizeWriter_length [OF tb] SizeWriter_length [OF sb] by simp
  from receive_frame [OF assms(1-3) tb _ sb this, of None None 0 ss e] that [OF f]
  show thesis using proto_lawsD(4) [OF assms(1,4)] by (auto simp: decode_body_def)
qed

text \<open>
  C5. Round trip of a plaintext message. If the sender's builder knows the message's type, the
  receiver's builder knows it too and none of its registered names share a hash, and the
  marshalled message has at most 4081 bytes, then \<open>putMessageInConnection\<close> succeeds and the
  receiver, given the frame as one segment, returns that message without an error and
  leaves the connection at the next segment.
\<close>

theorem plain_roundtrip:
  assumes "proto_laws P"
    and "registry_inv P bs" and "inverseIdentMap bs (FullName P m) \<noteq> None"
    and "registry_sound P br" and "inverseIdentMap br (FullName P m) \<noteq> None"
    and "Marshal P (Some m) = Inr v" and "length v \<le> 4081"
  shows "\<exists>frame.
      putMessageInConnection write_all P 4 (Some m) (inverseIdentMap bs) None None (tape, [])
        = (None, (tape, frame))
    \<and> (\<exists>b. getMessageFromConnection bufio_Read P 4 (messageIdentMap br) None None
          (bufio_NewReader \<lparr>segments = frame # ss, fin = e\<rparr>) = ((Some m, None), b)
        \<and> rd b = \<lparr>segments = ss, fin = e\<rparr>)"
proof -
  let ?i = "ident_of (FullName P m)"
  obtain frame b where f: "plain_frame P 4 (Some m) ?i = Ret frame"
    and get: "getMessageFromConnection bufio_Read P 4 (messageIdentMap br) None None
          (bufio_NewReader \<lparr>segments = frame # ss, fin = e\<rparr>) = ((Some m, None), b)"
      "rd b = \<lparr>segments = ss, fin = e\<rparr>"
    by (rule plain_frame_received [OF assms(1,4-7)])
  have "inverseIdentMap bs (getProtobufMessageName P (Some m)) = Some ?i"
    using registered_ident [OF assms(2,3)] by simp
  from putMessage_plain [where inverseMap = "inverseIdentMap bs", OF this f, of None None tape "[]"] get
  show ?thesis by simp
qed

theorem plain_roundtrip_witness:
  "\<exists>frame.
      putMessageInConnection write_all raw_api 4 (Some (RawMessage CHR ''a'' ''b'' [7, 0, 255]))
        (inverseIdentMap (one_type_builder (RawMessage CHR ''a'' ''b'' []))) None None ([], [])
        = (None, ([], frame))
    \<and> (\<exists>b. getMessageFromConnection bufio_Read raw_api 4
          (messageIdentMap (one_type_builder (RawMessage CHR ''a'' ''b'' [1]))) None None
          (bufio_NewReader \<lparr>segments = [frame], fin = EOF\<rparr>)
          = ((Some (RawMessage CHR ''a'' ''b'' [7, 0, 255]), None), b)
        \<and> rd b = \<lparr>segments = [], fin = EOF\<rparr>)"
  using plain_roundtrip [OF raw_api_laws one_type_builder_inv _ one_type_builder_sound,
      of "RawMessage CHR ''a'' ''b'' []" "RawMessage CHR ''a'' ''b'' [7, 0, 255]"
         "RawMessage CHR ''a'' ''b'' [1]" "[7, 0, 255]" "[]" "[]" EOF]
    one_type_builder_registered [of "RawMessage CHR ''a'' ''b'' []"]
    one_type_builder_registered [of "RawMessage CHR ''a'' ''b'' [1]"]
  by simp

text \<open>The same for a frame made by \<open>EncryptProtobuf\<close>.\<close>

lemma encrypted_frame_received:
  assumes "proto_laws P" and "registry_sound P br" and "inverseIdentMap br (FullName P m) \<noteq> None"
    and "Marshal P (Some m) = Inr v" and "length v \<le> 4017" and "is_key ek" and "12 \<le> length tape"
  obtains frame b where
    "EncryptProtobuf P 4 (Some m) (ident_of (FullName P m)) ek hk tape = (frame, drop 12 tape)"
    and "getMessageFromConnection bufio_Read P 4 (messageIdentMap br) (Some ek) (Some hk)
          (bufio_NewReader \<lparr>segments = frame # ss, fin = e\<rparr>) = ((Some m, None), b)"
    and "rd b = \<lparr>segments = ss, fin = e\<rparr>" and "buffered b = []"
proof -
  let ?i = "ident_of (FullName P m)"
  have small: "gcm_NonceSize \<le> length tape" "length v + 32 \<le> gcm_max_plaintext"
    using assms(5,7) by (simp_all add: gcm_NonceSize_def gcm_max_plaintext_def)
  obtain c tb hb sb where
      enc: "EncryptProtobuf P 4 (Some m) ?i ek hk tape
              = (ProtoPreamble @ tb @ hb @ sb @ c, drop gcm_NonceSize tape)"
    and tb: "SizeWriter 4 ?i = Ret tb" and hb: "SizeWriter 4 32 = Ret hb"
    and sb: "SizeWriter 4 (int (length c)) = Ret sb"
    and dec: "Decrypt c ek = Ret (Inr (GenerateHMAC v hk @ v))"
    and len: "length c = sealed_size (32 + length v)"
    by (rule EncryptProtobuf_body_Ret [OF assms(4,6) small, of 4]) auto
  have fits: "length (ProtoPreamble @ tb @ hb @ sb @ c @ []) \<le> 4096"
    using assms(5) SizeWriter_length [OF tb] SizeWriter_length [OF hb] SizeWriter_length [OF sb]
    by (simp add: len sealed_size_def gcm_NonceSize_def gcm_TagSize_def)
  have body: "decode_body P c (Some t) 32 (Some ek) (Some hk) = Ret (Some m)"
    if "FullName P t = FullName P m" for t
    using DecryptProtobuf_body_signed [OF dec, of P "Some t" "Some m"]
      proto_lawsD(4) [OF assms(1,4) that]
    by (simp add: decode_body_def DecryptProtobuf_def)
  from receive_frame [OF assms(1-3) tb _ sb fits, of "Some ek" "Some hk" 32 ss e] hb body
  show thesis by (auto intro!: that [unfolded gcm_NonceSize_def [symmetric], OF enc])
qed

text \<open>
  C6. Round trip of an encrypted message: with the same two 32-byte keys at both ends, twelve
  random bytes for the nonce, and a marshalled message of at most 4017 bytes, the sent frame
  is received as the same message; the sender consumed exactly the nonce.
\<close>

theorem encrypted_roundtrip:
  assumes "proto_laws P"
    and "registry_inv P bs" and "inverseIdentMap bs (FullName P m) \<noteq> None"
    and "registry_sound P br" and "inverseIdentMap br (FullName P m) \<noteq> None"
    and "Marshal P (Some m) = Inr v" and "length v \<le> 4017"
    and "is_key ek" and "12 \<le> length tape"
  shows "\<exists>frame.
      putMessageInConnection write_all P 4 (Some m) (inverseIdentMap bs) (Some ek) (Some hk) (tape, [])
        = (None, (drop 12 tape, frame))
    \<and> (\<exists>b. getMessageFromConnection bufio_Read P 4 (messageIdentMap br) (Some ek) (Some hk)
          (bufio_NewReader \<lparr>segments = frame # ss, fin = e\<rparr>) = ((Some m, None), b)
        \<and> rd b = \<lparr>segments = ss, fin = e\<rparr>)"
proof -
  obtain frame b where
    enc: "EncryptProtobuf P 4 (Some m) (ident_of (FullName P m)) ek hk tape = (frame, drop 12 tape)"
    and get: "getMessageFromConnection bufio_Read P 4 (messageIdentMap br) (Some ek) (Some hk)
          (bufio_NewReader \<lparr>segments = frame # ss, fin = e\<rparr>) = ((Some m, None), b)"
      "rd b = \<lparr>segments = ss, fin = e\<rparr>"
    by (rule encrypted_frame_received [OF assms(1,4-9)])
  have "inverseIdentMap bs (getProtobufMessageName P (Some m)) = Some (ident_of (FullName P m))"
    using registered_ident [OF assms(2,3)] by simp
  from putMessage_encrypted [where inverseMap = "inverseIdentMap bs", OF this enc, of "[]"] get
  show ?thesis by auto
qed

theorem encrypted_roundtrip_witness:
  "\<exists>frame.
      putMessageInConnection write_all raw_api 4 (Some (RawMessage CHR ''a'' ''b'' [7, 0, 255]))
        (inverseIdentMap (one_type_builder (RawMessage CHR ''a'' ''b'' [])))
        (Some (replicate 32 1)) (Some (replicate 32 2)) (replicate 13 9, [])
        = (None, ([9], frame))
    \<and> (\<exists>b. getMessageFromConnection bufio_Read raw_api 4
          (messageIdentMap (one_type_builder (RawMessage CHR ''a'' ''b'' [1])))
          (Some (replicate 32 1)) (Some (replicate 32 2))
          (bufio_NewReader \<lparr>segments = [frame], fin = EOF\<rparr>)
          = ((Some (RawMessage CHR ''a'' ''b'' [7, 0, 255]), None), b)
        \<and> rd b = \<lparr>segments = [], fin = EOF\<rparr>)"
  using encrypted_roundtrip [OF raw_api_laws one_type_builder_inv _ one_type_builder_sound,
      of "RawMessage CHR ''a'' ''b'' []" "RawMessage CHR ''a'' ''b'' [7, 0, 255]"
         "RawMessage CHR ''a'' ''b'' [1]" "[7, 0, 255]" "replicate 32 1" "replicate 13 9"
         "replicate 32 2" "[]" EOF]
    one_type_builder_registered [of "RawMessage CHR ''a'' ''b'' []"]
    one_type_builder_registered [of "RawMessage CHR ''a'' ''b'' [1]"]
  by (simp add: is_key_def)


section \<open>What a received message proves\<close>

text \<open>Fields that the first load of the buffer holds whole are read whole.\<close>

lemma whole_fields:
  assumes get: "getMessageFromConnection bufio_Read P w im None None (loaded s ss fe) = ((Some m, err), b)"
    and w: "4 \<le> w" "7 + 2 * w \<le> length (take 4096 s)"
  shows "err = None \<and> (\<exists>tb sb v i t.
      bufio_pending (loaded s ss fe) = ProtoPreamble @ tb @ sb @ v @ bufio_pending b
    \<and> size_field_value w tb i \<and> Clone P (ident_lookup im i) = Some t
    \<and> size_field_value w sb (int (length v)) \<and> length tb = w \<and> length sb = w
    \<and> decode_body P v (Some t) 0 None None = Ret (Some m))"
proof -
  let ?r = "loaded s ss fe" and ?s = "take 4096 s"
  let ?c = "rd ?r"
  from get obtain r1 i r2 t n r4 v where r1: "isPreambleValid bufio_Read ?r = (None, r1)"
    and r2: "readSize bufio_Read w r1 = (i, r2)" and t: "Clone P (ident_lookup im i) = Some t"
    and r4: "readSize bufio_Read w r2 = (n, r4)" and v: "read_body bufio_Read n r4 = (Ret v, b)"
    and m: "decode_body P v (Some t) 0 None None = Ret (Some m)" and e: "err = None"
    by (rule getMessage_reads) auto
  have "ProtoPreamble @ bufio_pending r1 = ?s @ concat (segments ?c)"
    using bufio.isPreambleValid_pending [OF r1] by (simp add: bufio_pending_def loaded_def)
  then have "take 7 ?s = ProtoPreamble" using w by (auto simp: append_eq_append_conv_if split: if_splits)
  then have s: "?s = ProtoPreamble @ drop 7 ?s" by (metis append_take_drop_id)
  define x where "x = drop 7 ?s"
  have x: "2 * w \<le> length x" using w(2) unfolding x_def length_drop by linarith
  let ?tb = "take w x" and ?sb = "take w (drop w x)" and ?z = "drop w (drop w x)"
  have parts: "x = ?tb @ ?sb @ ?z" by (metis append_take_drop_id)
  have len: "length ?tb = w" "length ?sb = w" using x by simp_all
  obtain i' n' where field: "SizeReader ?tb = Ret i'" "SizeReader ?sb = Ret n'"
    using SizeReader_total [of ?tb] SizeReader_total [of ?sb] w(1) unfolding len by blast
  have "bufio_holds ?c ?r (ProtoPreamble @ x)"
    using s by (simp add: bufio_holds_def x_def) (simp add: loaded_def)
  from bufio.serve_preamble [OF this] r1 have "bufio_holds ?c r1 x" by simp
  then have "bufio_holds ?c r1 (?tb @ ?sb @ ?z)" by (simp only: parts [symmetric])
  from bufio.serve_size [OF this len(1) field(1)] r2 have 2: "bufio_holds ?c r2 (?sb @ ?z)" "i = i'" by simp_all
  from bufio.serve_size [OF 2(1) len(2) field(2)] r4 have 4: "bufio_holds ?c r4 ?z" "n = n'" by simp_all
  note body = bufio.read_body_Ret [OF v]
  have "bufio_pending ?r = ProtoPreamble @ ?tb @ ?sb @ v @ bufio_pending b"
  proof -
    have "bufio_pending ?r = (ProtoPreamble @ x) @ concat (segments ?c)"
      using s by (simp add: bufio_pending_def x_def) (simp add: loaded_def)
    also have "\<dots> = ProtoPreamble @ ?tb @ ?sb @ ?z @ concat (segments ?c)" by (subst parts) simp
    also have "?z @ concat (segments ?c) = bufio_pending r4"
      using 4(1) by (simp add: bufio_pending_def bufio_holds_def)
    finally show ?thesis using body by simp
  qed
  moreover have "size_field_value w ?tb i" "size_field_value w ?sb (int (length v))"
    using field len 2(2) 4(2) body by (simp_all add: size_field_value_def)
  ultimately show ?thesis using e t m len by blast
qed

text \<open>
  C8. What a plaintext message says about the stream. A message is returned only when the bytes
  consumed from the front of the connection's stream are the preamble, a type field, a size field and a
  body; the type field names the message's registered type, the size field is the body's length, and
  the message is what the body unmarshals to; there is then no error. A field is here what \<open>readSize\<close>
  makes of it: the bytes that came, filled with zeros, so it may be cut short by the end of a segment,
  and then the frame was not complete (\<open>cut_size_field_gives_empty_message\<close> has the message that comes
  of it). Where the first segment, as far as the buffer takes it, holds the preamble and both fields,
  both have their full width and the frame is complete.
\<close>

theorem received_message_is_framed:
  assumes "getMessageFromConnection bufio_Read P w im None None (bufio_NewReader c) = ((Some m, err), b)"
    and "4 \<le> w"
  shows "err = None \<and> (\<exists>tb sb v i t.
      concat (segments c) = ProtoPreamble @ tb @ sb @ v @ bufio_pending b
    \<and> size_field_value w tb i \<and> Clone P (ident_lookup im i) = Some t
    \<and> size_field_value w sb (int (length v))
    \<and> Unmarshal P v (Some t) = Ret (Inr (Some m))
    \<and> (\<forall>s ss. segments c = s # ss \<and> 7 + 2 * w \<le> length (take 4096 s) \<longrightarrow> length tb = w \<and> length sb = w))"
proof (cases "\<exists>s ss. segments c = s # ss \<and> 7 + 2 * w \<le> length (take 4096 s)")
  case True
  then obtain s ss where s: "segments c = s # ss" "7 + 2 * w \<le> length (take 4096 s)" by blast
  then have c: "c = \<lparr>segments = s # ss, fin = fin c\<rparr>" and ne: "s \<noteq> []" by auto
  from assms(1) have "getMessageFromConnection bufio_Read P w im None None (loaded s ss (fin c)) = ((Some m, err), b)"
    using getMessage_loaded [OF ne, of P w im None None ss "fin c"] c by simp
  moreover have "bufio_pending (loaded s ss (fin c)) = concat (segments c)"
    by (simp add: bufio_pending_def loaded_def s)
  ultimately obtain tb sb v i t where "err = None" "concat (segments c) = ProtoPreamble @ tb @ sb @ v @ bufio_pending b"
    "size_field_value w tb i" "Clone P (ident_lookup im i) = Some t" "size_field_value w sb (int (length v))"
    "length tb = w" "length sb = w" "decode_body P v (Some t) 0 None None = Ret (Some m)"
    using whole_fields [OF _ assms(2) s(2)] by metis
  moreover from this(8) have "Unmarshal P v (Some t) = Ret (Inr (Some m))"
    by (auto simp: decode_body_def go_bind_Ret_iff)
  ultimately show ?thesis by blast
next
  case False
  with bufio.getMessage_frame [OF assms] show ?thesis
    by (auto simp: decode_body_def go_bind_Ret_iff) blast
qed

theorem received_message_is_framed_witness:
  "\<exists>tb sb v i t.
      [1, 2, 3, 255, 3, 2, 1, 77, 37, 5, 202, 0, 0, 0, 2, 5, 6, 8]
        = ProtoPreamble @ tb @ sb @ v @ [8]
    \<and> size_field_value 4 tb i
    \<and> Clone raw_api (ident_lookup (messageIdentMap (one_type_builder (RawMessage CHR ''a'' ''b'' []))) i)
        = Some t
    \<and> size_field_value 4 sb (int (length v))
    \<and> Unmarshal raw_api v (Some t) = Ret (Inr (Some (RawMessage CHR ''a'' ''b'' [5, 6])))
    \<and> length tb = 4 \<and> length sb = 4"
proof -
  have "getMessageFromConnection bufio_Read raw_api 4
      (messageIdentMap (one_type_builder (RawMessage CHR ''a'' ''b'' []))) None None
      (bufio_NewReader \<lparr>segments = [[1, 2, 3, 255, 3, 2, 1, 77, 37, 5, 202, 0, 0, 0, 2, 5, 6, 8]],
         fin = EOF\<rparr>)
    = ((Some (RawMessage CHR ''a'' ''b'' [5, 6]), None),
       \<lparr>buffered = [8], bufSize = 4096, bufErr = None, rd = \<lparr>segments = [], fin = EOF\<rparr>\<rparr>)"
    by code_simp
  from received_message_is_framed [OF this] show ?thesis by (simp add: bufio_pending_def)
qed

context io_reader
begin

text \<open>The same of any reader, for an authenticated message.\<close>

lemma getMessage_signed:
  assumes "proto_laws P"
    and "getMessageFromConnection read P w im (Some dk) (Some hk) r = ((Some m, err), r')"
    and "4 \<le> w"
  shows "err = None \<and> (\<exists>hd v real t i.
      pending r = ProtoPreamble @ hd @ v @ pending r' \<and> length hd \<le> 3 * w
    \<and> Clone P (ident_lookup im i) = Some t
    \<and> Decrypt v dk = Ret (Inr (GenerateHMAC real hk @ real))
    \<and> Unmarshal P real (Some t) = Ret (Inr (Some m)))"
proof -
  from getMessage_frame [OF assms(2,3)] obtain tb hb sb v i hs t where e: "err = None"
    and p: "pending r = ProtoPreamble @ (tb @ hb @ sb) @ v @ pending r'"
    and len: "length (tb @ hb @ sb) \<le> 3 * w" and t: "Clone P (ident_lookup im i) = Some t"
    and d: "decode_body P v (Some t) hs (Some dk) (Some hk) = Ret (Some m)"
    by (auto simp: size_field_value_def)
  from d have "DecryptProtobuf_body P v (Some t) hs dk hk = Ret (Some m)"
    by (intro DecryptProtobuf_Inr [OF assms(1)]) (simp add: decode_body_def)
  then obtain mac real where "Decrypt v dk = Ret (Inr (mac @ real))"
    "mac = GenerateHMAC real hk" "Unmarshal P real (Some t) = Ret (Inr (Some m))"
    by (rule DecryptProtobuf_body_Ret)
  with e p len t show ?thesis by blast
qed

end

text \<open>
  C7. Authenticity. With keys in place, a message is returned only if some body on the stream
  decrypts under the encryption key to a signature followed by bytes, the signature is the
  HMAC of exactly those bytes under the signing key, and the message is what those bytes
  unmarshal to.
\<close>

theorem received_message_is_signed:
  assumes "proto_laws P"
    and "getMessageFromConnection bufio_Read P w im (Some dk) (Some hk) (bufio_NewReader c)
           = ((Some m, err), b)"
    and "4 \<le> w"
  shows "err = None \<and> (\<exists>hd v real t i.
      concat (segments c) = ProtoPreamble @ hd @ v @ bufio_pending b \<and> length hd \<le> 3 * w
    \<and> Clone P (ident_lookup im i) = Some t
    \<and> Decrypt v dk = Ret (Inr (GenerateHMAC real hk @ real))
    \<and> Unmarshal P real (Some t) = Ret (Inr (Some m)))"
  using bufio.getMessage_signed [OF assms] by simp

theorem received_message_is_signed_witness:
  "\<exists>frame hd v real t i. frame = ProtoPreamble @ hd @ v \<and> length hd \<le> 3 * 4
    \<and> Clone raw_api (ident_lookup (messageIdentMap (one_type_builder (RawMessage CHR ''a'' ''b'' []))) i)
        = Some t
    \<and> Decrypt v (replicate 32 1) = Ret (Inr (GenerateHMAC real (replicate 32 2) @ real))
    \<and> Unmarshal raw_api real (Some t) = Ret (Inr (Some (RawMessage CHR ''a'' ''b'' [7])))"
proof -
  let ?m = "RawMessage CHR ''a'' ''b'' [7]"
  obtain frame b where
    g: "getMessageFromConnection bufio_Read raw_api 4
          (messageIdentMap (one_type_builder (RawMessage CHR ''a'' ''b'' [])))
          (Some (replicate 32 1)) (Some (replicate 32 2))
          (bufio_NewReader \<lparr>segments = [frame], fin = EOF\<rparr>) = ((Some ?m, None), b)"
    and "rd b = \<lparr>segments = [], fin = EOF\<rparr>" and "buffered b = []"
    by (rule encrypted_frame_received [OF raw_api_laws one_type_builder_sound,
          of "RawMessage CHR ''a'' ''b'' []" ?m "[7]" "replicate 32 1" "replicate 12 9"
             "replicate 32 2" "[]" EOF])
      (use one_type_builder_registered [of "RawMessage CHR ''a'' ''b'' []"] in
        \<open>auto simp: is_key_def\<close>)
  then have "bufio_pending b = []" by (simp add: bufio_pending_def)
  with received_message_is_signed [OF raw_api_laws g] show ?thesis by auto
qed

end
