(* ===== verification/Nan0_Framing_Limits.thy ===== *)
theory Nan0_Framing_Limits
  imports Nan0_Messaging
begin

text \<open>
  Where the framing refuses, loses or confuses messages: bodies beyond the reader's buffer,
  size fields cut by a segment boundary, unregistered types, failed encryption, identifiers
  that collide. These are the limits of the round trips of \<open>Nan0_Messaging\<close>.
\<close>

section \<open>Large messages\<close>

text \<open>
  C34. A plaintext message of more than 4081 bytes is sent without an error, but a receiver that
  gets its frame as one segment refuses it with the size-discrepancy error: the buffered
  reader holds 4096 bytes of the frame, and the body is read with a single \<open>Read\<close>.
\<close>

theorem large_message_refused:
  assumes "proto_laws P"
    and "registry_inv P bs" and "inverseIdentMap bs (FullName P m) \<noteq> None"
    and "registry_sound P br" and "inverseIdentMap br (FullName P m) \<noteq> None"
    and "Marshal P (Some m) = Inr v" and "4081 < length v" and "length v < 2 ^ 32"
  shows "\<exists>frame.
      putMessageInConnection write_all P 4 (Some m) (inverseIdentMap bs) None None (tape, [])
        = (None, (tape, frame))
    \<and> fst (getMessageFromConnection bufio_Read P 4 (messageIdentMap br) None None
          (bufio_NewReader \<lparr>segments = frame # ss, fin = e\<rparr>)) = (None, Some size_error)"
proof -
  let ?i = "ident_of (FullName P m)"
  obtain tb sb where f: "plain_frame P 4 (Some m) ?i = Ret (ProtoPreamble @ tb @ sb @ v)"
      and tb: "SizeWriter 4 ?i = Ret tb" and sb: "SizeWriter 4 (int (length v)) = Ret sb"
    using plain_frame_Ret [OF assms(6), of 4] by auto
  let ?s = "ProtoPreamble @ tb @ sb @ v"
  have "inverseIdentMap bs (getProtobufMessageName P (Some m)) = Some ?i"
    using registered_ident [OF assms(2,3)] by simp
  from putMessage_plain [where inverseMap = "inverseIdentMap bs", OF this f, of None None tape "[]"]
  have put: "putMessageInConnection write_all P 4 (Some m) (inverseIdentMap bs) None None (tape, [])
       = (None, (tape, ?s))" by simp
  obtain t where t: "Clone P (ident_lookup (messageIdentMap br) ?i) = Some t"
    using registered_lookup [OF assms(1,4,5)] by blast
  note len = SizeWriter_length [OF tb] SizeWriter_length [OF sb]
  have "take 4096 ?s = ProtoPreamble @ tb @ [] @ sb @ take 4081 v" using len by simp
  then have "bufio_holds (rd (loaded ?s ss e)) (loaded ?s ss e)
      (ProtoPreamble @ tb @ [] @ sb @ take 4081 v)"
    by (simp add: bufio_holds_def loaded_def)
  from getMessage_short_body [OF this len(1) _ t _ len(2), of None None 0 "int (length v)"]
  have "fst (getMessageFromConnection bufio_Read P 4 (messageIdentMap br) None None (loaded ?s ss e))
      = (None, Some size_error)"
    using assms(7,8) SizeReader_SizeWriter [OF _ ident_of_range tb] SizeReader_SizeWriter [OF _ _ sb]
    by (cases "v = []") (simp_all add: u32_range_def)
  with put show ?thesis
    by (intro exI [of _ ?s]) (simp add: getMessage_loaded ProtoPreamble_def)
qed

theorem large_message_refused_witness:
  "\<exists>frame.
      putMessageInConnection write_all raw_api 4 (Some (RawMessage CHR ''a'' ''b'' (replicate 4082 1)))
        (inverseIdentMap (one_type_builder (RawMessage CHR ''a'' ''b'' []))) None None ([], [])
        = (None, ([], frame))
    \<and> fst (getMessageFromConnection bufio_Read raw_api 4
          (messageIdentMap (one_type_builder (RawMessage CHR ''a'' ''b'' []))) None None
          (bufio_NewReader \<lparr>segments = [frame], fin = EOF\<rparr>)) = (None, Some size_error)"
proof -
  let ?r = "inverseIdentMap (one_type_builder (RawMessage CHR ''a'' ''b'' []))"
  have "?r (FullName raw_api (RawMessage CHR ''a'' ''b'' (replicate 4082 1))) \<noteq> None"
    using one_type_builder_registered [of "RawMessage CHR ''a'' ''b'' []"] by simp
  from large_message_refused [OF raw_api_laws one_type_builder_inv this one_type_builder_sound this,
      of "replicate 4082 1" "[]" "[]" EOF]
  show ?thesis by simp
qed

section \<open>A size field cut by a segment boundary\<close>

lemma SizeWriter_16bit:
  assumes "0 \<le> n" and "n < 2 ^ 16"
  shows "\<exists>x y. SizeWriter 4 n = Ret [0, 0, x, y]"
proof -
  have "n div 2 ^ k = 0" if "16 \<le> k" for k
    using assms power_increasing [OF that, of "2 :: int"] by (intro div_pos_pos_trivial) linarith+
  then have "\<not> bit (word_of_int n :: u32) k" if "16 \<le> k" for k
    using that by (simp add: bit_word_of_int_iff bit_iff_odd [of n])
  then have "(ucast (drop_bit k (word_of_int n :: u32)) :: byte) = 0" if "16 \<le> k" for k
    using that by (intro bit_word_eqI) (simp add: bit_simps)
  then show ?thesis by (simp add: SizeWriter_def be_PutUint32_def Let_def)
qed

text \<open>
  If a segment boundary falls in the middle of the size field of a message shorter than
  64 KiB, the receiver reads the two zero bytes before it as the size 0 and returns the empty
  message of that type, without an error, whatever message was sent.
\<close>

lemma cut_size_field_gives_empty_message:
  assumes "proto_laws P"
    and "registry_sound P br" and "inverseIdentMap br (FullName P m) \<noteq> None"
    and "plain_frame P 4 (Some m) (ident_of (FullName P m)) = Ret frame"
    and "Marshal P (Some m) = Inr v" and "length v < 2 ^ 16"
    and "\<And>t. FullName P t = FullName P m \<Longrightarrow> Unmarshal P [] (Some t) = Ret (Inr (Some m0))"
  shows "fst (getMessageFromConnection bufio_Read P 4 (messageIdentMap br) None None
      (bufio_NewReader \<lparr>segments = take 13 frame # drop 13 frame # ss, fin = e\<rparr>)) = (Some m0, None)"
proof -
  let ?i = "ident_of (FullName P m)"
  obtain tb sb where frame: "frame = ProtoPreamble @ tb @ sb @ v"
      and tb: "SizeWriter 4 ?i = Ret tb" and sb: "SizeWriter 4 (int (length v)) = Ret sb"
    by (rule plain_frame_Ret [OF assms(5), of 4 ?i]) (use assms(4) in auto)
  obtain x y where xy: "sb = [0, 0, x, y]"
    using SizeWriter_16bit [of "int (length v)"] assms(6) sb by auto
  note len = SizeWriter_length [OF tb]
  have s: "take 13 frame = ProtoPreamble @ tb @ [0, 0]" by (simp add: frame len xy)
  let ?b = "loaded (take 13 frame) (drop 13 frame # ss) e"
  let ?c = "\<lparr>segments = drop 13 frame # ss, fin = e\<rparr>"
  have "bufio_holds ?c ?b (ProtoPreamble @ tb @ [0, 0])"
    using loaded_holds [of "take 13 frame"] by (simp add: s len)
  then obtain r1 where r1: "isPreambleValid bufio_Read ?b = (None, r1)" "bufio_holds ?c r1 (tb @ [0, 0])"
    using bufio.serve_preamble by blast
  obtain r2 where r2: "readSize bufio_Read 4 r1 = (?i, r2)" "bufio_holds ?c r2 [0, 0]"
    using bufio.serve_size [OF r1(2) len SizeReader_SizeWriter [OF _ ident_of_range tb]] by auto
  have "bufio_Read 4 r2 = (([0, 0], None), r2\<lparr>buffered := []\<rparr>)"
    using r2(2) by (subst bufio_Read_buffered) (auto simp: bufio_holds_def)
  from readSize_read [of bufio_Read, OF this, of 0] have
    r3: "readSize bufio_Read 4 r2 = (0, r2\<lparr>buffered := []\<rparr>)"
    by (simp add: SizeReader_def numeral_eq_Suc)
  have r4: "bufio_Read (nat 0) (r2\<lparr>buffered := []\<rparr>) = (([], None), r2\<lparr>buffered := []\<rparr>)"
    using r2(2) by (cases r2) (simp add: bufio_Read_def bufio_holds_def)
  obtain t where t: "Clone P (ident_lookup (messageIdentMap br) ?i) = Some t" "FullName P t = FullName P m"
    using registered_lookup [OF assms(1-3)] by blast
  have "getMessageFromConnection bufio_Read P 4 (messageIdentMap br) None None ?b
      = ((Some m0, None), r2\<lparr>buffered := []\<rparr>)"
    by (subst getMessage_eval [OF r1(1) r2(1) t(1) _ r3 r4, of None None 0])
      (simp_all add: decode_body_def assms(7) [OF t(2)])
  then show ?thesis by (subst getMessage_loaded) (simp_all add: s ProtoPreamble_def)
qed

section \<open>Sending\<close>

text \<open>
  A message whose type the sender has not registered is not sent: whatever the writer, the
  keys and the random tape, \<open>putMessageInConnection\<close> returns the missing-type error, writes
  nothing and draws no randomness.
\<close>

lemma unregistered_not_sent:
  assumes "inverseMap (getProtobufMessageName P pb) = None"
  shows "putMessageInConnection wr P w pb inverseMap ek hk (tape, wire)
         = (Some ident_absent_error, (tape, wire))"
  using assms
  by (simp add: putMessageInConnection_def putMessage_body_def act_deferred_def)

text \<open>
  A failure to marshal is an error for a plaintext message only. With encryption on, the
  panic is recovered inside \<open>EncryptProtobuf\<close>, which returns the nil slice:
  \<open>putMessageInConnection\<close> then writes nothing and reports success.
\<close>

lemma failed_encryption_reports_success:
  assumes "inverseMap (getProtobufMessageName P pb) = Some i" and "Marshal P pb = Inl err"
  shows "putMessageInConnection write_all P w pb inverseMap None None (tape, wire)
           = (Some err, (tape, wire))
       \<and> putMessageInConnection write_all P w pb inverseMap (Some ek) (Some hk) (tape, wire)
           = (None, (tape, wire))"
  using assms
  by (simp add: putMessageInConnection_def putMessage_body_def act_deferred_def plain_frame_def
      EncryptProtobuf_def EncryptProtobuf_body_def write_all_frame)

section \<open>Colliding identifiers\<close>

definition colliding_builder :: "(raw_message, unit) baseBuilder" where
  "colliding_builder =
     AddMessageIdentities raw_api
       [Some (RawMessage CHR ''c'' ''ostarring'' []), Some (RawMessage CHR ''l'' ''iquid'' [])]
       (NewNanoBuilder Service_zero)"

text \<open>
  Without distinct hashes the round trip fails silently: two registered types whose names
  hash alike share one identifier, the later registration wins, and a message of the first
  type is received as a message of the second, without an error.
\<close>

lemma collision_changes_type:
  "case putMessageInConnection write_all raw_api 4 (Some (RawMessage CHR ''c'' ''ostarring'' [1]))
          (inverseIdentMap colliding_builder) None None ([], []) of
     (err, (tape, frame)) \<Rightarrow>
       err = None
     \<and> fst (getMessageFromConnection bufio_Read raw_api 4 (messageIdentMap colliding_builder) None None
            (bufio_NewReader \<lparr>segments = [frame], fin = EOF\<rparr>))
         = (Some (RawMessage CHR ''l'' ''iquid'' [1]), None)"
  by code_simp

end
