(* ===== verification/Nan0_Close.thy ===== *)
theory Nan0_Close
  imports Go_Prelude
begin

text \<open>
  Closing a TCP wrapper: \<open>IsClosed\<close>, \<open>closeLogic\<close>, \<open>softClose\<close> and \<open>Close\<close> of
  \<^verbatim>\<open>nan0.go\<close>.

  The record \<open>nan0\<close> holds what these methods touch. \<open>closed\<close> and the two shutdown channels
  are channels without data: the first is only ever closed, of the others (capacity 1) the
  number of waiting signals counts. The goroutine that \<open>closeLogic\<close> starts is
  \<open>signaler\<close>: it forces the read deadline, then signals the reader, then the writer.

  \<open>Close\<close> and \<open>softClose\<close> are first given as single operations, then as a step relation in
  which any number of goroutines run them in small steps around \<open>closeMux\<close>. The lemmas show
  that the small steps amount to the single operations and that the channel \<open>closed\<close> is
  never closed twice, which would crash the program: the recovery these methods defer,
  \<^verbatim>\<open>recoverPanic(..)\<close>, is built and never called.
\<close>

section \<open>The methods\<close>

datatype deadline = NoDeadline | PastDeadline | FutureDeadline

datatype signaler_pc = NotStarted | SigDeadline | SigReader | SigWriter | SigDone

record nan0 =
  nan0_ServiceName :: string
  closed :: bool
  connOpen :: bool
  readDeadline :: deadline
  signaler :: signaler_pc
  readerShutdown :: nat
  writerShutdown :: nat
  lastTxRx :: int

definition new_nan0 :: "string \<Rightarrow> int \<Rightarrow> nan0" where
  "new_nan0 name now =
     \<lparr>nan0_ServiceName = name, closed = False, connOpen = True, readDeadline = NoDeadline,
      signaler = NotStarted, readerShutdown = 0, writerShutdown = 0, lastTxRx = now\<rparr>"

definition LastComm :: "nan0 \<Rightarrow> int" where
  "LastComm n = lastTxRx n"

definition IsClosed :: "nan0 \<Rightarrow> bool" where
  "IsClosed n = closed n"

definition GetServiceName :: "nan0 \<Rightarrow> string" where
  "GetServiceName n = nan0_ServiceName n"

definition nan0_Equals :: "nan0 \<Rightarrow> nan0 \<Rightarrow> bool" where
  "nan0_Equals n other \<longleftrightarrow> GetServiceName n = GetServiceName other"

definition close_panic :: panic_value where
  "close_panic = PanicErr (ErrRuntime ''close of closed channel'')"

definition closeLogic :: "nan0 \<Rightarrow> nan0 go" where
  "closeLogic n =
     (let n = n\<lparr>signaler := SigDeadline\<rparr>
      in if closed n then Panic close_panic else Ret (n\<lparr>closed := True\<rparr>))"

definition softClose :: "nan0 \<Rightarrow> nan0 go" where
  "softClose n =
     (if IsClosed n then Ret n
      else closeLogic (n\<lparr>readDeadline := PastDeadline\<rparr>))"

definition Close :: "nan0 \<Rightarrow> nan0 go" where
  "Close n =
     (if IsClosed n then Ret n
      else go_bind (closeLogic n) (\<lambda>n. Ret (n\<lparr>connOpen := False\<rparr>)))"

text \<open>Neither panics; each leaves the wrapper closed; a closed wrapper is left alone.\<close>

lemma Close_Ret:
  "Close n = Ret (if closed n then n else n\<lparr>signaler := SigDeadline, closed := True, connOpen := False\<rparr>)"
  by (simp add: Close_def closeLogic_def IsClosed_def Let_def)

lemma softClose_Ret:
  "softClose n = Ret (if closed n then n
     else n\<lparr>readDeadline := PastDeadline, signaler := SigDeadline, closed := True\<rparr>)"
  by (simp add: softClose_def closeLogic_def IsClosed_def Let_def)

section \<open>The closing contract\<close>

text \<open>
  What the server relies on of any wrapper it holds: closing does not panic, leaves the
  wrapper closed, and does nothing to a wrapper that is closed already.
\<close>

locale closer =
  fixes close :: "'w \<Rightarrow> 'w go"
    and is_closed :: "'w \<Rightarrow> bool"
  assumes close_total: "\<exists>x'. close x = Ret x'"
    and close_closes: "close x = Ret x' \<Longrightarrow> is_closed x'"
    and close_closed: "is_closed x \<Longrightarrow> close x = Ret x"
begin

lemma close_twice: "go_bind (close x) close = close x"
  using close_total [of x] close_closes close_closed by fastforce

end

interpretation nan0_close: closer Close IsClosed
  by unfold_locales (auto simp: Close_Ret IsClosed_def)

interpretation nan0_softClose: closer softClose IsClosed
  by unfold_locales (auto simp: softClose_Ret IsClosed_def)

section \<open>Concurrent closers\<close>

datatype close_method = MClose | MSoftClose

fun run_method :: "close_method \<Rightarrow> nan0 \<Rightarrow> nan0 go" where
  "run_method MClose n = Close n"
| "run_method MSoftClose n = softClose n"

text \<open>
  Where a goroutine stands in a call: not calling, waiting for the mutex, holding it before
  the \<open>IsClosed\<close> test, past the test, with the signaler started, with the channel closed, about
  to unlock, returned, or crashed by closing a closed channel.
\<close>

datatype close_pc =
    CIdle
  | CWantLock close_method
  | CTest close_method
  | CPassed close_method
  | CStarted close_method
  | CClosedChan close_method
  | CUnlock close_method
  | CDone
  | CCrashed

record closers =
  obj :: nan0
  closeMux :: "nat option"
  entry :: nan0
  pcs :: "nat \<Rightarrow> close_pc"

text \<open>\<open>entry\<close> records the wrapper as the current holder of the mutex found it.\<close>

inductive close_step :: "closers \<Rightarrow> closers \<Rightarrow> bool" where
  call: "pcs s i \<in> {CIdle, CDone} \<Longrightarrow> close_step s (s\<lparr>pcs := (pcs s)(i := CWantLock m)\<rparr>)"
| lock: "pcs s i = CWantLock m \<Longrightarrow> closeMux s = None \<Longrightarrow>
     close_step s (s\<lparr>closeMux := Some i, entry := obj s, pcs := (pcs s)(i := CTest m)\<rparr>)"
| test_closed: "pcs s i = CTest m \<Longrightarrow> IsClosed (obj s) \<Longrightarrow>
     close_step s (s\<lparr>pcs := (pcs s)(i := CUnlock m)\<rparr>)"
| test_open: "pcs s i = CTest MClose \<Longrightarrow> \<not> IsClosed (obj s) \<Longrightarrow>
     close_step s (s\<lparr>pcs := (pcs s)(i := CPassed MClose)\<rparr>)"
| test_open_soft: "pcs s i = CTest MSoftClose \<Longrightarrow> \<not> IsClosed (obj s) \<Longrightarrow>
     close_step s (s\<lparr>obj := (obj s)\<lparr>readDeadline := PastDeadline\<rparr>, pcs := (pcs s)(i := CPassed MSoftClose)\<rparr>)"
| start_signaler: "pcs s i = CPassed m \<Longrightarrow>
     close_step s (s\<lparr>obj := (obj s)\<lparr>signaler := SigDeadline\<rparr>, pcs := (pcs s)(i := CStarted m)\<rparr>)"
| close_chan: "pcs s i = CStarted m \<Longrightarrow> \<not> closed (obj s) \<Longrightarrow>
     close_step s (s\<lparr>obj := (obj s)\<lparr>closed := True\<rparr>, pcs := (pcs s)(i := CClosedChan m)\<rparr>)"
| close_chan_twice: "pcs s i = CStarted m \<Longrightarrow> closed (obj s) \<Longrightarrow>
     close_step s (s\<lparr>pcs := (pcs s)(i := CCrashed)\<rparr>)"
| close_conn: "pcs s i = CClosedChan MClose \<Longrightarrow>
     close_step s (s\<lparr>obj := (obj s)\<lparr>connOpen := False\<rparr>, pcs := (pcs s)(i := CUnlock MClose)\<rparr>)"
| soft_done: "pcs s i = CClosedChan MSoftClose \<Longrightarrow>
     close_step s (s\<lparr>pcs := (pcs s)(i := CUnlock MSoftClose)\<rparr>)"
| unlock: "pcs s i = CUnlock m \<Longrightarrow>
     close_step s (s\<lparr>closeMux := None, pcs := (pcs s)(i := CDone)\<rparr>)"

definition close_start :: "closers \<Rightarrow> bool" where
  "close_start s \<longleftrightarrow> closeMux s = None \<and> \<not> closed (obj s) \<and> (\<forall>i. pcs s i = CIdle)"

text \<open>The goroutines that hold the mutex.\<close>

fun in_critical :: "close_pc \<Rightarrow> bool" where
  "in_critical CIdle = False"
| "in_critical (CWantLock m) = False"
| "in_critical CDone = False"
| "in_critical _ = True"

text \<open>What the holder's position says of the wrapper, relative to how it found it.\<close>

fun holder_inv :: "nan0 \<Rightarrow> nan0 \<Rightarrow> close_pc \<Rightarrow> bool" where
  "holder_inv n0 n (CTest m) = (n = n0)"
| "holder_inv n0 n (CPassed m) = (\<not> closed n0 \<and>
     n = (case m of MClose \<Rightarrow> n0 | MSoftClose \<Rightarrow> n0\<lparr>readDeadline := PastDeadline\<rparr>))"
| "holder_inv n0 n (CStarted m) = (\<not> closed n0 \<and>
     n = (case m of MClose \<Rightarrow> n0 | MSoftClose \<Rightarrow> n0\<lparr>readDeadline := PastDeadline\<rparr>)\<lparr>signaler := SigDeadline\<rparr>)"
| "holder_inv n0 n (CClosedChan m) = (\<not> closed n0 \<and>
     n = (case m of MClose \<Rightarrow> n0 | MSoftClose \<Rightarrow> n0\<lparr>readDeadline := PastDeadline\<rparr>)
           \<lparr>signaler := SigDeadline, closed := True\<rparr>)"
| "holder_inv n0 n (CUnlock m) = (run_method m n0 = Ret n)"
| "holder_inv n0 n CCrashed = False"
| "holder_inv n0 n _ = True"

definition close_inv :: "closers \<Rightarrow> bool" where
  "close_inv s \<longleftrightarrow>
     (\<forall>i. in_critical (pcs s i) \<longleftrightarrow> closeMux s = Some i) \<and>
     (\<forall>i. holder_inv (entry s) (obj s) (pcs s i)) \<and>
     (\<forall>i. pcs s i = CDone \<longrightarrow> closed (obj s))"

lemma close_invD:
  assumes "close_inv s"
  shows "in_critical (pcs s i) \<Longrightarrow> closeMux s = Some i"
    and "closeMux s = Some i \<Longrightarrow> in_critical (pcs s i)"
    and "holder_inv (entry s) (obj s) (pcs s i)"
    and "pcs s i = CDone \<Longrightarrow> closed (obj s)"
  using assms by (auto simp: close_inv_def)

lemma holder_inv_idle: "\<not> in_critical pc \<Longrightarrow> holder_inv n0 n pc"
  by (cases pc) simp_all

lemma run_method_closes: "run_method m n = Ret n' \<Longrightarrow> closed n'"
  by (cases m) (auto simp: Close_Ret softClose_Ret)

text \<open>
  A move of the goroutine that holds the mutex, and of one that does not, keeps the invariant
  when it keeps the moving goroutine's part of it.
\<close>

lemma close_inv_holder:
  assumes inv: "close_inv s" and at: "closeMux s = Some i"
    and crit: "in_critical pc" and pos: "holder_inv (entry s) n pc"
    and kept: "closed (obj s) \<Longrightarrow> closed n"
  shows "close_inv (s\<lparr>obj := n, pcs := (pcs s)(i := pc)\<rparr>)"
proof -
  have other: "\<not> in_critical (pcs s j)" if "j \<noteq> i" for j
    using close_invD(1) [OF inv, of j] at that by auto
  have "pc \<noteq> CDone"
    using crit by (cases pc) simp_all
  then show ?thesis
    using inv at crit pos kept other by (auto simp: close_inv_def holder_inv_idle)
qed

lemma close_inv_moved:
  assumes "close_inv s" and "closeMux s = Some i"
    and "in_critical pc" and "holder_inv (entry s) (obj s) pc"
  shows "close_inv (s\<lparr>pcs := (pcs s)(i := pc)\<rparr>)"
  using close_inv_holder [of s i pc "obj s"] assms by (cases s) simp

lemma close_inv_outside:
  assumes inv: "close_inv s" and pre: "\<not> in_critical (pcs s i)"
    and post: "\<not> in_critical pc" and "pc \<noteq> CDone"
  shows "close_inv (s\<lparr>pcs := (pcs s)(i := pc)\<rparr>)"
  using assms close_invD(2) [OF inv, of i] by (auto simp: close_inv_def holder_inv_idle)

lemma close_inv_lock:
  assumes inv: "close_inv s" and free: "closeMux s = None"
  shows "close_inv (s\<lparr>closeMux := Some i, entry := obj s, pcs := (pcs s)(i := CTest m)\<rparr>)"
proof -
  have "\<not> in_critical (pcs s j)" for j
    using close_invD(1) [OF inv, of j] free by auto
  then show ?thesis
    using inv by (auto simp: close_inv_def holder_inv_idle)
qed

lemma close_inv_unlock:
  assumes inv: "close_inv s" and at: "pcs s i = CUnlock m"
  shows "close_inv (s\<lparr>closeMux := None, pcs := (pcs s)(i := CDone)\<rparr>)"
proof -
  have mux: "closeMux s = Some i"
    using close_invD(1) [OF inv, of i] at by simp
  have "closed (obj s)"
    using close_invD(3) [OF inv, of i] at by (auto dest: run_method_closes)
  moreover have "\<not> in_critical (pcs s j)" if "j \<noteq> i" for j
    using close_invD(1) [OF inv, of j] mux that by auto
  ultimately show ?thesis
    using inv by (auto simp: close_inv_def holder_inv_idle)
qed

lemma close_step_inv: "close_step s t \<Longrightarrow> close_inv s \<Longrightarrow> close_inv t"
proof (induction rule: close_step.induct)
  case (call s i m)
  then show ?case by (auto intro!: close_inv_outside)
next
  case (lock s i m)
  then show ?case by (auto intro: close_inv_lock)
next
  case (unlock s i m)
  then show ?case by (auto intro: close_inv_unlock)
next
  case (test_closed s i m)
  then show ?case
    using close_invD(1,3) [OF test_closed(3), of i]
    by (cases m) (auto simp: Close_Ret softClose_Ret IsClosed_def intro!: close_inv_moved)
next
  case (test_open s i)
  then show ?case
    using close_invD(1,3) [OF test_open(3), of i]
    by (auto simp: IsClosed_def intro!: close_inv_moved)
next
  case (test_open_soft s i)
  then show ?case
    using close_invD(1,3) [OF test_open_soft(3), of i]
    by (auto simp: IsClosed_def intro!: close_inv_holder)
next
  case (start_signaler s i m)
  then show ?case
    using close_invD(1,3) [OF start_signaler(2), of i]
    by (auto intro!: close_inv_holder)
next
  case (close_chan s i m)
  then show ?case
    using close_invD(1,3) [OF close_chan(3), of i]
    by (auto intro!: close_inv_holder)
next
  case (close_chan_twice s i m)
  then show ?case
    using close_invD(3) [OF close_chan_twice(3), of i]
    by (auto split: close_method.splits)
next
  case (close_conn s i)
  then show ?case
    using close_invD(1,3) [OF close_conn(2), of i]
    by (auto simp: Close_Ret intro!: close_inv_holder)
next
  case (soft_done s i)
  then show ?case
    using close_invD(1,3) [OF soft_done(2), of i]
    by (auto simp: softClose_Ret intro!: close_inv_moved)
qed

interpretation close_machine: machine_invariant close_start close_step close_inv
proof unfold_locales
  fix s t
  show "close_start s \<Longrightarrow> close_inv s"
    by (simp add: close_start_def close_inv_def)
  show "close_step s t \<Longrightarrow> close_inv s \<Longrightarrow> close_inv t"
    by (rule close_step_inv)
qed

section \<open>What callers can rely on\<close>

text \<open>A run in which two goroutines close the wrapper at once: the second finds it closed.\<close>

definition raced :: closers where
  "raced = \<lparr>obj = new_nan0 ''svc'' 0, closeMux = None, entry = new_nan0 ''svc'' 0, pcs = (\<lambda>i. CIdle)\<rparr>"

lemma close_path:
  assumes "closeMux s = None" and "\<not> closed (obj s)"
  shows "pcs s i = CWantLock MClose \<Longrightarrow>
      close_step\<^sup>*\<^sup>* s \<lparr>obj = (obj s)\<lparr>signaler := SigDeadline, closed := True, connOpen := False\<rparr>,
        closeMux = None, entry = obj s, pcs = (pcs s)(i := CDone)\<rparr>"
    (is "_ \<Longrightarrow> close_step\<^sup>*\<^sup>* s ?t")
proof -
  assume at: "pcs s i = CWantLock MClose"
  let ?at = "\<lambda>n pc. \<lparr>obj = n, closeMux = Some i, entry = obj s, pcs = (pcs s)(i := pc)\<rparr>"
  let ?n1 = "(obj s)\<lparr>signaler := SigDeadline\<rparr>" and ?n2 = "(obj s)\<lparr>signaler := SigDeadline, closed := True\<rparr>"
  let ?n3 = "?n2\<lparr>connOpen := False\<rparr>"
  have "s\<lparr>closeMux := Some i, entry := obj s, pcs := (pcs s)(i := CTest MClose)\<rparr> = ?at (obj s) (CTest MClose)"
    by (rule closers.equality) simp_all
  then have "close_step s (?at (obj s) (CTest MClose))"
    using lock [OF at assms(1)] by metis
  moreover have "close_step (?at (obj s) (CTest MClose)) (?at (obj s) (CPassed MClose))"
    using test_open [of "?at (obj s) (CTest MClose)" i] assms(2) by (simp add: IsClosed_def)
  moreover have "close_step (?at (obj s) (CPassed MClose)) (?at ?n1 (CStarted MClose))"
    using start_signaler [of "?at (obj s) (CPassed MClose)" i] by simp
  moreover have "close_step (?at ?n1 (CStarted MClose)) (?at ?n2 (CClosedChan MClose))"
    using close_chan [of "?at ?n1 (CStarted MClose)" i] assms(2) by simp
  moreover have "close_step (?at ?n2 (CClosedChan MClose)) (?at ?n3 (CUnlock MClose))"
    using close_conn [of "?at ?n2 (CClosedChan MClose)" i] by simp
  moreover have "close_step (?at ?n3 (CUnlock MClose)) ?t"
    using unlock [of "?at ?n3 (CUnlock MClose)" i] by simp
  ultimately show ?thesis
    by (meson converse_rtranclp_into_rtranclp rtranclp.rtrancl_refl)
qed

text \<open>
  C10. However many goroutines call \<open>Close\<close> and \<open>softClose\<close> on one wrapper, and however
  their steps interleave: none of them closes the channel \<open>closed\<close> a second time (a panic
  that nothing would recover), at most one is inside the mutex, every call that has returned
  has left the wrapper closed, and what a call did, seen when it unlocks, is what the method
  does when it runs alone from the wrapper it found.
\<close>

theorem concurrent_closing_safe:
  assumes "reach close_start close_step s"
  shows "pcs s i \<noteq> CCrashed \<and>
         (in_critical (pcs s i) \<and> in_critical (pcs s j) \<longrightarrow> i = j) \<and>
         (pcs s i = CDone \<longrightarrow> IsClosed (obj s)) \<and>
         (pcs s i = CUnlock m \<longrightarrow> run_method m (entry s) = Ret (obj s))"
proof -
  have inv: "close_inv s"
    by (rule close_machine.reach_inv [OF assms])
  show ?thesis
    using close_invD [OF inv, of i] close_invD(1) [OF inv, of j] by (auto simp: IsClosed_def)
qed

theorem concurrent_closing_safe_witness:
  "\<exists>s. reach close_start close_step s \<and> pcs s 0 = CDone \<and> pcs s 1 = CWantLock MSoftClose \<and>
       IsClosed (obj s)"
proof -
  let ?s = "raced\<lparr>pcs := (pcs raced)(0 := CWantLock MClose, 1 := CWantLock MSoftClose)\<rparr>"
  let ?t = "\<lparr>obj = (obj ?s)\<lparr>signaler := SigDeadline, closed := True, connOpen := False\<rparr>,
             closeMux = None, entry = obj ?s, pcs = (pcs ?s)(0 := CDone)\<rparr>"
  have "reach close_start close_step raced"
    by (rule reach_start) (simp add: raced_def close_start_def new_nan0_def)
  moreover have "close_step raced (raced\<lparr>pcs := (pcs raced)(0 := CWantLock MClose)\<rparr>)"
    by (rule call) (simp add: raced_def)
  moreover have "close_step (raced\<lparr>pcs := (pcs raced)(0 := CWantLock MClose)\<rparr>) ?s"
    using call [of "raced\<lparr>pcs := (pcs raced)(0 := CWantLock MClose)\<rparr>" 1 MSoftClose]
    by (simp add: raced_def)
  ultimately have "reach close_start close_step ?s"
    by (blast intro: reach_step)
  moreover have "close_step\<^sup>*\<^sup>* ?s ?t"
    by (rule close_path) (simp_all add: raced_def new_nan0_def)
  ultimately have "reach close_start close_step ?t"
    by (rule reach_steps)
  from this concurrent_closing_safe [OF this, of 0] show ?thesis
    by (intro exI [of _ ?t]) (simp add: raced_def)
qed

text \<open>
  A wrapper that was softly closed cannot be closed any more: \<open>Close\<close> finds it closed and
  returns before \<^verbatim>\<open>n.conn.Close()\<close>, so the connection below it stays as it was. The server
  does call both, in this order, on a connection whose handshake failed.
\<close>

lemma close_after_softClose_keeps_connection:
  assumes "\<not> IsClosed n"
  shows "\<exists>n'. softClose n = Ret n' \<and> go_bind (softClose n) Close = Ret n' \<and>
              IsClosed n' \<and> connOpen n' = connOpen n"
  using assms by (simp add: softClose_Ret Close_Ret IsClosed_def)

end
