(* ===== verification/Nan0_Conn.thy ===== *)
theory Nan0_Conn
  imports Nan0_Frame_Props Nan0_Close
begin

text \<open>
  A TCP wrapper at work: \<open>wrapConnectionTcp\<close> of \<^verbatim>\<open>nanoBuilder.go\<close> and the goroutines it
  starts, \<open>startServiceReceiver\<close>, \<open>startServiceSender\<close> (\<^verbatim>\<open>nan0.go\<close>), the idle watch
  and the goroutine of \<open>closeLogic\<close>, as a step relation on \<open>conn_state\<close>.

  One step is one action of one goroutine between two points where another could interfere: a
  channel operation, an operation on the connection, a call of \<open>Close\<close>. A whole receive
  (\<open>getMessageFromConnection\<close>) is one step, and a whole send another: only the receiver reads
  from the connection and only the sender writes to it. Where the outcome is the network's,
  the step has it as a parameter: the segments that have arrived and the error that follows
  them, the writer. Every iteration of the receiver makes a new buffered reader, as the code
  does; what the old one still held is gone.

  A value in the sender's channel that is not a protobuf message is \<open>None\<close>. A route is code of
  the library's user: \<open>cfg_execute\<close> says which values it puts in the sender's channel and
  whether it panics after that.
\<close>

section \<open>Configuration and state\<close>

record ('m, 'r) conn_cfg =
  cfg_api :: "'m proto_api"
  cfg_width :: nat
  cfg_rmap :: "'r RouteMap"
  cfg_identMap :: "int \<rightharpoonup> 'm option"
  cfg_inverseMap :: "string \<rightharpoonup> int"
  cfg_writeDeadline :: bool
  cfg_encKey :: "bytes option"
  cfg_hmacKey :: "bytes option"
  cfg_recvCap :: nat
  cfg_sendCap :: nat
  cfg_idle :: int
  cfg_execute :: "'r \<Rightarrow> 'm ExecutableRoute"

datatype 'm reader_pc =
    RStart
  | RLoop
  | RArm
  | RRead
  | RExec "'m option list" "panic_value option"
  | RDeliver 'm
  | RStamp
  | RExit
  | RDone

datatype 'm sender_pc = SStart | SLoop | SPut "'m option" | SExit | SDone

datatype idle_pc = IWatch | IExit | IDone

text \<open>
  \<open>arrived\<close> are the segments in the connection's receive queue, \<open>out\<close> the bytes written,
  \<open>tape\<close> the random bytes still to be drawn. The last four fields only record: the messages
  received and those taken from the receiver's channel, the values put in the sender's channel
  and the messages sent, each oldest first.
\<close>

record 'm conn_state =
  arrived :: "bytes list"
  out :: bytes
  tape :: bytes
  wrapper :: nan0
  recv_q :: "'m list"
  send_q :: "'m option list"
  reader :: "'m reader_pc"
  sender :: "'m sender_pc"
  idle :: idle_pc
  now :: int
  got :: "'m list"
  taken :: "'m list"
  queued :: "'m option list"
  sent :: "'m option list"

section \<open>Wrapping a connection\<close>

definition wrapped :: "string \<Rightarrow> int \<Rightarrow> bytes \<Rightarrow> 'm conn_state" where
  "wrapped name t tp =
     \<lparr>arrived = [], out = [], tape = tp, wrapper = new_nan0 name t, recv_q = [], send_q = [],
      reader = RStart, sender = SStart, idle = IWatch, now = t, got = [], taken = [],
      queued = [], sent = []\<rparr>"

text \<open>
  \<open>wrapConnectionTcp\<close> returns the running wrapper (its configuration and first state), or nil
  and an error when a channel cannot be made. It also corrects the builder's idle duration.
\<close>

definition wrapConnectionTcp ::
    "'m proto_api \<Rightarrow> nat \<Rightarrow> ('r \<Rightarrow> 'm ExecutableRoute) \<Rightarrow> int \<Rightarrow> bytes \<Rightarrow>
     bytes option \<Rightarrow> bytes option \<Rightarrow> ('m, 'r) baseBuilder \<Rightarrow>
     ((('m, 'r) conn_cfg \<times> 'm conn_state) option \<times> go_error option) \<times> ('m, 'r) baseBuilder" where
  "wrapConnectionTcp P w execute t tp encKey hmac =
     act_deferred (recoverPanic (Some (\<lambda>e r. (None, Some e)))) (None, None)
       (act_bind (\<lambda>bb. (makeReceiveChannelFromBuilder bb, bb)) (\<lambda>rc.
        act_bind (\<lambda>bb. (makeSendChannelFromBuilder bb, bb)) (\<lambda>sc.
        act_bind (\<lambda>bb. (Ret (), if txRxIdleDuration bb \<le> 0
                               then bb\<lparr>txRxIdleDuration := defaultTxRxIdleDuration\<rparr> else bb)) (\<lambda>_ bb.
        (Ret (Some
           (\<lparr>cfg_api = P, cfg_width = w, cfg_rmap = routes bb, cfg_identMap = messageIdentMap bb,
             cfg_inverseMap = inverseIdentMap bb, cfg_writeDeadline = writeDeadlineActive bb,
             cfg_encKey = encKey, cfg_hmacKey = hmac, cfg_recvCap = rc, cfg_sendCap = sc,
             cfg_idle = txRxIdleDuration bb, cfg_execute = execute\<rparr>,
            wrapped (ServiceName (ns bb)) t tp), None), bb)))))"

section \<open>The receiver\<close>

text \<open>What a read of the connection meets: a closed connection or a passed deadline fails at once.\<close>

definition closed_conn_error :: go_error where
  "closed_conn_error = ErrText ''use of closed network connection''"

definition readable :: "nan0 \<Rightarrow> bool" where
  "readable n \<longleftrightarrow> connOpen n \<and> readDeadline n \<noteq> PastDeadline"

definition conn_view :: "'m conn_state \<Rightarrow> go_error \<Rightarrow> netin" where
  "conn_view s e =
     (if readable (wrapper s) then \<lparr>segments = arrived s, fin = e\<rparr>
      else \<lparr>segments = [], fin = if connOpen (wrapper s) then ErrText ''i/o timeout'' else closed_conn_error\<rparr>)"

definition receive ::
    "('m, 'r) conn_cfg \<Rightarrow> netin \<Rightarrow> ('m option \<times> go_error option) \<times> bufreader" where
  "receive C c =
     getMessageFromConnection bufio_Read (cfg_api C) (cfg_width C) (cfg_identMap C)
       (cfg_encKey C) (cfg_hmacKey C) (bufio_NewReader c)"

text \<open>The mapped route, or the default route, or none: then the message goes to the channel.\<close>

definition route_for :: "(string \<rightharpoonup> 'r) \<Rightarrow> string \<Rightarrow> 'r option" where
  "route_for rmap name =
     (case rmap name of
        Some exec \<Rightarrow> Some exec
      | None \<Rightarrow> (case rmap DefaultRoute of Some exec \<Rightarrow> Some exec | None \<Rightarrow> None))"

definition after_receive ::
    "('m, 'r) conn_cfg \<Rightarrow> 'm option \<times> go_error option \<Rightarrow> 'm reader_pc" where
  "after_receive C r =
     (case r of (newMsg, err) \<Rightarrow>
        if err \<noteq> None \<and> newMsg = None then RExit
        else (case newMsg of
                None \<Rightarrow> RLoop
              | Some m \<Rightarrow>
                  (case route_for (cfg_rmap C) (getProtobufMessageName (cfg_api C) newMsg) of
                     Some exec \<Rightarrow> (case cfg_execute C exec m of (xs, p) \<Rightarrow> RExec xs p)
                   | None \<Rightarrow> RDeliver m)))"

text \<open>
  Putting a value in the sender's channel: into its buffer, or, without a buffer, straight to
  the waiting sender.
\<close>

inductive put_sender :: "('m, 'r) conn_cfg \<Rightarrow> 'm option \<Rightarrow> 'm conn_state \<Rightarrow> 'm conn_state \<Rightarrow> bool"
  for C :: "('m, 'r) conn_cfg" and x :: "'m option" where
  put_buffer: "length (send_q s) < cfg_sendCap C \<Longrightarrow>
     put_sender C x s (s\<lparr>send_q := send_q s @ [x], queued := queued s @ [x]\<rparr>)"
| put_direct: "cfg_sendCap C = 0 \<Longrightarrow> sender s = SLoop \<Longrightarrow>
     put_sender C x s (s\<lparr>sender := SPut x, queued := queued s @ [x]\<rparr>)"

inductive reader_step :: "('m, 'r) conn_cfg \<Rightarrow> 'm conn_state \<Rightarrow> 'm conn_state \<Rightarrow> bool"
  for C :: "('m, 'r) conn_cfg" where
  r_start: "reader s = RStart \<Longrightarrow>
     reader_step C s (s\<lparr>reader := if IsClosed (wrapper s) then RExit else RLoop\<rparr>)"
| r_shutdown: "reader s = RLoop \<Longrightarrow> 0 < readerShutdown (wrapper s) \<Longrightarrow>
     reader_step C s (s\<lparr>reader := RExit,
       wrapper := (wrapper s)\<lparr>readerShutdown := readerShutdown (wrapper s) - 1\<rparr>\<rparr>)"
| r_default: "reader s = RLoop \<Longrightarrow> readerShutdown (wrapper s) = 0 \<Longrightarrow>
     reader_step C s (s\<lparr>reader := RArm\<rparr>)"
| r_arm: "reader s = RArm \<Longrightarrow> connOpen (wrapper s) \<Longrightarrow>
     reader_step C s (s\<lparr>reader := RRead, wrapper := (wrapper s)\<lparr>readDeadline := FutureDeadline\<rparr>\<rparr>)"
| r_arm_failed: "reader s = RArm \<Longrightarrow> \<not> connOpen (wrapper s) \<Longrightarrow>
     reader_step C s (s\<lparr>reader := RExit\<rparr>)"
| r_read: "reader s = RRead \<Longrightarrow> e = EOF \<or> e = ErrNet k \<Longrightarrow>
     receive C (conn_view s e) = ((newMsg, err), b) \<Longrightarrow>
     reader_step C s (s\<lparr>reader := after_receive C (newMsg, err),
       arrived := if readable (wrapper s) then segments (rd b) else arrived s,
       got := got s @ (case newMsg of None \<Rightarrow> [] | Some m \<Rightarrow> [m])\<rparr>)"
| r_exec: "reader s = RExec (x # xs) p \<Longrightarrow> put_sender C x s s' \<Longrightarrow>
     reader_step C s (s'\<lparr>reader := RExec xs p\<rparr>)"
| r_exec_done: "reader s = RExec [] None \<Longrightarrow> reader_step C s (s\<lparr>reader := RStamp\<rparr>)"
| r_exec_panic: "reader s = RExec [] (Some p) \<Longrightarrow> reader_step C s (s\<lparr>reader := RExit\<rparr>)"
| r_deliver: "reader s = RDeliver m \<Longrightarrow> length (recv_q s) < cfg_recvCap C \<Longrightarrow>
     reader_step C s (s\<lparr>reader := RStamp, recv_q := recv_q s @ [m]\<rparr>)"
| r_stamp: "reader s = RStamp \<Longrightarrow> reader_step C s (s\<lparr>reader := RLoop\<rparr>)"
| r_close: "reader s = RExit \<Longrightarrow> Close (wrapper s) = Ret n \<Longrightarrow>
     reader_step C s (s\<lparr>reader := RDone, wrapper := n\<rparr>)"

text \<open>
  \<open>r_stamp\<close> is \<^verbatim>\<open>n.lastTxRx = time.Now()\<close>: the receiver's \<open>n\<close> is a copy of the wrapper, so
  the wrapper itself keeps its time.
\<close>

section \<open>The sender\<close>

text \<open>
  What a write meets: any writer that keeps the contract of \<open>io.Writer\<close> (a short write is an
  error), and on a closed connection one that fails.
\<close>

definition writer_ok :: "nan0 \<Rightarrow> writer \<Rightarrow> bool" where
  "writer_ok n wr \<longleftrightarrow>
     (\<forall>bs. fst (wr bs) \<le> length bs \<and> (fst (wr bs) < length bs \<longrightarrow> snd (wr bs) \<noteq> None)) \<and>
     (\<not> connOpen n \<longrightarrow> (\<forall>bs. wr bs = (0, Some closed_conn_error)))"

text \<open>One message: the write deadline, the type assertion, the send; an error ends the sender.\<close>

definition send_one ::
    "('m, 'r) conn_cfg \<Rightarrow> writer \<Rightarrow> nan0 \<Rightarrow> 'm option \<Rightarrow> (send_state, unit) act" where
  "send_one C wr n x =
     (if cfg_writeDeadline C \<and> \<not> connOpen n then act_lift (checkError (Some closed_conn_error))
      else case x of
        None \<Rightarrow> act_lift (Panic (PanicErr (ErrRuntime ''interface conversion'')))
      | Some m \<Rightarrow>
          act_bind (act_of (putMessageInConnection wr (cfg_api C) (cfg_width C) (Some m)
                              (cfg_inverseMap C) (cfg_encKey C) (cfg_hmacKey C)))
            (\<lambda>err. act_lift (checkError err)))"

inductive sender_step :: "('m, 'r) conn_cfg \<Rightarrow> 'm conn_state \<Rightarrow> 'm conn_state \<Rightarrow> bool"
  for C :: "('m, 'r) conn_cfg" where
  s_start: "sender s = SStart \<Longrightarrow>
     sender_step C s (s\<lparr>sender := if IsClosed (wrapper s) then SExit else SLoop\<rparr>)"
| s_shutdown: "sender s = SLoop \<Longrightarrow> 0 < writerShutdown (wrapper s) \<Longrightarrow>
     sender_step C s (s\<lparr>sender := SExit,
       wrapper := (wrapper s)\<lparr>writerShutdown := writerShutdown (wrapper s) - 1\<rparr>\<rparr>)"
| s_take: "sender s = SLoop \<Longrightarrow> send_q s = x # xs \<Longrightarrow>
     sender_step C s (s\<lparr>sender := SPut x, send_q := xs\<rparr>)"
| s_put: "sender s = SPut x \<Longrightarrow> writer_ok (wrapper s) wr \<Longrightarrow>
     send_one C wr (wrapper s) x (tape s, out s) = (Ret u, (tp, o')) \<Longrightarrow>
     sender_step C s (s\<lparr>sender := SLoop, tape := tp, out := o', sent := sent s @ [x],
       wrapper := (wrapper s)\<lparr>lastTxRx := now s\<rparr>\<rparr>)"
| s_put_failed: "sender s = SPut x \<Longrightarrow> writer_ok (wrapper s) wr \<Longrightarrow>
     send_one C wr (wrapper s) x (tape s, out s) = (Panic p, (tp, o')) \<Longrightarrow>
     sender_step C s (s\<lparr>sender := SExit, tape := tp, out := o'\<rparr>)"
| s_close: "sender s = SExit \<Longrightarrow> Close (wrapper s) = Ret n \<Longrightarrow>
     sender_step C s (s\<lparr>sender := SDone, wrapper := n\<rparr>)"

section \<open>The closing goroutine, the idle watch, the user, the network\<close>

inductive signaler_step :: "'m conn_state \<Rightarrow> 'm conn_state \<Rightarrow> bool" where
  g_deadline: "signaler (wrapper s) = SigDeadline \<Longrightarrow>
     signaler_step s (s\<lparr>wrapper := (wrapper s)\<lparr>signaler := SigReader,
       readDeadline := if connOpen (wrapper s) then PastDeadline else readDeadline (wrapper s)\<rparr>\<rparr>)"
| g_reader: "signaler (wrapper s) = SigReader \<Longrightarrow> readerShutdown (wrapper s) < 1 \<Longrightarrow>
     signaler_step s (s\<lparr>wrapper := (wrapper s)\<lparr>signaler := SigWriter,
       readerShutdown := readerShutdown (wrapper s) + 1\<rparr>\<rparr>)"
| g_writer: "signaler (wrapper s) = SigWriter \<Longrightarrow> writerShutdown (wrapper s) < 1 \<Longrightarrow>
     signaler_step s (s\<lparr>wrapper := (wrapper s)\<lparr>signaler := SigDone,
       writerShutdown := writerShutdown (wrapper s) + 1\<rparr>\<rparr>)"

text \<open>
  The idle watch is \<open>CheckAndDoWithDuration\<close>; its check may come at any time here (when exactly
  is the subject of \<open>Nan0_Signals\<close>).
\<close>

inductive idle_step :: "('m, 'r) conn_cfg \<Rightarrow> 'm conn_state \<Rightarrow> 'm conn_state \<Rightarrow> bool"
  for C :: "('m, 'r) conn_cfg" where
  i_expired: "idle s = IWatch \<Longrightarrow> \<not> now s < LastComm (wrapper s) + cfg_idle C \<Longrightarrow>
     idle_step C s (s\<lparr>idle := IExit\<rparr>)"
| i_close: "idle s = IExit \<Longrightarrow> Close (wrapper s) = Ret n \<Longrightarrow>
     idle_step C s (s\<lparr>idle := IDone, wrapper := n\<rparr>)"

text \<open>The user takes messages, sends values and closes; the network delivers; time passes.\<close>

inductive user_step :: "('m, 'r) conn_cfg \<Rightarrow> 'm conn_state \<Rightarrow> 'm conn_state \<Rightarrow> bool"
  for C :: "('m, 'r) conn_cfg" where
  u_recv: "recv_q s = m # ms \<Longrightarrow>
     user_step C s (s\<lparr>recv_q := ms, taken := taken s @ [m]\<rparr>)"
| u_recv_direct: "cfg_recvCap C = 0 \<Longrightarrow> reader s = RDeliver m \<Longrightarrow>
     user_step C s (s\<lparr>reader := RStamp, taken := taken s @ [m]\<rparr>)"
| u_send: "put_sender C x s s' \<Longrightarrow> user_step C s s'"
| u_close: "run_method meth (wrapper s) = Ret n \<Longrightarrow> user_step C s (s\<lparr>wrapper := n\<rparr>)"

inductive net_step :: "'m conn_state \<Rightarrow> 'm conn_state \<Rightarrow> bool" where
  n_arrive: "net_step s (s\<lparr>arrived := arrived s @ [seg]\<rparr>)"
| n_time: "0 \<le> d \<Longrightarrow> net_step s (s\<lparr>now := now s + d\<rparr>)"

inductive conn_step :: "('m, 'r) conn_cfg \<Rightarrow> 'm conn_state \<Rightarrow> 'm conn_state \<Rightarrow> bool"
  for C :: "('m, 'r) conn_cfg" where
  c_reader: "reader_step C s t \<Longrightarrow> conn_step C s t"
| c_sender: "sender_step C s t \<Longrightarrow> conn_step C s t"
| c_signaler: "signaler_step s t \<Longrightarrow> conn_step C s t"
| c_idle: "idle_step C s t \<Longrightarrow> conn_step C s t"
| c_user: "user_step C s t \<Longrightarrow> conn_step C s t"
| c_net: "net_step s t \<Longrightarrow> conn_step C s t"

definition conn_start :: "string \<Rightarrow> int \<Rightarrow> bytes \<Rightarrow> 'm conn_state \<Rightarrow> bool" where
  "conn_start name t0 tp s \<longleftrightarrow> s = wrapped name t0 tp"

end
