(* ===== verification/Nan0_Conn_Props.thy ===== *)
theory Nan0_Conn_Props
  imports Nan0_Conn Nan0_Messaging
begin

text \<open>
  The TCP wrapper at work: invariants of \<open>conn_step\<close>. \<open>wrapper_inv\<close> relates the flags, the
  shutdown signals and the goroutines' positions; \<open>queue_inv\<close> accounts for every message that
  was received or queued; \<open>wire_inv\<close> says that the bytes written are those of the sent
  messages sent one after the other; \<open>source_inv\<close> says where received messages come from;
  \<open>time_inv\<close> is about \<open>LastComm\<close>.
\<close>

section \<open>Flags, signals, positions\<close>

definition wrapper_inv :: "nan0 \<Rightarrow> bool" where
  "wrapper_inv n \<longleftrightarrow>
     (\<not> connOpen n \<longrightarrow> closed n) \<and>
     (signaler n = NotStarted \<longleftrightarrow> \<not> closed n) \<and>
     readerShutdown n \<le> 1 \<and> writerShutdown n \<le> 1 \<and>
     (signaler n \<in> {NotStarted, SigDeadline, SigReader} \<longrightarrow> readerShutdown n = 0) \<and>
     (signaler n \<noteq> SigDone \<longrightarrow> writerShutdown n = 0)"

definition flags_inv :: "'m conn_state \<Rightarrow> bool" where
  "flags_inv s \<longleftrightarrow>
     wrapper_inv (wrapper s) \<and>
     (reader s = RDone \<or> sender s = SDone \<or> idle s = IDone \<longrightarrow> closed (wrapper s))"

lemma wrapper_inv_new [simp]: "wrapper_inv (new_nan0 name t)"
  by (simp add: wrapper_inv_def new_nan0_def)

lemma wrapper_inv_irrelevant [simp]:
  "wrapper_inv (n\<lparr>readDeadline := d\<rparr>) = wrapper_inv n"
  "wrapper_inv (n\<lparr>lastTxRx := t\<rparr>) = wrapper_inv n"
  by (simp_all add: wrapper_inv_def)

text \<open>The moves of the shutdown signals.\<close>

lemma wrapper_inv_signals:
  assumes "wrapper_inv n"
  shows "0 < readerShutdown n \<Longrightarrow> wrapper_inv (n\<lparr>readerShutdown := readerShutdown n - 1\<rparr>)"
    and "0 < writerShutdown n \<Longrightarrow> wrapper_inv (n\<lparr>writerShutdown := writerShutdown n - 1\<rparr>)"
    and "signaler n = SigDeadline \<Longrightarrow> wrapper_inv (n\<lparr>signaler := SigReader, readDeadline := d\<rparr>)"
    and "signaler n = SigReader \<Longrightarrow>
      wrapper_inv (n\<lparr>signaler := SigWriter, readerShutdown := readerShutdown n + 1\<rparr>)"
    and "signaler n = SigWriter \<Longrightarrow>
      wrapper_inv (n\<lparr>signaler := SigDone, writerShutdown := writerShutdown n + 1\<rparr>)"
  using assms by (auto simp: wrapper_inv_def)

lemma wrapper_inv_Close:
  assumes "wrapper_inv n" and "run_method m n = Ret n'"
  shows "wrapper_inv n' \<and> closed n'"
proof (cases "closed n")
  case True
  with assms show ?thesis by (cases m) (simp_all add: Close_Ret softClose_Ret)
next
  case False
  with assms(1) have n: "readerShutdown n = 0" "writerShutdown n = 0"
    by (auto simp: wrapper_inv_def)
  from False assms(2) have "closed n' \<and> signaler n' = SigDeadline \<and> readerShutdown n' = readerShutdown n
      \<and> writerShutdown n' = writerShutdown n"
    by (cases m) (auto simp: Close_Ret softClose_Ret)
  with n show ?thesis by (simp add: wrapper_inv_def)
qed

lemma put_sender_cases:
  assumes "put_sender C x s t"
  obtains "t = s\<lparr>send_q := send_q s @ [x], queued := queued s @ [x]\<rparr>"
      and "length (send_q s) < cfg_sendCap C"
  | "t = s\<lparr>sender := SPut x, queued := queued s @ [x]\<rparr>" and "cfg_sendCap C = 0" and "sender s = SLoop"
  using assms by (cases rule: put_sender.cases) auto

lemma after_receive_not_done [simp]: "after_receive C r \<noteq> RDone"
  by (auto simp: after_receive_def split: prod.splits option.splits)

lemma flags_inv_put: "put_sender C x s t \<Longrightarrow> flags_inv s \<Longrightarrow> flags_inv t"
  by (erule put_sender_cases) (auto simp: flags_inv_def)

lemma flags_inv_reader: "reader_step C s t \<Longrightarrow> flags_inv s \<Longrightarrow> flags_inv t"
proof (induction rule: reader_step.induct)
  case (r_exec s x xs p s')
  then have "flags_inv s'" by (blast intro: flags_inv_put)
  then show ?case by (simp add: flags_inv_def)
next
  case (r_close s n)
  with wrapper_inv_Close [of "wrapper s" MClose n] show ?case by (simp add: flags_inv_def)
next
  case (r_shutdown s)
  then show ?case using wrapper_inv_signals(1) [of "wrapper s"] by (simp add: flags_inv_def)
qed (simp_all add: flags_inv_def)

lemma flags_inv_sender: "sender_step C s t \<Longrightarrow> flags_inv s \<Longrightarrow> flags_inv t"
proof (induction rule: sender_step.induct)
  case (s_close s n)
  with wrapper_inv_Close [of "wrapper s" MClose n] show ?case by (simp add: flags_inv_def)
next
  case (s_shutdown s)
  then show ?case using wrapper_inv_signals(2) [of "wrapper s"] by (simp add: flags_inv_def)
qed (simp_all add: flags_inv_def)

lemma flags_inv_step: "conn_step C s t \<Longrightarrow> flags_inv s \<Longrightarrow> flags_inv t"
proof (induction rule: conn_step.induct)
  case (c_reader s t)
  then show ?case by (rule flags_inv_reader)
next
  case (c_sender s t)
  then show ?case by (rule flags_inv_sender)
next
  case (c_signaler s t)
  then show ?case
    using wrapper_inv_signals(3-5) [of "wrapper s"] by cases (simp_all add: flags_inv_def)
next
  case (c_idle s t)
  then show ?case
  proof (cases rule: idle_step.cases)
    case (i_close n)
    with c_idle(2) wrapper_inv_Close [of "wrapper s" MClose n] show ?thesis
      by (simp add: flags_inv_def)
  qed (auto simp: flags_inv_def)
next
  case (c_user s t)
  then show ?case
  proof (cases rule: user_step.cases)
    case (u_close meth n)
    with c_user(2) wrapper_inv_Close [of "wrapper s" meth n] show ?thesis
      by (simp add: flags_inv_def)
  next
    case (u_send x)
    with c_user(2) show ?thesis by (blast intro: flags_inv_put)
  qed (auto simp: flags_inv_def)
next
  case (c_net s t)
  then show ?case by cases (auto simp: flags_inv_def)
qed

interpretation conn_flags: machine_invariant "conn_start name t0 tp" "conn_step C" flags_inv
  for name t0 tp C
  by unfold_locales (simp add: conn_start_def wrapped_def flags_inv_def, rule flags_inv_step)

section \<open>Nothing is lost or reordered on the way through the channels\<close>

definition unrouted :: "('m, 'r) conn_cfg \<Rightarrow> 'm \<Rightarrow> bool" where
  "unrouted C m \<longleftrightarrow> route_for (cfg_rmap C) (FullName (cfg_api C) m) = None"

fun delivering :: "'m reader_pc \<Rightarrow> 'm list" where
  "delivering (RDeliver m) = [m]"
| "delivering _ = []"

fun putting :: "'m sender_pc \<Rightarrow> 'm option list" where
  "putting (SPut x) = [x]"
| "putting _ = []"

definition sender_alive :: "'m sender_pc \<Rightarrow> bool" where
  "sender_alive pc \<longleftrightarrow> pc \<noteq> SExit \<and> pc \<noteq> SDone"

definition recv_inv :: "('m, 'r) conn_cfg \<Rightarrow> 'm conn_state \<Rightarrow> bool" where
  "recv_inv C s \<longleftrightarrow>
     length (recv_q s) \<le> cfg_recvCap C \<and>
     filter (unrouted C) (got s) = taken s @ recv_q s @ delivering (reader s)"

text \<open>Between the sent and the waiting values is the one being sent, or the one that failed.\<close>

definition send_inv :: "('m, 'r) conn_cfg \<Rightarrow> 'm conn_state \<Rightarrow> bool" where
  "send_inv C s \<longleftrightarrow>
     length (send_q s) \<le> cfg_sendCap C \<and>
     (\<exists>mid. queued s = sent s @ mid @ send_q s \<and> length mid \<le> 1 \<and>
        (sender_alive (sender s) \<longrightarrow> mid = putting (sender s)))"

lemma after_receive_delivering:
  assumes "receive C c = ((mo, err), b)"
  shows "delivering (after_receive C (mo, err)) = filter (unrouted C) (case mo of None \<Rightarrow> [] | Some m \<Rightarrow> [m])"
  by (auto simp: after_receive_def unrouted_def split: option.splits prod.splits)

lemma put_sender_receiving:
  assumes "put_sender C x s t"
  shows "recv_q t = recv_q s" and "got t = got s" and "taken t = taken s" and "reader t = reader s"
    and "arrived t = arrived s" and "wrapper t = wrapper s" and "now t = now s" and "out t = out s"
    and "tape t = tape s" and "sent t = sent s" and "sender_alive (sender t) = sender_alive (sender s)"
  using assms by (auto simp: sender_alive_def elim!: put_sender_cases)

lemma send_inv_put: "put_sender C x s t \<Longrightarrow> send_inv C s \<Longrightarrow> send_inv C t"
  by (erule put_sender_cases) (auto simp: send_inv_def sender_alive_def)

lemma recv_inv_step: "conn_step C s t \<Longrightarrow> recv_inv C s \<Longrightarrow> recv_inv C t"
proof (induction rule: conn_step.induct)
  case (c_reader s t)
  then show ?case
  proof (cases rule: reader_step.cases)
    case (r_read e k newMsg err b)
    with c_reader(2) after_receive_delivering [OF r_read(4)] show ?thesis
      by (simp add: recv_inv_def)
  qed (auto simp: recv_inv_def put_sender_receiving)
next
  case (c_sender s t)
  then show ?case by cases (auto simp: recv_inv_def)
next
  case (c_signaler s t)
  then show ?case by cases (auto simp: recv_inv_def)
next
  case (c_idle s t)
  then show ?case by cases (auto simp: recv_inv_def)
next
  case (c_user s t)
  then show ?case by cases (auto simp: recv_inv_def put_sender_receiving)
next
  case (c_net s t)
  then show ?case by cases (auto simp: recv_inv_def)
qed

lemma send_inv_step: "conn_step C s t \<Longrightarrow> send_inv C s \<Longrightarrow> send_inv C t"
proof (induction rule: conn_step.induct)
  case (c_reader s t)
  then show ?case
  proof (cases rule: reader_step.cases)
    case (r_exec x xs p s')
    with c_reader(2) send_inv_put [of C x s s'] show ?thesis by (simp add: send_inv_def)
  qed (auto simp: send_inv_def)
next
  case (c_sender s t)
  then show ?case by cases (auto simp: send_inv_def sender_alive_def)
next
  case (c_signaler s t)
  then show ?case by cases (auto simp: send_inv_def)
next
  case (c_idle s t)
  then show ?case by cases (auto simp: send_inv_def)
next
  case (c_user s t)
  then show ?case
  proof (cases rule: user_step.cases)
    case (u_send x)
    with c_user(2) show ?thesis by (blast intro: send_inv_put)
  qed (auto simp: send_inv_def)
next
  case (c_net s t)
  then show ?case by cases (auto simp: send_inv_def)
qed

interpretation conn_recv: machine_invariant "conn_start name t0 tp" "conn_step C" "recv_inv C"
  for name t0 tp C
  by unfold_locales (simp add: conn_start_def wrapped_def recv_inv_def, rule recv_inv_step)

interpretation conn_send: machine_invariant "conn_start name t0 tp" "conn_step C" "send_inv C"
  for name t0 tp C
  by unfold_locales (simp add: conn_start_def wrapped_def send_inv_def, rule send_inv_step)

section \<open>The wire carries the sent messages, one after the other\<close>

text \<open>Sending a list of messages in turn on a connection that takes every byte.\<close>

fun send_all :: "('m, 'r) conn_cfg \<Rightarrow> 'm option list \<Rightarrow> send_state \<Rightarrow> send_state option" where
  "send_all C [] st = Some st"
| "send_all C (None # xs) st = None"
| "send_all C (Some m # xs) st =
     (case putMessageInConnection write_all (cfg_api C) (cfg_width C) (Some m) (cfg_inverseMap C)
             (cfg_encKey C) (cfg_hmacKey C) st of
        (None, st') \<Rightarrow> send_all C xs st'
      | (Some e, st') \<Rightarrow> None)"

lemma send_all_append:
  "send_all C (xs @ ys) st = (case send_all C xs st of None \<Rightarrow> None | Some st' \<Rightarrow> send_all C ys st')"
  by (induction C xs st rule: send_all.induct) (auto split: prod.splits option.splits)

lemma writer_okD:
  assumes "writer_ok n wr" and "wr bs = (k, None)"
  shows "k = length bs"
  using assms unfolding writer_ok_def by (metis fst_conv snd_conv le_neq_implies_less)

lemma write_frame_ok:
  assumes "writer_ok n wr" and "write_frame wr bs st = (Ret None, st')"
  shows "write_frame write_all bs st = (Ret None, st')"
  using assms(2) writer_okD [OF assms(1), of bs]
  by (cases "wr bs"; cases "snd (wr bs)"; cases st)
    (auto simp: write_frame_def write_all_def split: if_splits)

lemma write_frame_panic: "write_frame wr bs st = (Panic p, st') \<Longrightarrow> \<exists>e. p = PanicErr e"
  by (cases st; cases "wr bs"; cases "snd (wr bs)") (auto simp: write_frame_def split: if_splits)

lemma plain_frame_panic:
  assumes "plain_frame P w pb i = Panic p" shows "\<exists>e. p = PanicErr e"
proof -
  have "\<exists>e. q = PanicErr e" if "SizeWriter w k = Panic q" for k q
    using that by (auto simp: SizeWriter_def be_PutUint32_def index_panic_def Let_def split: if_splits)
  with assms show ?thesis
    by (cases "Marshal P pb"; cases "SizeWriter w i"; cases "SizeWriter w (int (length (projr (Marshal P pb))))")
      (auto simp: plain_frame_def Let_def)
qed

lemma putMessage_body_panic:
  assumes "putMessage_body wr P w pb im ek hk st = (Panic p, st')" shows "\<exists>e. p = PanicErr e"
proof (cases "im (getProtobufMessageName P pb)")
  case None
  with assms show ?thesis by (auto simp: putMessage_body_def)
next
  case (Some i)
  with assms show ?thesis
    by (auto simp: putMessage_body_def act_bind_def split: option.splits prod.splits go.splits
        dest: write_frame_panic plain_frame_panic)
qed

lemma putMessage_ok:
  assumes "writer_ok n wr" and "putMessageInConnection wr P w pb im ek hk st = (None, st')"
  shows "putMessageInConnection write_all P w pb im ek hk st = (None, st')"
proof -
  obtain r where r: "putMessage_body wr P w pb im ek hk st = (r, st')"
    using assms(2) by (auto simp: putMessageInConnection_def act_deferred_def split: prod.splits)
  have "r = Ret None"
  proof (cases r)
    case (Panic p)
    with r have "\<exists>e. p = PanicErr e" by (blast dest: putMessage_body_panic)
    with r Panic assms(2) show ?thesis by (auto simp: putMessageInConnection_def act_deferred_def)
  qed (use r assms(2) in \<open>auto simp: putMessageInConnection_def act_deferred_def\<close>)
  with r have "putMessage_body write_all P w pb im ek hk st = (Ret None, st')"
    by (auto simp: putMessage_body_def act_bind_def split: option.splits prod.splits go.splits
        dest: write_frame_ok [OF assms(1)])
  then show ?thesis by (simp add: putMessageInConnection_def act_deferred_def)
qed

lemma putMessage_writes:
  assumes "putMessageInConnection wr P w pb im ek hk (tp, o1) = (r, (tp', o2))"
  shows "\<exists>rest. o2 = o1 @ rest"
proof -
  have wf: "\<exists>rest. snd (snd (write_frame wr bs (tp', o1))) = o1 @ rest" for bs tp'
    by (cases "wr bs") (simp add: write_frame_def)
  have "\<exists>rest. snd (snd (putMessage_body wr P w pb im ek hk (tp, o1))) = o1 @ rest"
    using wf by (auto simp: putMessage_body_def act_bind_def act_lift_def split: option.splits prod.splits go.splits)
  with assms show ?thesis by (auto simp: putMessageInConnection_def act_deferred_def split: prod.splits)
qed

lemma send_one_Ret:
  assumes "writer_ok n wr" and "send_one C wr n x st = (Ret u, st')"
  shows "send_all C [x] st = Some st'"
  using assms(2)
  by (auto simp: send_one_def act_of_def checkError_def act_lift_def
      elim!: act_bind_RetE split: if_splits option.splits prod.splits
      dest!: putMessage_ok [OF assms(1)])

lemma send_one_writes:
  "send_one C wr n x (tp, o1) = (r, (tp', o2)) \<Longrightarrow> \<exists>rest. o2 = o1 @ rest"
  by (auto simp: send_one_def act_bind_def act_of_def act_lift_def dest: putMessage_writes
      split: if_splits option.splits prod.splits)

definition wire_inv :: "bytes \<Rightarrow> ('m, 'r) conn_cfg \<Rightarrow> 'm conn_state \<Rightarrow> bool" where
  "wire_inv tp C s \<longleftrightarrow>
     (\<exists>tp' o1 rest. send_all C (sent s) (tp, []) = Some (tp', o1) \<and> out s = o1 @ rest \<and>
        (sender_alive (sender s) \<longrightarrow> tape s = tp' \<and> rest = []))"

lemma wire_inv_same:
  assumes "wire_inv tp C s" and "sent t = sent s" and "out t = out s" and "tape t = tape s"
    and "sender_alive (sender t) \<longrightarrow> sender_alive (sender s)"
  shows "wire_inv tp C t"
  using assms by (auto simp: wire_inv_def)

lemma wire_inv_sender:
  assumes "sender_step C s t" and inv: "wire_inv tp C s" shows "wire_inv tp C t"
  using assms(1)
proof (cases rule: sender_step.cases)
  case (s_put x wr u tp2 o2)
  from s_put(2) have "sender_alive (sender s)" by (simp add: sender_alive_def)
  with inv have "send_all C (sent s) (tp, []) = Some (tape s, out s)" by (auto simp: wire_inv_def)
  with send_one_Ret [OF s_put(3,4)] s_put(1) show ?thesis
    by (simp add: wire_inv_def send_all_append)
next
  case (s_put_failed x wr p tp2 o2)
  from s_put_failed(2) have "sender_alive (sender s)" by (simp add: sender_alive_def)
  with inv have "send_all C (sent s) (tp, []) = Some (tape s, out s)" by (auto simp: wire_inv_def)
  with send_one_writes [OF s_put_failed(4)] s_put_failed(1) show ?thesis
    by (auto simp: wire_inv_def sender_alive_def)
qed (auto intro!: wire_inv_same [OF inv] simp: sender_alive_def)

lemma wire_inv_step: "conn_step C s t \<Longrightarrow> wire_inv tp C s \<Longrightarrow> wire_inv tp C t"
proof (induction rule: conn_step.induct)
  case (c_reader s t)
  from c_reader(1) show ?case
    by cases (auto intro!: wire_inv_same [OF c_reader(2)] simp: put_sender_receiving)
next
  case (c_sender s t)
  then show ?case by (rule wire_inv_sender)
next
  case (c_signaler s t)
  from c_signaler(1) show ?case by cases (auto intro!: wire_inv_same [OF c_signaler(2)])
next
  case (c_idle s t)
  from c_idle(1) show ?case by cases (auto intro!: wire_inv_same [OF c_idle(2)])
next
  case (c_user s t)
  from c_user(1) show ?case
    by cases (auto intro!: wire_inv_same [OF c_user(2)] simp: put_sender_receiving)
next
  case (c_net s t)
  from c_net(1) show ?case by cases (auto intro!: wire_inv_same [OF c_net(2)])
qed

interpretation conn_wire: machine_invariant "conn_start name t0 tp" "conn_step C" "wire_inv tp C"
  for name t0 tp C
  by unfold_locales (simp add: conn_start_def wrapped_def wire_inv_def, rule wire_inv_step)

section \<open>Where received messages come from; the time of the last communication\<close>

definition source_inv :: "('m, 'r) conn_cfg \<Rightarrow> 'm conn_state \<Rightarrow> bool" where
  "source_inv C s \<longleftrightarrow> (\<forall>m \<in> set (got s). \<exists>c err b. receive C c = ((Some m, err), b))"

definition time_inv :: "int \<Rightarrow> 'm conn_state \<Rightarrow> bool" where
  "time_inv t0 s \<longleftrightarrow>
     LastComm (wrapper s) \<le> now s \<and> (sent s = [] \<longrightarrow> LastComm (wrapper s) = t0)"

lemma LastComm_simps [simp]:
  "LastComm (n\<lparr>lastTxRx := t\<rparr>) = t"
  "LastComm (n\<lparr>readDeadline := d\<rparr>) = LastComm n"
  "LastComm (n\<lparr>readerShutdown := k\<rparr>) = LastComm n"
  "LastComm (n\<lparr>writerShutdown := k\<rparr>) = LastComm n"
  "LastComm (n\<lparr>signaler := p\<rparr>) = LastComm n"
  by (simp_all add: LastComm_def)

lemma LastComm_close:
  "Close n = Ret n' \<Longrightarrow> LastComm n' = LastComm n"
  "run_method m n = Ret n' \<Longrightarrow> LastComm n' = LastComm n"
  by (cases m; auto simp: Close_Ret softClose_Ret LastComm_def split: if_splits)+

lemma source_inv_step: "conn_step C s t \<Longrightarrow> source_inv C s \<Longrightarrow> source_inv C t"
proof (induction rule: conn_step.induct)
  case (c_reader s t)
  then show ?case
    by cases (auto simp: source_inv_def put_sender_receiving split: option.splits)
next
  case (c_sender s t)
  then show ?case by cases (simp_all add: source_inv_def)
next
  case (c_signaler s t)
  then show ?case by cases (simp_all add: source_inv_def)
next
  case (c_idle s t)
  then show ?case by cases (simp_all add: source_inv_def)
next
  case (c_user s t)
  then show ?case by cases (simp_all add: source_inv_def put_sender_receiving)
next
  case (c_net s t)
  then show ?case by cases (simp_all add: source_inv_def)
qed

lemma time_inv_step: "conn_step C s t \<Longrightarrow> time_inv t0 s \<Longrightarrow> time_inv t0 t"
proof (induction rule: conn_step.induct)
  case (c_reader s t)
  then show ?case by cases (auto simp: time_inv_def put_sender_receiving LastComm_close)
next
  case (c_sender s t)
  then show ?case by cases (auto simp: time_inv_def LastComm_close)
next
  case (c_signaler s t)
  then show ?case by cases (auto simp: time_inv_def)
next
  case (c_idle s t)
  then show ?case by cases (auto simp: time_inv_def LastComm_close)
next
  case (c_user s t)
  then show ?case by cases (auto simp: time_inv_def put_sender_receiving LastComm_close)
next
  case (c_net s t)
  then show ?case by cases (auto simp: time_inv_def)
qed

interpretation conn_source: machine_invariant "conn_start name t0 tp" "conn_step C" "source_inv C"
  for name t0 tp C
  by unfold_locales (simp add: conn_start_def wrapped_def source_inv_def, rule source_inv_step)

interpretation conn_time: machine_invariant "conn_start name t0 tp" "conn_step C" "time_inv t0"
  for name t0 tp C
  by unfold_locales
    (simp add: conn_start_def wrapped_def time_inv_def new_nan0_def LastComm_def, rule time_inv_step)

end
