(* ===== verification/Nan0_Conn_Run.thy ===== *)
theory Nan0_Conn_Run
  imports Nan0_Conn_Props
begin

text \<open>
  Running the TCP wrapper: the step relation as an executable function of a chosen action
  (\<open>act_exec\<close>), sound for \<open>conn_step\<close>, so that concrete runs can be evaluated; and the run
  that ends the goroutines of a closed wrapper.
\<close>

section \<open>Executable steps\<close>

definition put_sender_exec :: "('m, 'r) conn_cfg \<Rightarrow> 'm option \<Rightarrow> 'm conn_state \<Rightarrow> 'm conn_state option" where
  "put_sender_exec C x s =
     (if length (send_q s) < cfg_sendCap C
      then Some (s\<lparr>send_q := send_q s @ [x], queued := queued s @ [x]\<rparr>)
      else if cfg_sendCap C = 0
      then (case sender s of SLoop \<Rightarrow> Some (s\<lparr>sender := SPut x, queued := queued s @ [x]\<rparr>) | _ \<Rightarrow> None)
      else None)"

definition close_exec :: "nan0 \<Rightarrow> nan0" where
  "close_exec n = (case Close n of Ret n' \<Rightarrow> n' | Panic p \<Rightarrow> n)"

fun reader_exec :: "('m, 'r) conn_cfg \<Rightarrow> go_error \<Rightarrow> 'm conn_state \<Rightarrow> 'm conn_state option" where
  "reader_exec C e s =
     (case reader s of
        RStart \<Rightarrow> Some (s\<lparr>reader := if IsClosed (wrapper s) then RExit else RLoop\<rparr>)
      | RLoop \<Rightarrow> Some (if 0 < readerShutdown (wrapper s)
          then s\<lparr>reader := RExit, wrapper := (wrapper s)\<lparr>readerShutdown := readerShutdown (wrapper s) - 1\<rparr>\<rparr>
          else s\<lparr>reader := RArm\<rparr>)
      | RArm \<Rightarrow> Some (if connOpen (wrapper s)
          then s\<lparr>reader := RRead, wrapper := (wrapper s)\<lparr>readDeadline := FutureDeadline\<rparr>\<rparr>
          else s\<lparr>reader := RExit\<rparr>)
      | RRead \<Rightarrow> (case receive C (conn_view s e) of ((newMsg, err), b) \<Rightarrow>
          Some (s\<lparr>reader := after_receive C (newMsg, err),
            arrived := if readable (wrapper s) then segments (rd b) else arrived s,
            got := got s @ (case newMsg of None \<Rightarrow> [] | Some m \<Rightarrow> [m])\<rparr>))
      | RExec xs p \<Rightarrow>
          (case xs of
             [] \<Rightarrow> Some (s\<lparr>reader := case p of None \<Rightarrow> RStamp | Some v \<Rightarrow> RExit\<rparr>)
           | x # ys \<Rightarrow> map_option (\<lambda>s'. s'\<lparr>reader := RExec ys p\<rparr>) (put_sender_exec C x s))
      | RDeliver m \<Rightarrow> if length (recv_q s) < cfg_recvCap C
          then Some (s\<lparr>reader := RStamp, recv_q := recv_q s @ [m]\<rparr>) else None
      | RStamp \<Rightarrow> Some (s\<lparr>reader := RLoop\<rparr>)
      | RExit \<Rightarrow> Some (s\<lparr>reader := RDone, wrapper := close_exec (wrapper s)\<rparr>)
      | RDone \<Rightarrow> None)"

text \<open>The writer of these runs takes every byte of an open connection. A signal comes first.\<close>

definition exec_writer :: "nan0 \<Rightarrow> writer" where
  "exec_writer n bs = (if connOpen n then write_all bs else (0, Some closed_conn_error))"

fun sender_exec :: "('m, 'r) conn_cfg \<Rightarrow> 'm conn_state \<Rightarrow> 'm conn_state option" where
  "sender_exec C s =
     (case sender s of
        SStart \<Rightarrow> Some (s\<lparr>sender := if IsClosed (wrapper s) then SExit else SLoop\<rparr>)
      | SLoop \<Rightarrow>
          if 0 < writerShutdown (wrapper s)
          then Some (s\<lparr>sender := SExit,
                 wrapper := (wrapper s)\<lparr>writerShutdown := writerShutdown (wrapper s) - 1\<rparr>\<rparr>)
          else (case send_q s of [] \<Rightarrow> None | x # xs \<Rightarrow> Some (s\<lparr>sender := SPut x, send_q := xs\<rparr>))
      | SPut x \<Rightarrow>
          (case send_one C (exec_writer (wrapper s)) (wrapper s) x (tape s, out s) of
             (Ret u, (tp, o')) \<Rightarrow> Some (s\<lparr>sender := SLoop, tape := tp, out := o', sent := sent s @ [x],
                 wrapper := (wrapper s)\<lparr>lastTxRx := now s\<rparr>\<rparr>)
           | (Panic p, (tp, o')) \<Rightarrow> Some (s\<lparr>sender := SExit, tape := tp, out := o'\<rparr>))
      | SExit \<Rightarrow> Some (s\<lparr>sender := SDone, wrapper := close_exec (wrapper s)\<rparr>)
      | SDone \<Rightarrow> None)"

fun signaler_exec :: "'m conn_state \<Rightarrow> 'm conn_state option" where
  "signaler_exec s =
     (case signaler (wrapper s) of
        SigDeadline \<Rightarrow> Some (s\<lparr>wrapper := (wrapper s)\<lparr>signaler := SigReader,
          readDeadline := if connOpen (wrapper s) then PastDeadline else readDeadline (wrapper s)\<rparr>\<rparr>)
      | SigReader \<Rightarrow> if readerShutdown (wrapper s) < 1
          then Some (s\<lparr>wrapper := (wrapper s)\<lparr>signaler := SigWriter,
                 readerShutdown := readerShutdown (wrapper s) + 1\<rparr>\<rparr>) else None
      | SigWriter \<Rightarrow> if writerShutdown (wrapper s) < 1
          then Some (s\<lparr>wrapper := (wrapper s)\<lparr>signaler := SigDone,
                 writerShutdown := writerShutdown (wrapper s) + 1\<rparr>\<rparr>) else None
      | _ \<Rightarrow> None)"

datatype 'm action =
    AReader go_error
  | ASender
  | ASignaler
  | URecv
  | USend "'m option"
  | UClose
  | NArrive bytes
  | NTime nat

fun act_exec :: "('m, 'r) conn_cfg \<Rightarrow> 'm action \<Rightarrow> 'm conn_state \<Rightarrow> 'm conn_state option" where
  "act_exec C (AReader e) s =
     (case e of EOF \<Rightarrow> reader_exec C e s | ErrNet k \<Rightarrow> reader_exec C e s | _ \<Rightarrow> None)"
| "act_exec C ASender s = sender_exec C s"
| "act_exec C ASignaler s = signaler_exec s"
| "act_exec C URecv s =
     (case recv_q s of [] \<Rightarrow> None | m # ms \<Rightarrow> Some (s\<lparr>recv_q := ms, taken := taken s @ [m]\<rparr>))"
| "act_exec C (USend x) s = put_sender_exec C x s"
| "act_exec C UClose s = Some (s\<lparr>wrapper := close_exec (wrapper s)\<rparr>)"
| "act_exec C (NArrive seg) s = Some (s\<lparr>arrived := arrived s @ [seg]\<rparr>)"
| "act_exec C (NTime d) s = Some (s\<lparr>now := now s + int d\<rparr>)"

fun run :: "('m, 'r) conn_cfg \<Rightarrow> 'm action list \<Rightarrow> 'm conn_state \<Rightarrow> 'm conn_state option" where
  "run C [] s = Some s"
| "run C (a # as) s = (case act_exec C a s of None \<Rightarrow> None | Some t \<Rightarrow> run C as t)"

lemma close_exec_Ret: "Close n = Ret (close_exec n)"
  by (simp add: close_exec_def Close_Ret)

lemma put_sender_exec_sound: "put_sender_exec C x s = Some t \<Longrightarrow> put_sender C x s t"
  by (auto simp: put_sender_exec_def intro: put_sender.intros split: if_splits sender_pc.splits)

lemma exec_writer_ok: "writer_ok n (exec_writer n)"
  by (simp add: writer_ok_def exec_writer_def write_all_def)

lemma reader_exec_sound:
  assumes "reader_exec C e s = Some t" and "e = EOF \<or> (\<exists>k. e = ErrNet k)"
  shows "reader_step C s t"
proof (cases "reader s")
  case RRead
  obtain r err b where r: "receive C (conn_view s e) = ((r, err), b)" by (metis prod.exhaust_sel)
  from assms(2) obtain k where "e = EOF \<or> e = ErrNet k" by blast
  from r_read [OF RRead this r] assms(1) r RRead show ?thesis by simp
next
  case (RExec xs p)
  with assms(1) show ?thesis
    by (cases xs; cases p)
      (auto intro: r_exec_done r_exec_panic r_exec dest: put_sender_exec_sound)
qed (use assms(1) r_start [of s C] r_shutdown [of s C] r_default [of s C] r_arm [of s C] r_arm_failed [of s C]
       r_deliver [of s _ C] r_stamp [of s C] r_close [OF _ close_exec_Ret, of s C]
     in \<open>auto split: if_splits\<close>)

lemma reader_can_read:
  assumes "reader s = RRead" obtains t where "reader_step C s t"
proof -
  obtain r err b where "receive C (conn_view s EOF) = ((r, err), b)" by (metis prod.exhaust_sel)
  from r_read [OF assms _ this] that show thesis by blast
qed

lemma sender_exec_sound:
  assumes "sender_exec C s = Some t" shows "sender_step C s t"
proof (cases "sender s")
  case (SPut x)
  obtain r tp o2 where r: "send_one C (exec_writer (wrapper s)) (wrapper s) x (tape s, out s) = (r, (tp, o2))"
    by (metis prod.exhaust_sel)
  from s_put [OF SPut exec_writer_ok] s_put_failed [OF SPut exec_writer_ok] r assms SPut show ?thesis
    by (cases r) auto
qed (use assms s_start [of s C] s_shutdown [of s C] s_take [of s _ _ C] s_close [OF _ close_exec_Ret, of s C]
     in \<open>auto split: if_splits list.splits\<close>)

lemma signaler_exec_sound: "signaler_exec s = Some t \<Longrightarrow> signaler_step s t"
  using g_deadline [of s] g_reader [of s] g_writer [of s]
  by (cases "signaler (wrapper s)") (auto split: if_splits)

lemma act_exec_sound:
  assumes "act_exec C a s = Some t" shows "conn_step C s t"
proof (cases a)
  case (AReader e)
  with assms have "reader_exec C e s = Some t" and "e = EOF \<or> (\<exists>k. e = ErrNet k)"
    by (cases e; simp del: reader_exec.simps)+
  then show ?thesis by (intro c_reader reader_exec_sound)
next
  case ASender
  with assms show ?thesis by (auto intro: c_sender sender_exec_sound simp del: sender_exec.simps)
next
  case ASignaler
  with assms show ?thesis by (auto intro: c_signaler signaler_exec_sound simp del: signaler_exec.simps)
next
  case UClose
  with assms u_close [where meth = MClose and s = s and C = C and n = "close_exec (wrapper s)"] show ?thesis
    by (auto intro: c_user simp: close_exec_Ret)
next
  case (NTime d)
  with assms n_time [of "int d" s] show ?thesis by (auto intro: c_net)
qed (use assms in \<open>auto intro: c_user c_net user_step.intros net_step.intros
       dest: put_sender_exec_sound split: list.splits\<close>)

lemma run_sound: "run C as s = Some t \<Longrightarrow> (conn_step C)\<^sup>*\<^sup>* s t"
  by (induction as arbitrary: s)
    (auto split: option.splits dest!: act_exec_sound intro: converse_rtranclp_into_rtranclp)

lemma run_reach: "run C as (wrapped name t0 tp) = Some t \<Longrightarrow> reach (conn_start name t0 tp) (conn_step C) t"
  by (rule reach_steps [OF reach_start run_sound]) (simp_all add: conn_start_def)

end
