(* ===== verification/Nan0_Conn_Claims.thy ===== *)
theory Nan0_Conn_Claims
  imports Nan0_Conn_Run
begin

text \<open>
  What a user of a TCP wrapper can rely on, in every state the wrapper, its peer and its user
  can bring about together, and what they cannot rely on.
\<close>

section \<open>Example runs\<close>

definition demo_cfg :: "bytes option \<Rightarrow> bytes option \<Rightarrow> (raw_message, unit) conn_cfg" where
  "demo_cfg ek hk =
     (let bb = one_type_builder (RawMessage CHR ''a'' ''b'' [])
      in \<lparr>cfg_api = raw_api, cfg_width = 4, cfg_rmap = Map.empty, cfg_identMap = messageIdentMap bb,
          cfg_inverseMap = inverseIdentMap bb, cfg_writeDeadline = False, cfg_encKey = ek,
          cfg_hmacKey = hk, cfg_recvCap = 1, cfg_sendCap = 1, cfg_idle = 300,
          cfg_execute = (\<lambda>r m. ([], None))\<rparr>)"

text \<open>One frame arrives and its message is taken by the user.\<close>

lemma one_message_run:
  assumes "receive C \<lparr>segments = [f], fin = EOF\<rparr> = ((Some m, None), b)"
    and "unrouted C m" and "0 < cfg_recvCap C"
  obtains s where "run C [AReader EOF, NArrive f, AReader EOF, AReader EOF, AReader EOF, AReader EOF, URecv]
      (wrapped name t0 tp) = Some s"
    and "taken s = [m]" and "got s = [m]" and "sent s = []" and "now s = t0" and "idle s = IWatch"
proof -
  have "after_receive C (Some m, None) = RDeliver m"
    using assms(2) by (simp add: after_receive_def unrouted_def)
  with assms show thesis
    by (intro that)
      (auto simp: wrapped_def new_nan0_def IsClosed_def conn_view_def readable_def split: option.splits)
qed

text \<open>
  C9. Messages pass through a wrapper's channels without loss, duplication or reordering. In
  every reachable state the received messages that have no route are, in order, those the user
  has taken, those in the receiver's channel and the one being delivered; and the values put in
  the sender's channel are those sent, at most one that is being sent or has failed, and those
  still waiting. The channels never hold more than their capacity.
\<close>

theorem channels_keep_messages:
  assumes "reach (conn_start name t0 tp) (conn_step C) s"
  shows "filter (unrouted C) (got s) = taken s @ recv_q s @ delivering (reader s) \<and>
         length (recv_q s) \<le> cfg_recvCap C \<and> length (send_q s) \<le> cfg_sendCap C \<and>
         (\<exists>mid. queued s = sent s @ mid @ send_q s \<and> length mid \<le> 1 \<and>
            (sender_alive (sender s) \<longrightarrow> mid = putting (sender s)))"
  using conn_recv.reach_inv [OF assms] conn_send.reach_inv [OF assms]
  by (simp add: recv_inv_def send_inv_def)

text \<open>
  C11. The bytes a wrapper has written are exactly what \<open>putMessageInConnection\<close> writes when it
  is called with the sent messages one after the other on an empty connection, each call
  succeeding; only after the sender has failed may a part of one more frame follow.
\<close>

theorem wire_is_sequential_sends:
  assumes "reach (conn_start name t0 tp) (conn_step C) s"
  shows "\<exists>tp' o1 rest. send_all C (sent s) (tp, []) = Some (tp', o1) \<and> out s = o1 @ rest \<and>
           (sender_alive (sender s) \<longrightarrow> tape s = tp' \<and> rest = [])"
  using conn_wire.reach_inv [OF assms] by (simp add: wire_inv_def)

definition demo_sends :: "raw_message conn_state option" where
  "demo_sends =
     run (demo_cfg None None)
       [ASender, USend (Some (RawMessage CHR ''a'' ''b'' [5])), ASender,
        USend (Some (RawMessage CHR ''a'' ''b'' [6])), ASender, ASender, AReader EOF,
        NArrive [1, 2, 3, 255, 3, 2, 1, 77, 37, 5, 202, 0, 0, 0, 1, 9], AReader EOF, AReader EOF, AReader EOF]
       (wrapped ''svc'' 0 [])"

lemma demo_sends_eval:
  "case demo_sends of None \<Rightarrow> False | Some s \<Rightarrow>
       sent s = [Some (RawMessage CHR ''a'' ''b'' [5])]
     \<and> sender s = SPut (Some (RawMessage CHR ''a'' ''b'' [6]))
     \<and> got s = [RawMessage CHR ''a'' ''b'' [9]] \<and> recv_q s = [] \<and> taken s = []
     \<and> reader s = RDeliver (RawMessage CHR ''a'' ''b'' [9])"
  unfolding demo_sends_def by code_simp

lemma demo_sends_Some:
  "\<exists>s. demo_sends = Some s \<and> sent s = [Some (RawMessage CHR ''a'' ''b'' [5])]
     \<and> sender s = SPut (Some (RawMessage CHR ''a'' ''b'' [6]))
     \<and> got s = [RawMessage CHR ''a'' ''b'' [9]] \<and> recv_q s = [] \<and> taken s = []
     \<and> reader s = RDeliver (RawMessage CHR ''a'' ''b'' [9])"
proof (cases demo_sends)
  case None
  with demo_sends_eval show ?thesis by simp
next
  case (Some s)
  from demo_sends_eval [unfolded Some option.case] Some show ?thesis by blast
qed

lemma demo_sends_reach:
  "demo_sends = Some s \<Longrightarrow> reach (conn_start ''svc'' 0 []) (conn_step (demo_cfg None None)) s"
  unfolding demo_sends_def by (rule run_reach)

theorem channels_keep_messages_witness:
  "\<exists>s. demo_sends = Some s \<and> length (send_q s) \<le> 1
     \<and> queued s = [Some (RawMessage CHR ''a'' ''b'' [5]), Some (RawMessage CHR ''a'' ''b'' [6])] @ send_q s
     \<and> filter (unrouted (demo_cfg None None)) (got s) = [RawMessage CHR ''a'' ''b'' [9]]"
proof -
  obtain s where s: "demo_sends = Some s"
    and f: "sent s = [Some (RawMessage CHR ''a'' ''b'' [5])]"
      "sender s = SPut (Some (RawMessage CHR ''a'' ''b'' [6]))" "recv_q s = []" "taken s = []"
      "reader s = RDeliver (RawMessage CHR ''a'' ''b'' [9])"
    using demo_sends_Some by blast
  have "cfg_sendCap (demo_cfg None None) = 1" by (simp add: demo_cfg_def Let_def)
  with channels_keep_messages [OF demo_sends_reach [OF s]] s f show ?thesis
    by (auto simp: sender_alive_def)
qed

theorem wire_is_sequential_sends_witness:
  "\<exists>s o1 tp'. demo_sends = Some s \<and> out s = o1
     \<and> send_all (demo_cfg None None) [Some (RawMessage CHR ''a'' ''b'' [5])] ([], []) = Some (tp', o1)"
proof -
  obtain s where s: "demo_sends = Some s" "sent s = [Some (RawMessage CHR ''a'' ''b'' [5])]"
      "sender s = SPut (Some (RawMessage CHR ''a'' ''b'' [6]))"
    using demo_sends_Some by blast
  with wire_is_sequential_sends [OF demo_sends_reach [OF s(1)]] show ?thesis
    by (auto simp: sender_alive_def)
qed

section \<open>Closing\<close>

text \<open>
  In every reachable state: a wrapper whose connection is closed is closed; a goroutine
  that has ended (the receiver, the sender, the idle watch) has left the wrapper closed; and the
  goroutine that delivers the shutdown signals of a closed wrapper is never blocked.
\<close>

lemma ended_goroutines_leave_closed:
  assumes "reach (conn_start name t0 tp) (conn_step C) s"
  shows "(\<not> connOpen (wrapper s) \<longrightarrow> IsClosed (wrapper s)) \<and>
         (reader s = RDone \<or> sender s = SDone \<or> idle s = IDone \<longrightarrow> IsClosed (wrapper s)) \<and>
         (IsClosed (wrapper s) \<and> signaler (wrapper s) \<noteq> SigDone \<longrightarrow> (\<exists>t. signaler_step s t))"
proof -
  have i: "flags_inv s" by (rule conn_flags.reach_inv [OF assms])
  have "\<exists>t. signaler_exec s = Some t" if "IsClosed (wrapper s)" "signaler (wrapper s) \<noteq> SigDone"
    using i that by (cases "signaler (wrapper s)") (auto simp: flags_inv_def wrapper_inv_def IsClosed_def)
  with i show ?thesis
    by (auto simp: flags_inv_def wrapper_inv_def IsClosed_def dest: signaler_exec_sound
        simp del: signaler_exec.simps)
qed

section \<open>Authenticity end to end\<close>

text \<open>A receive of a connection on which nothing has arrived, or that cannot be read, gives no message.\<close>

lemma receive_nothing:
  "receive C \<lparr>segments = [], fin = e\<rparr> =
     ((None, if e = EOF then None else Some e), bufio_NewReader \<lparr>segments = [], fin = e\<rparr>)"
proof -
  have "bufio_Read 7 (bufio_NewReader \<lparr>segments = [], fin = e\<rparr>) =
      (([], Some e), bufio_NewReader \<lparr>segments = [], fin = e\<rparr>)"
    by (simp add: bufio_Read_def bufio_NewReader_def conn_Read_def)
  then have "isPreambleValid bufio_Read (bufio_NewReader \<lparr>segments = [], fin = e\<rparr>) =
      (Some e, bufio_NewReader \<lparr>segments = [], fin = e\<rparr>)"
    by (simp add: isPreambleValid_def act_deferred_def)
  then show ?thesis
    by (simp add: receive_def getMessageFromConnection_def getMessage_body_def Let_def
        act_deferred_def act_bind_def act_of_def)
qed

text \<open>A step receives nothing, or one message out of the bytes that have arrived.\<close>

lemma conn_step_got:
  assumes "conn_step C s t"
  shows "got t = got s \<or>
    (\<exists>e m err b. receive C \<lparr>segments = arrived s, fin = e\<rparr> = ((Some m, err), b) \<and>
       arrived t = segments (rd b) \<and> got t = got s @ [m])"
  using assms
proof (cases rule: conn_step.cases)
  case c_reader
  then show ?thesis
  proof (cases rule: reader_step.cases)
    case (r_read e k newMsg err b)
    show ?thesis
    proof (cases newMsg)
      case (Some m)
      with r_read(4) have "readable (wrapper s)" by (auto simp: conn_view_def receive_nothing split: if_splits)
      with r_read Some show ?thesis by (auto simp: conn_view_def)
    qed (simp add: r_read(1))
  qed (auto simp: put_sender_receiving)
next
  case c_sender
  then show ?thesis by cases auto
next
  case c_signaler
  then show ?thesis by cases auto
next
  case c_idle
  then show ?thesis by cases auto
next
  case c_user
  then show ?thesis by cases (auto simp: put_sender_receiving)
next
  case c_net
  then show ?thesis by cases auto
qed

text \<open>Every message that was received was received in a step of the run.\<close>

lemma received_in_step:
  assumes "reach start (conn_step C) s" and "\<And>s. start s \<Longrightarrow> got s = []" and "m \<in> set (got s)"
  shows "\<exists>s0 s1 e err b. reach start (conn_step C) s0 \<and> conn_step C s0 s1 \<and> (conn_step C)\<^sup>*\<^sup>* s1 s
    \<and> got s1 = got s0 @ [m] \<and> receive C \<lparr>segments = arrived s0, fin = e\<rparr> = ((Some m, err), b)
    \<and> arrived s1 = segments (rd b)"
  using assms(1,3)
proof (induction rule: reach.induct)
  case (reach_start s)
  with assms(2) show ?case by simp
next
  case (reach_step s t)
  show ?case
  proof (cases "m \<in> set (got s)")
    case True
    from reach_step(3) [OF this] reach_step(2) show ?thesis
      by (blast intro: rtranclp.rtrancl_into_rtrancl)
  next
    case False
    then have "got t \<noteq> got s" using reach_step(4) by metis
    with conn_step_got [OF reach_step(2)] obtain e m' err b where
      r: "receive C \<lparr>segments = arrived s, fin = e\<rparr> = ((Some m', err), b)" "arrived t = segments (rd b)" "got t = got s @ [m']"
      by blast
    with reach_step(4) False have "m' = m" by simp
    with r reach_step(1,2) show ?thesis by blast
  qed
qed

text \<open>
  C17. On a wrapper with keys, every message a user ever takes from the receiver's channel was sealed
  with those keys and came in on this connection: it was received in a step of the wrapper's run, and at
  that step the bytes that had arrived began with the preamble, at most three size fields, and a body
  that decrypts under the encryption key to the HMAC, under the HMAC key, of some bytes followed by
  these bytes, which unmarshal to the message as a registered type. The step took all of this off the
  connection, with or without further bytes that it lost, so no body serves for two receives.
\<close>

theorem secure_wrapper_delivers_signed:
  assumes "proto_laws (cfg_api C)" and "4 \<le> cfg_width C"
    and "cfg_encKey C = Some dk" and "cfg_hmacKey C = Some hk"
    and "reach (conn_start name t0 tp) (conn_step C) s" and "m \<in> set (taken s)"
  shows "\<exists>s0 s1 sizes body lost real t i.
      reach (conn_start name t0 tp) (conn_step C) s0 \<and> conn_step C s0 s1 \<and> (conn_step C)\<^sup>*\<^sup>* s1 s
    \<and> got s1 = got s0 @ [m]
    \<and> concat (arrived s0) = ProtoPreamble @ sizes @ body @ lost @ concat (arrived s1)
    \<and> length sizes \<le> 3 * cfg_width C
    \<and> Clone (cfg_api C) (ident_lookup (cfg_identMap C) i) = Some t
    \<and> Decrypt body dk = Ret (Inr (GenerateHMAC real hk @ real))
    \<and> Unmarshal (cfg_api C) real (Some t) = Ret (Inr (Some m))"
proof -
  have "set (taken s) \<subseteq> set (filter (unrouted C) (got s))"
    using conn_recv.reach_inv [OF assms(5)] by (simp only: recv_inv_def) auto
  with assms(6) have "m \<in> set (got s)" by auto
  from received_in_step [OF assms(5) _ this] obtain s0 s1 e err b where
    step: "reach (conn_start name t0 tp) (conn_step C) s0" "conn_step C s0 s1" "(conn_step C)\<^sup>*\<^sup>* s1 s" "got s1 = got s0 @ [m]"
    and r: "receive C \<lparr>segments = arrived s0, fin = e\<rparr> = ((Some m, err), b)" and arr: "arrived s1 = segments (rd b)"
    by (auto simp: conn_start_def wrapped_def)
  from bufio.getMessage_signed [OF assms(1) r [unfolded receive_def assms(3,4)] assms(2)] obtain sizes body real t i where
    "concat (arrived s0) = ProtoPreamble @ sizes @ body @ bufio_pending b" "length sizes \<le> 3 * cfg_width C"
    "Clone (cfg_api C) (ident_lookup (cfg_identMap C) i) = Some t"
    "Decrypt body dk = Ret (Inr (GenerateHMAC real hk @ real))"
    "Unmarshal (cfg_api C) real (Some t) = Ret (Inr (Some m))"
    by (auto simp: bufio_pending_def bufio_NewReader_def)
  moreover have "bufio_pending b = buffered b @ concat (arrived s1)" by (simp add: bufio_pending_def arr)
  ultimately show ?thesis using step
    by (intro exI [of _ s0] exI [of _ s1] exI [of _ sizes] exI [of _ body] exI [of _ "buffered b"]
        exI [of _ real] exI [of _ t] exI [of _ i] conjI) simp_all
qed

theorem secure_wrapper_delivers_signed_witness:
  "\<exists>s s0 m sizes body rest real. reach (conn_start ''svc'' 0 [])
       (conn_step (demo_cfg (Some (replicate 32 1)) (Some (replicate 32 2)))) s \<and> taken s = [m]
    \<and> concat (arrived s0) = ProtoPreamble @ sizes @ body @ rest \<and> length sizes \<le> 12
    \<and> Decrypt body (replicate 32 1) = Ret (Inr (GenerateHMAC real (replicate 32 2) @ real))
    \<and> (\<exists>t. Unmarshal raw_api real (Some t) = Ret (Inr (Some m)))
    \<and> (conn_step (demo_cfg (Some (replicate 32 1)) (Some (replicate 32 2))))\<^sup>*\<^sup>* s0 s"
proof -
  let ?m = "RawMessage CHR ''a'' ''b'' [7]"
  let ?C = "demo_cfg (Some (replicate 32 1)) (Some (replicate 32 2))"
  obtain frame b where
    "getMessageFromConnection bufio_Read raw_api 4
          (messageIdentMap (one_type_builder (RawMessage CHR ''a'' ''b'' [])))
          (Some (replicate 32 1)) (Some (replicate 32 2))
          (bufio_NewReader \<lparr>segments = [frame], fin = EOF\<rparr>) = ((Some ?m, None), b)"
    by (rule encrypted_frame_received [OF raw_api_laws one_type_builder_sound,
          of "RawMessage CHR ''a'' ''b'' []" ?m "[7]" "replicate 32 1" "replicate 12 9"
             "replicate 32 2" "[]" EOF])
      (use one_type_builder_registered [of "RawMessage CHR ''a'' ''b'' []"] in
        \<open>auto simp: is_key_def\<close>)
  then have r: "receive ?C \<lparr>segments = [frame], fin = EOF\<rparr> = ((Some ?m, None), b)"
    by (simp add: receive_def demo_cfg_def Let_def)
  have C: "unrouted ?C ?m" "0 < cfg_recvCap ?C"
    by (simp_all add: unrouted_def route_for_def demo_cfg_def Let_def)
  obtain s where s: "run ?C [AReader EOF, NArrive frame, AReader EOF, AReader EOF, AReader EOF, AReader EOF, URecv]
      (wrapped ''svc'' 0 []) = Some s" and t: "taken s = [?m]"
    by (rule one_message_run [OF r C])
  have c: "cfg_api ?C = raw_api" "cfg_width ?C = 4" "cfg_encKey ?C = Some (replicate 32 1)" "cfg_hmacKey ?C = Some (replicate 32 2)"
    by (simp_all add: demo_cfg_def Let_def)
  have laws: "proto_laws (cfg_api ?C)" "4 \<le> cfg_width ?C" "?m \<in> set (taken s)" by (simp_all add: c t raw_api_laws)
  from secure_wrapper_delivers_signed [OF laws(1,2) c(3,4) run_reach [OF s] laws(3)] obtain s0 s1 sizes body lost real u where
    "conn_step ?C s0 s1" "(conn_step ?C)\<^sup>*\<^sup>* s1 s" "length sizes \<le> 12"
    "concat (arrived s0) = ProtoPreamble @ sizes @ body @ lost @ concat (arrived s1)"
    "Decrypt body (replicate 32 1) = Ret (Inr (GenerateHMAC real (replicate 32 2) @ real))"
    "Unmarshal raw_api real (Some u) = Ret (Inr (Some ?m))"
    unfolding c by auto
  with t run_reach [OF s] show ?thesis by (meson converse_rtranclp_into_rtranclp)
qed

section \<open>The time of the last communication\<close>

text \<open>
  Received messages do not count as communication. The receiver stamps its own copy of the
  wrapper, so as long as nothing has been sent \<open>LastComm\<close> stays the time of wrapping, and once
  the idle duration has passed since then the idle watch closes the wrapper, however many
  messages have been received meanwhile.
\<close>

lemma received_messages_do_not_count:
  assumes "reach (conn_start name t0 tp) (conn_step C) s" and "sent s = []"
  shows "LastComm (wrapper s) = t0 \<and>
         (idle s = IWatch \<and> t0 + cfg_idle C \<le> now s \<longrightarrow> idle_step C s (s\<lparr>idle := IExit\<rparr>))"
  using conn_time.reach_inv [OF assms(1)] assms(2) by (auto simp: time_inv_def intro: i_expired)

section \<open>Silence and end of stream\<close>

text \<open>
  A receiver that waits on a silent connection has two ways to go on. The end of the stream
  is not treated as an end: the receiver loops, and stays open. Any other error, such as the
  read deadline of ten seconds, ends it, and its wrapper is then closed: the idle duration
  (five minutes by default) never comes into play on a connection that only listens.
\<close>

lemma silent_connection:
  assumes "reader s = RRead" and "readable (wrapper s)" and "arrived s = []"
  shows "reader_step C s t \<longleftrightarrow> t = s\<lparr>reader := RLoop\<rparr> \<or> t = s\<lparr>reader := RExit\<rparr>"
proof -
  have view: "conn_view s e = \<lparr>segments = [], fin = e\<rparr>" for e
    using assms(2,3) by (simp add: conn_view_def)
  have same: "s\<lparr>reader := pc, arrived := [], got := got s\<rparr> = s\<lparr>reader := pc\<rparr>" for pc
    by (rule conn_state.equality) (simp_all add: assms(3))
  have "t = s\<lparr>reader := RLoop\<rparr> \<or> t = s\<lparr>reader := RExit\<rparr>" if "reader_step C s t"
    using that
  proof (cases rule: reader_step.cases)
    case (r_read e k newMsg err b)
    then show ?thesis
      using assms(2) same
      by (cases "e = EOF") (auto simp: view after_receive_def receive_nothing bufio_NewReader_def)
  qed (use assms(1) in auto)
  moreover have "reader_step C s (s\<lparr>reader := RLoop\<rparr>)"
    using r_read [OF assms(1), of EOF 0 C] assms(2) same
    by (simp add: view after_receive_def receive_nothing bufio_NewReader_def)
  moreover have "reader_step C s (s\<lparr>reader := RExit\<rparr>)"
    using r_read [OF assms(1), of "ErrNet 0" 0 C] assms(2) same
    by (simp add: view after_receive_def receive_nothing bufio_NewReader_def)
  ultimately show ?thesis by blast
qed

end
