(* ===== verification/Nan0_Link.thy ===== *)
theory Nan0_Link
  imports Nan0_Messaging Nan0_Conn_Claims Nan0_Framing_Limits
begin

text \<open>
  Two TCP wrappers at the ends of one connection, seen in one direction: what the first writes
  arrives at the second. The state is the two wrappers and the frames under way. This is the link of
  the runs in which every \<^verbatim>\<open>Read\<close> returns one frame: TCP carries a stream of bytes and promises no
  such thing, and without it messages are lost (\<open>Nan0_Conn_Shutdown\<close>, \<open>Nan0_Framing_Limits\<close>).
  \<open>Nan0_Stream\<close> has the stream, cut at will, and shows which of its runs are runs of this link.
\<close>

type_synonym 'm link = "'m conn_state \<times> 'm conn_state \<times> bytes list"

text \<open>What a step of the first wrapper has written; any other step of the second is its own.\<close>

definition written :: "'m conn_state \<Rightarrow> 'm conn_state \<Rightarrow> bytes list" where
  "written a a' = (let d = drop (length (out a)) (out a') in if d = [] then [] else [d])"

inductive link_step ::
    "('m, 'r) conn_cfg \<Rightarrow> ('m, 'r) conn_cfg \<Rightarrow> 'm link \<Rightarrow> 'm link \<Rightarrow> bool"
  for CA :: "('m, 'r) conn_cfg" and CB :: "('m, 'r) conn_cfg" where
  l_first: "conn_step CA a a' \<Longrightarrow> link_step CA CB (a, b, fl) (a', b, fl @ written a a')"
| l_second: "conn_step CB b b' \<Longrightarrow> length (arrived b') \<le> length (arrived b) \<Longrightarrow>
     link_step CA CB (a, b, fl) (a, b', fl)"
| l_deliver: "link_step CA CB (a, b, f # fl) (a, b\<lparr>arrived := arrived b @ [f]\<rparr>, fl)"

definition link_start :: "string \<Rightarrow> int \<Rightarrow> bytes \<Rightarrow> string \<Rightarrow> int \<Rightarrow> bytes \<Rightarrow> 'm link \<Rightarrow> bool" where
  "link_start name t0 tp name' t0' tp' s \<longleftrightarrow> s = (wrapped name t0 tp, wrapped name' t0' tp', [])"

section \<open>Two ends that fit\<close>

text \<open>
  The ends have the same keys, or none, and the maps of two builders; \<open>carried\<close> is a message that
  the second builder knows and that fits into one buffer.
\<close>

definition ends_agree ::
    "('m, 'r) conn_cfg \<Rightarrow> ('m, 'r) conn_cfg \<Rightarrow> ('m, 'r) baseBuilder \<Rightarrow> ('m, 'r) baseBuilder \<Rightarrow> bool" where
  "ends_agree CA CB ba bb \<longleftrightarrow>
     proto_laws (cfg_api CA) \<and> cfg_api CB = cfg_api CA \<and> cfg_width CA = 4 \<and> cfg_width CB = 4 \<and>
     cfg_inverseMap CA = inverseIdentMap ba \<and> registry_inv (cfg_api CA) ba \<and>
     cfg_identMap CB = messageIdentMap bb \<and> registry_sound (cfg_api CA) bb \<and>
     cfg_encKey CB = cfg_encKey CA \<and> cfg_hmacKey CB = cfg_hmacKey CA \<and>
     (cfg_encKey CA = None \<and> cfg_hmacKey CA = None \<or>
      (\<exists>ek hk. cfg_encKey CA = Some ek \<and> cfg_hmacKey CA = Some hk \<and> is_key ek))"

definition carried :: "'m proto_api \<Rightarrow> ('m, 'r) baseBuilder \<Rightarrow> 'm \<Rightarrow> bool" where
  "carried P bb m \<longleftrightarrow>
     inverseIdentMap bb (FullName P m) \<noteq> None \<and> (\<exists>v. Marshal P (Some m) = Inr v \<and> length v \<le> 4017)"

definition received_as :: "('m, 'r) conn_cfg \<Rightarrow> 'm \<Rightarrow> bytes \<Rightarrow> bool" where
  "received_as C m f \<longleftrightarrow>
     (\<forall>ss e. \<exists>b. receive C \<lparr>segments = f # ss, fin = e\<rparr> = ((Some m, None), b) \<and> segments (rd b) = ss)"

lemma ReadFull_shorter: "ReadFull n tp = (r, tp') \<Longrightarrow> length tp' \<le> length tp"
  by (auto simp: ReadFull_def split: if_splits)

lemma EncryptProtobuf_shorter:
  "EncryptProtobuf P w pb i ek hk tp = (bs, tp') \<Longrightarrow> length tp' \<le> length tp"
  by (auto simp: EncryptProtobuf_def EncryptProtobuf_body_def act_deferred_def act_bind_def act_lift_def
      Encrypt_def Let_def dest: ReadFull_shorter split: prod.splits sum.splits go.splits)

text \<open>The sender's end of one message.\<close>

lemma put_carried:
  assumes "ends_agree CA CB ba bb" and "carried (cfg_api CA) bb m"
    and "putMessageInConnection write_all (cfg_api CA) (cfg_width CA) (Some m) (cfg_inverseMap CA)
           (cfg_encKey CA) (cfg_hmacKey CA) (tp, o1) = (None, (tp', o2))"
    and "12 \<le> length tp' \<or> cfg_encKey CA = None"
  obtains f where "o2 = o1 @ f" and "f \<noteq> []" and "received_as CB m f" and "length tp' \<le> length tp"
proof -
  let ?P = "cfg_api CA" and ?i = "ident_of (FullName (cfg_api CA) m)"
  note agree = assms(1) [unfolded ends_agree_def]
  obtain v where v: "Marshal ?P (Some m) = Inr v" "length v \<le> 4017"
    and known: "inverseIdentMap bb (FullName ?P m) \<noteq> None"
    using assms(2) by (auto simp: carried_def)
  have reg: "inverseIdentMap ba (getProtobufMessageName ?P (Some m)) \<noteq> None"
  proof
    assume "inverseIdentMap ba (getProtobufMessageName ?P (Some m)) = None"
    from unregistered_not_sent [where inverseMap = "inverseIdentMap ba", OF this, of write_all 4 "cfg_encKey CA" "cfg_hmacKey CA" tp o1] assms(3) agree
    show False by simp
  qed
  then have i: "inverseIdentMap ba (getProtobufMessageName ?P (Some m)) = Some ?i"
    using registered_ident [of ?P ba "FullName ?P m"] agree by simp
  have fr: "received_as CB m f" if "\<And>ss e. \<exists>b. getMessageFromConnection bufio_Read ?P 4 (messageIdentMap bb)
      (cfg_encKey CA) (cfg_hmacKey CA) (bufio_NewReader \<lparr>segments = f # ss, fin = e\<rparr>) = ((Some m, None), b)
      \<and> rd b = \<lparr>segments = ss, fin = e\<rparr>" for f
    unfolding received_as_def receive_def using that agree by (metis netin.select_convs(1))
  consider (plain) "cfg_encKey CA = None" "cfg_hmacKey CA = None"
    | (enc) ek hk where "cfg_encKey CA = Some ek" "cfg_hmacKey CA = Some hk" "is_key ek"
    using agree by auto
  then show thesis
  proof cases
    case plain
    obtain f where f: "plain_frame ?P 4 (Some m) ?i = Ret f"
      using plain_frame_Ret [OF v(1), of 4] by auto
    have "f \<noteq> []" using plain_frame_Ret [OF v(1), of 4 ?i] f by (auto simp: ProtoPreamble_def)
    moreover have "o2 = o1 @ f" "tp' = tp"
      using putMessage_plain [where inverseMap = "inverseIdentMap ba", OF i f, of None None tp o1] assms(3) plain agree
      by simp_all
    moreover have "received_as CB m f"
    proof (rule fr)
      fix ss e
      obtain b where "getMessageFromConnection bufio_Read ?P 4 (messageIdentMap bb) None None
          (bufio_NewReader \<lparr>segments = f # ss, fin = e\<rparr>) = ((Some m, None), b)" "rd b = \<lparr>segments = ss, fin = e\<rparr>"
        by (rule plain_frame_received [of ?P bb m v ss e]) (use agree known v f in auto)
      then show "\<exists>b. getMessageFromConnection bufio_Read ?P 4 (messageIdentMap bb) (cfg_encKey CA) (cfg_hmacKey CA)
          (bufio_NewReader \<lparr>segments = f # ss, fin = e\<rparr>) = ((Some m, None), b) \<and> rd b = \<lparr>segments = ss, fin = e\<rparr>"
        by (simp add: plain)
    qed
    ultimately show thesis using that by blast
  next
    case enc
    obtain f tp2 where f: "EncryptProtobuf ?P 4 (Some m) ?i ek hk tp = (f, tp2)" by fastforce
    have o2: "o2 = o1 @ f" "tp' = tp2"
      using putMessage_encrypted [where inverseMap = "inverseIdentMap ba", OF i f, of o1] assms(3) enc agree by simp_all
    then have shorter: "length tp' \<le> length tp" using EncryptProtobuf_shorter [OF f] by simp
    then have long: "12 \<le> length tp" using assms(4) enc by simp
    have get: "\<exists>b. getMessageFromConnection bufio_Read ?P 4 (messageIdentMap bb) (Some ek) (Some hk)
          (bufio_NewReader \<lparr>segments = f # ss, fin = e\<rparr>) = ((Some m, None), b)
          \<and> rd b = \<lparr>segments = ss, fin = e\<rparr>" for ss e
      by (rule encrypted_frame_received [of ?P bb m v ek tp hk ss e]) (use agree known v enc long f in auto)
    have small: "gcm_NonceSize \<le> length tp" "length v + 32 \<le> gcm_max_plaintext"
      using long v(2) by (simp_all add: gcm_NonceSize_def gcm_max_plaintext_def)
    have "f \<noteq> []"
      by (rule EncryptProtobuf_body_Ret [OF v(1) enc(3) small, of 4 ?i hk]) (use f in \<open>auto simp: ProtoPreamble_def\<close>)
    with o2 shorter fr [of f] get enc show thesis by (intro that [of f]) auto
  qed
qed

section \<open>Steps of one wrapper, as the link sees them\<close>

lemma conn_step_alive: "conn_step C s t \<Longrightarrow> sender_alive (sender t) \<Longrightarrow> sender_alive (sender s)"
  by (auto elim!: conn_step.cases reader_step.cases sender_step.cases signaler_step.cases idle_step.cases
      user_step.cases net_step.cases put_sender.cases simp: sender_alive_def)

lemma conn_step_sent:
  assumes "conn_step C s t"
  shows "sent t = sent s \<and> (out t = out s \<and> tape t = tape s \<or> \<not> sender_alive (sender t)) \<or>
     (\<exists>m. sent t = sent s @ [Some m] \<and>
        putMessageInConnection write_all (cfg_api C) (cfg_width C) (Some m) (cfg_inverseMap C)
          (cfg_encKey C) (cfg_hmacKey C) (tape s, out s) = (None, (tape t, out t)))"
  using assms(1)
proof (cases rule: conn_step.cases)
  case c_reader
  then show ?thesis by cases (auto simp: put_sender_receiving)
next
  case c_sender
  then show ?thesis
  proof (cases rule: sender_step.cases)
    case (s_put x wr u tp o')
    from send_one_Ret [OF s_put(3,4)] obtain m where "x = Some m"
      "putMessageInConnection write_all (cfg_api C) (cfg_width C) (Some m) (cfg_inverseMap C)
          (cfg_encKey C) (cfg_hmacKey C) (tape s, out s) = (None, (tp, o'))"
      by (cases x) (auto split: prod.splits option.splits)
    with s_put show ?thesis by simp
  qed (auto simp: sender_alive_def)
next
  case c_signaler
  then show ?thesis by cases auto
next
  case c_idle
  then show ?thesis by cases auto
next
  case c_user
  then show ?thesis by cases (auto simp: put_sender_receiving)
next
  case c_net
  then show ?thesis by cases auto
qed

lemma conn_step_sending:
  assumes "conn_step C s t" and "sender_alive (sender t)"
  shows "sender_alive (sender s) \<and>
    (sent t = sent s \<and> out t = out s \<and> tape t = tape s \<or>
     (\<exists>m. sent t = sent s @ [Some m] \<and>
        putMessageInConnection write_all (cfg_api C) (cfg_width C) (Some m) (cfg_inverseMap C)
          (cfg_encKey C) (cfg_hmacKey C) (tape s, out s) = (None, (tape t, out t))))"
  using conn_step_sent [OF assms(1)] conn_step_alive [OF assms] assms(2) by blast

lemma conn_step_receiving:
  assumes "conn_step C s t" and "length (arrived t) \<le> length (arrived s)"
  shows "arrived t = arrived s \<and> got t = got s \<or>
    (\<exists>e newMsg err b. receive C (conn_view s e) = ((newMsg, err), b) \<and>
       arrived t = (if readable (wrapper s) then segments (rd b) else arrived s) \<and>
       got t = got s @ (case newMsg of None \<Rightarrow> [] | Some m \<Rightarrow> [m]))"
  using assms(1)
proof (cases rule: conn_step.cases)
  case c_reader
  then show ?thesis by cases (auto simp: put_sender_receiving)
next
  case c_sender
  then show ?thesis by cases auto
next
  case c_signaler
  then show ?thesis by cases auto
next
  case c_idle
  then show ?thesis by cases auto
next
  case c_user
  then show ?thesis by cases (auto simp: put_sender_receiving)
next
  case c_net
  then show ?thesis using assms(2) by cases auto
qed

text \<open>One receive takes nothing, or the first frame, as the message it stands for.\<close>

lemma receiving_frames:
  assumes "conn_step C s t" and "length (arrived t) \<le> length (arrived s)"
    and "list_all2 (received_as C) ms (arrived s @ fl)"
  shows "arrived t = arrived s \<and> got t = got s \<or>
    (\<exists>m ms'. ms = m # ms' \<and> got t = got s @ [m] \<and> list_all2 (received_as C) ms' (arrived t @ fl))"
  using conn_step_receiving [OF assms(1,2)]
proof (elim disjE exE conjE)
  fix e newMsg err b
  assume r: "receive C (conn_view s e) = ((newMsg, err), b)"
    and arr: "arrived t = (if readable (wrapper s) then segments (rd b) else arrived s)"
    and got: "got t = got s @ (case newMsg of None \<Rightarrow> [] | Some m \<Rightarrow> [m])"
  show ?thesis
  proof (cases "readable (wrapper s) \<and> arrived s \<noteq> []")
    case True
    then obtain f ss where a: "arrived s = f # ss" by (cases "arrived s") auto
    with assms(3) obtain m ms' where ms: "ms = m # ms'" "received_as C m f" "list_all2 (received_as C) ms' (ss @ fl)"
      by (cases ms) auto
    from ms(2) r True have "newMsg = Some m" "segments (rd b) = ss"
      by (auto simp: received_as_def conn_view_def a) (metis prod.inject)+
    with arr got ms True show ?thesis by auto
  next
    case False
    then have "\<exists>e'. conn_view s e = \<lparr>segments = [], fin = e'\<rparr>" by (auto simp: conn_view_def)
    with r have "newMsg = None" "segments (rd b) = []" by (auto simp: receive_nothing bufio_NewReader_def)
    with arr got False show ?thesis by auto
  qed
qed blast

section \<open>Delivery\<close>

text \<open>
  What is known as long as the first wrapper's sender has not failed, every message it has sent
  can be carried, and its random source has not run dry.
\<close>

definition sending_well :: "('m, 'r) conn_cfg \<Rightarrow> ('m, 'r) baseBuilder \<Rightarrow> 'm conn_state \<Rightarrow> bool" where
  "sending_well CA bb a \<longleftrightarrow>
     sender_alive (sender a) \<and> (\<forall>m. Some m \<in> set (sent a) \<longrightarrow> carried (cfg_api CA) bb m) \<and> 12 \<le> length (tape a)"

fun link_inv :: "('m, 'r) conn_cfg \<Rightarrow> ('m, 'r) conn_cfg \<Rightarrow> ('m, 'r) baseBuilder \<Rightarrow> 'm link \<Rightarrow> bool" where
  "link_inv CA CB bb (a, b, fl) \<longleftrightarrow>
     (sending_well CA bb a \<longrightarrow>
       (\<exists>ms. sent a = map Some (got b @ ms) \<and> list_all2 (received_as CB) ms (arrived b @ fl)))"

lemma link_inv_first:
  assumes "ends_agree CA CB ba bb" and "conn_step CA a a'" and "link_inv CA CB bb (a, b, fl)"
    and "sending_well CA bb a'"
  shows "\<exists>ms. sent a' = map Some (got b @ ms) \<and> list_all2 (received_as CB) ms (arrived b @ fl @ written a a')"
proof -
  have alive: "sender_alive (sender a')" and small: "12 \<le> length (tape a')"
    and carried: "\<And>m. Some m \<in> set (sent a') \<Longrightarrow> carried (cfg_api CA) bb m"
    using assms(4) by (auto simp: sending_well_def)
  from conn_step_sending [OF assms(2) alive] consider
      (same) "sender_alive (sender a)" "sent a' = sent a" "out a' = out a" "tape a' = tape a"
    | (put) m where "sender_alive (sender a)" "sent a' = sent a @ [Some m]"
        "putMessageInConnection write_all (cfg_api CA) (cfg_width CA) (Some m) (cfg_inverseMap CA)
          (cfg_encKey CA) (cfg_hmacKey CA) (tape a, out a) = (None, (tape a', out a'))"
    by blast
  then show ?thesis
  proof cases
    case same
    with assms(3,4) show ?thesis by (simp add: sending_well_def written_def)
  next
    case put
    from put_carried [OF assms(1) carried put(3)] small put(2) obtain f where
      f: "out a' = out a @ f" "f \<noteq> []" "received_as CB m f" "length (tape a') \<le> length (tape a)" by auto
    with put small carried have "sending_well CA bb a" by (simp add: sending_well_def)
    with assms(3) obtain ms where
      "sent a = map Some (got b @ ms)" "list_all2 (received_as CB) ms (arrived b @ fl)" by auto
    with put(2) f show ?thesis
      by (intro exI [of _ "ms @ [m]"]) (simp add: written_def list_all2_appendI flip: append_assoc)
  qed
qed

lemma link_inv_step:
  assumes "ends_agree CA CB ba bb" and "link_step CA CB s t" and "link_inv CA CB bb s"
  shows "link_inv CA CB bb t"
  using assms(2)
proof (cases rule: link_step.cases)
  case (l_first a a' b fl)
  with link_inv_first [OF assms(1) l_first(3)] assms(3) show ?thesis by simp
next
  case (l_second b b' a fl)
  show ?thesis
    unfolding l_second(2) link_inv.simps
  proof
    assume "sending_well CA bb a"
    with assms(3) obtain ms where ms: "sent a = map Some (got b @ ms)" "list_all2 (received_as CB) ms (arrived b @ fl)"
      by (auto simp: l_second(1))
    from receiving_frames [OF l_second(3,4) ms(2)] ms
    show "\<exists>ms. sent a = map Some (got b' @ ms) \<and> list_all2 (received_as CB) ms (arrived b' @ fl)"
      by (elim disjE exE conjE) (auto intro: exI [of _ ms])
  qed
next
  case (l_deliver a b f fl)
  with assms(3) show ?thesis by (simp add: sending_well_def)
qed

interpretation link_machine: machine_invariant "link_start name t0 tp name' t0' tp'" "link_step CA CB"
    "\<lambda>s. ends_agree CA CB ba bb \<longrightarrow> link_inv CA CB bb s"
  for name t0 tp name' t0' tp' CA CB ba bb
  by unfold_locales (auto simp: link_start_def wrapped_def intro: link_inv_step)

text \<open>Each wrapper, seen alone, takes steps of its own machine.\<close>

lemma link_ends:
  "reach (link_start name t0 tp name' t0' tp') (link_step CA CB) s \<Longrightarrow>
     reach (conn_start name t0 tp) (conn_step CA) (fst s) \<and>
     reach (conn_start name' t0' tp') (conn_step CB) (fst (snd s))"
proof (induction rule: reach.induct)
  case (reach_start s)
  then show ?case by (auto simp: link_start_def conn_start_def intro: reach.reach_start)
next
  case (reach_step s t)
  from reach_step(2) show ?case
  proof cases
    case (l_deliver a b f fl)
    with reach_step(3) show ?thesis by (auto intro: reach.reach_step c_net n_arrive)
  qed (use reach_step(3) in \<open>auto intro: reach.reach_step\<close>)
qed

text \<open>What the second wrapper has received, whatever its routes do with it.\<close>

lemma link_accounting:
  assumes "link_inv CA CB bb (a, b, fl)" and "sending_well CA bb a" and "send_inv CA a"
  obtains ms where "queued a = map Some (got b @ ms) @ putting (sender a) @ send_q a"
    and "length ms = length (arrived b) + length fl"
proof -
  obtain ms where ms: "sent a = map Some (got b @ ms)" "list_all2 (received_as CB) ms (arrived b @ fl)"
    using assms(1,2) by auto
  have "queued a = sent a @ putting (sender a) @ send_q a"
    using assms(2,3) by (auto simp: send_inv_def sending_well_def)
  with ms that list_all2_lengthD [OF ms(2)] show thesis by simp
qed

lemma link_received:
  assumes "ends_agree CA CB ba bb"
    and "reach (link_start name t0 tp name' t0' tp') (link_step CA CB) (a, b, fl)"
    and "sending_well CA bb a"
  obtains ms where "queued a = map Some (got b @ ms) @ putting (sender a) @ send_q a"
    and "length ms = length (arrived b) + length fl"
proof (rule link_accounting)
  show "link_inv CA CB bb (a, b, fl)" using link_machine.reach_inv [OF assms(2), of ba bb] assms(1) by blast
  show "send_inv CA a" using conn_send.reach_inv link_ends [OF assms(2)] by auto
qed (use assms(3) that in auto)

lemma unrouted_received:
  assumes "recv_inv C s" and "\<And>m. unrouted C m"
  shows "got s = taken s @ recv_q s @ delivering (reader s)"
  using assms by (simp add: recv_inv_def)

lemma link_unrouted:
  assumes "reach (link_start name t0 tp name' t0' tp') (link_step CA CB) (a, b, fl)" and "\<And>m. unrouted CB m"
  shows "got b = taken b @ recv_q b @ delivering (reader b)"
proof (rule unrouted_received)
  show "recv_inv CB b" using conn_recv.reach_inv link_ends [OF assms(1)] by auto
qed (rule assms(2))

section \<open>A run\<close>

datatype 'm link_action = First "'m action" | Second "'m action" | Deliver

fun link_exec ::
    "('m, 'r) conn_cfg \<Rightarrow> ('m, 'r) conn_cfg \<Rightarrow> 'm link_action \<Rightarrow> 'm link \<Rightarrow> 'm link option" where
  "link_exec CA CB (First x) (a, b, fl) =
     (case act_exec CA x a of None \<Rightarrow> None | Some a' \<Rightarrow> Some (a', b, fl @ written a a'))"
| "link_exec CA CB (Second x) (a, b, fl) =
     (case act_exec CB x b of
        None \<Rightarrow> None
      | Some b' \<Rightarrow> if length (arrived b') \<le> length (arrived b) then Some (a, b', fl) else None)"
| "link_exec CA CB Deliver (a, b, []) = None"
| "link_exec CA CB Deliver (a, b, f # fl) = Some (a, b\<lparr>arrived := arrived b @ [f]\<rparr>, fl)"

fun link_run ::
    "('m, 'r) conn_cfg \<Rightarrow> ('m, 'r) conn_cfg \<Rightarrow> 'm link_action list \<Rightarrow> 'm link \<Rightarrow> 'm link option" where
  "link_run CA CB [] s = Some s"
| "link_run CA CB (x # xs) s = (case link_exec CA CB x s of None \<Rightarrow> None | Some t \<Rightarrow> link_run CA CB xs t)"

lemma link_exec_sound: "link_exec CA CB x s = Some t \<Longrightarrow> link_step CA CB s t"
  by (induction CA CB x s rule: link_exec.induct)
    (auto split: option.splits if_splits intro: link_step.intros act_exec_sound simp del: act_exec.simps)

lemma link_run_reach:
  "link_run CA CB xs s = Some t \<Longrightarrow> reach start (link_step CA CB) s \<Longrightarrow> reach start (link_step CA CB) t"
proof (induction xs arbitrary: s)
  case (Cons x xs)
  from Cons(2) obtain u where u: "link_exec CA CB x s = Some u" "link_run CA CB xs u = Some t"
    by (auto simp del: link_exec.simps split: option.splits)
  from Cons(1) [OF u(2) reach_step [OF Cons(3) link_exec_sound [OF u(1)]]] show ?case .
qed simp

definition demo_link :: "raw_message link option" where
  "demo_link =
     link_run (demo_cfg None None) (demo_cfg None None)
       [First ASender, First (USend (Some (RawMessage CHR ''a'' ''b'' [5]))), First ASender, First ASender,
        First (USend (Some (RawMessage CHR ''a'' ''b'' [6]))), First ASender, First ASender,
        Second (AReader EOF), Deliver, Second (AReader EOF), Second (AReader EOF), Second (AReader EOF),
        Second (AReader EOF), Second URecv]
       (wrapped ''first'' 0 (replicate 12 0), wrapped ''second'' 0 [], [])"

lemma demo_link_eval:
  "case demo_link of None \<Rightarrow> False | Some (a, b, fl) \<Rightarrow>
       queued a = [Some (RawMessage CHR ''a'' ''b'' [5]), Some (RawMessage CHR ''a'' ''b'' [6])]
     \<and> sent a = queued a \<and> sender a = SLoop \<and> send_q a = [] \<and> tape a = replicate 12 0
     \<and> taken b = [RawMessage CHR ''a'' ''b'' [5]] \<and> recv_q b = [] \<and> arrived b = [] \<and> length fl = 1"
  unfolding demo_link_def by code_simp

lemma demo_link_reach:
  "demo_link = Some s \<Longrightarrow> reach (link_start ''first'' 0 (replicate 12 0) ''second'' 0 [])
     (link_step (demo_cfg None None) (demo_cfg None None)) s"
  unfolding demo_link_def by (erule link_run_reach) (auto intro: reach_start simp: link_start_def)

end
