(* ===== verification/Nan0_Stream.thy ===== *)
theory Nan0_Stream
  imports Nan0_Link "HOL-Library.Sublist"
begin

text \<open>
  The connection as TCP has it: a stream of bytes, in order and each once, that is cut anywhere. A
  segment is what one \<^verbatim>\<open>Read\<close> of the receiver returns: any number of the bytes that have been written
  and not been read. So frames may arrive together or in pieces. \<open>kept_apart\<close> says of a run that so far
  every \<^verbatim>\<open>Read\<close> has returned exactly one frame; those runs are the runs of the link of \<open>Nan0_Link\<close>.
\<close>

section \<open>A stream of bytes\<close>

record stream =
  wire_frames :: "bytes list"
  wire_segs :: "bytes list"

definition no_bytes :: stream where
  "no_bytes = \<lparr>wire_frames = [], wire_segs = []\<rparr>"

definition stream_write :: "bytes list \<Rightarrow> stream \<Rightarrow> stream" where
  "stream_write fs c = c\<lparr>wire_frames := wire_frames c @ fs\<rparr>"

definition stream_read :: "bytes \<Rightarrow> stream \<Rightarrow> stream" where
  "stream_read f c = c\<lparr>wire_segs := wire_segs c @ [f]\<rparr>"

text \<open>A segment that may be read next, the bytes having been written.\<close>

definition may_read :: "stream \<Rightarrow> bytes \<Rightarrow> bool" where
  "may_read c f \<longleftrightarrow> f \<noteq> [] \<and> prefix (concat (wire_segs c) @ f) (concat (wire_frames c))"

definition kept_apart :: "stream \<Rightarrow> bool" where
  "kept_apart c \<longleftrightarrow> prefix (wire_segs c) (wire_frames c)"

text \<open>The frames that have not been read.\<close>

definition coming :: "stream \<Rightarrow> bytes list" where
  "coming c = drop (length (wire_segs c)) (wire_frames c)"

definition stream_inv :: "stream \<Rightarrow> bool" where
  "stream_inv c \<longleftrightarrow> [] \<notin> set (wire_frames c) \<and> prefix (concat (wire_segs c)) (concat (wire_frames c))"

lemma no_bytes [simp]: "stream_inv no_bytes" "kept_apart no_bytes" "coming no_bytes = []"
  by (simp_all add: stream_inv_def kept_apart_def coming_def no_bytes_def)

lemma stream_write_nothing [simp]: "stream_write [] c = c"
  by (simp add: stream_write_def)

lemma written_no_empty [simp]: "[] \<notin> set (written s t)"
  by (simp add: written_def Let_def)

text \<open>A frame that is read before it is written would have been read out of nothing.\<close>

lemma stream_write:
  assumes "stream_inv c" and "[] \<notin> set fs"
  shows "stream_inv (stream_write fs c)"
    and "kept_apart (stream_write fs c) \<Longrightarrow> kept_apart c \<and> coming (stream_write fs c) = coming c @ fs"
proof -
  show "stream_inv (stream_write fs c)" using assms by (auto simp: stream_inv_def stream_write_def)
  assume "kept_apart (stream_write fs c)"
  then have "prefix (wire_segs c) (wire_frames c @ fs)" by (simp add: kept_apart_def stream_write_def)
  moreover have "us = []" if "wire_segs c = wire_frames c @ us" "prefix us fs" for us
  proof (rule ccontr)
    assume "us \<noteq> []"
    with that(2) assms(2) have "concat us \<noteq> []" by (cases us) (auto simp: prefix_def)
    with that(1) assms(1) show False by (simp add: stream_inv_def prefix_def)
  qed
  ultimately have "kept_apart c" by (auto simp: kept_apart_def prefix_append)
  moreover from this have "length (wire_segs c) \<le> length (wire_frames c)"
    by (simp add: kept_apart_def prefix_length_le)
  ultimately show "kept_apart c \<and> coming (stream_write fs c) = coming c @ fs"
    by (simp add: coming_def stream_write_def)
qed

lemma stream_read:
  assumes "stream_inv c" and "may_read c f"
  shows "stream_inv (stream_read f c)"
    and "kept_apart (stream_read f c) \<Longrightarrow> kept_apart c \<and> coming c = f # coming (stream_read f c)"
  using assms by (auto simp: stream_inv_def may_read_def kept_apart_def stream_read_def coming_def prefix_def)

section \<open>The link over a stream\<close>

type_synonym 'm tcp_link = "'m conn_state \<times> stream \<times> 'm conn_state"

inductive tcp_link_step ::
    "('m, 'r) conn_cfg \<Rightarrow> ('m, 'r) conn_cfg \<Rightarrow> 'm tcp_link \<Rightarrow> 'm tcp_link \<Rightarrow> bool"
  for CA :: "('m, 'r) conn_cfg" and CB :: "('m, 'r) conn_cfg" where
  tl_first: "conn_step CA a a' \<Longrightarrow> tcp_link_step CA CB (a, c, b) (a', stream_write (written a a') c, b)"
| tl_second: "conn_step CB b b' \<Longrightarrow> length (arrived b') \<le> length (arrived b) \<Longrightarrow>
     tcp_link_step CA CB (a, c, b) (a, c, b')"
| tl_segment: "may_read c f \<Longrightarrow>
     tcp_link_step CA CB (a, c, b) (a, stream_read f c, b\<lparr>arrived := arrived b @ [f]\<rparr>)"

definition tcp_link_start :: "string \<Rightarrow> int \<Rightarrow> bytes \<Rightarrow> string \<Rightarrow> int \<Rightarrow> bytes \<Rightarrow> 'm tcp_link \<Rightarrow> bool" where
  "tcp_link_start name t0 tp name' t0' tp' s \<longleftrightarrow> s = (wrapped name t0 tp, no_bytes, wrapped name' t0' tp')"

fun stream_of :: "'m tcp_link \<Rightarrow> stream" where
  "stream_of (a, c, b) = c"

fun frames_of :: "'m tcp_link \<Rightarrow> 'm link" where
  "frames_of (a, c, b) = (a, b, coming c)"

text \<open>Where the reads have kept the frames apart, the run is one of the link.\<close>

lemma tcp_link_is_link:
  assumes "tcp_link_step CA CB s t" and "stream_inv (stream_of s)"
  shows "stream_inv (stream_of t) \<and>
    (kept_apart (stream_of t) \<longrightarrow> kept_apart (stream_of s) \<and> link_step CA CB (frames_of s) (frames_of t))"
  using assms(1)
proof (cases rule: tcp_link_step.cases)
  case (tl_first a a' c b)
  with stream_write [OF _ written_no_empty, of c a a'] assms(2) show ?thesis
    by (auto intro: link_step.l_first)
next
  case (tl_second b b' a c)
  with assms(2) show ?thesis by (auto intro: link_step.l_second)
next
  case (tl_segment c f a b)
  with stream_read [of c f] assms(2) show ?thesis by (auto intro: link_step.l_deliver)
qed

lemma tcp_links_are_link:
  assumes "(tcp_link_step CA CB)\<^sup>*\<^sup>* s t" and "stream_inv (stream_of s)"
  shows "stream_inv (stream_of t) \<and>
    (kept_apart (stream_of t) \<longrightarrow> kept_apart (stream_of s) \<and> (link_step CA CB)\<^sup>*\<^sup>* (frames_of s) (frames_of t))"
  using assms
proof (induction rule: rtranclp_induct)
  case (step t u)
  with tcp_link_is_link [OF step(2)] show ?case by (auto intro: rtranclp.rtrancl_into_rtrancl)
qed simp

lemma reach_from: "reach start step t \<Longrightarrow> \<exists>s. start s \<and> step\<^sup>*\<^sup>* s t"
  by (induction rule: reach.induct) (auto intro: rtranclp.rtrancl_into_rtrancl)

lemma tcp_link_frames:
  assumes "reach (tcp_link_start name t0 tp name' t0' tp') (tcp_link_step CA CB) (a, c, b)" and "kept_apart c"
  shows "reach (link_start name t0 tp name' t0' tp') (link_step CA CB) (a, b, coming c)"
proof -
  from reach_from [OF assms(1)] obtain s where "tcp_link_start name t0 tp name' t0' tp' s"
    and run: "(tcp_link_step CA CB)\<^sup>*\<^sup>* s (a, c, b)" by blast
  then have s: "s = (wrapped name t0 tp, no_bytes, wrapped name' t0' tp')" by (simp add: tcp_link_start_def)
  with tcp_links_are_link [OF run] assms(2) have "(link_step CA CB)\<^sup>*\<^sup>* (frames_of s) (a, b, coming c)" by simp
  with s show ?thesis by (intro reach_steps [OF reach_start]) (simp_all add: link_start_def)
qed

text \<open>
  C1. Delivery from end to end, where TCP keeps frames apart. Two wrappers share a connection, which
  carries a stream of bytes and may cut it anywhere; both have the same keys or none, and builders that
  know the message types; the second has no routes. Take any reachable state in which: every \<^verbatim>\<open>Read\<close> of
  the second wrapper has so far returned exactly one frame (the code needs this and TCP does not
  promise it: a frame that arrives together with another is lost); the first wrapper's sender has not
  failed or run out of random bytes; and every message that was sent fits into one buffer (4017 marshalled bytes). In such a
  state the values that were put in the first one's sender channel are, in order and each once: the
  messages the second wrapper's user has taken, those in that wrapper's channel, the one it is
  delivering, those under way (one for every frame on the network or in the receive queue), the one
  being sent, and those waiting to be sent.
\<close>

theorem link_delivers_in_order:
  assumes "ends_agree CA CB ba bb"
    and "reach (tcp_link_start name t0 tp name' t0' tp') (tcp_link_step CA CB) (a, c, b)"
    and "kept_apart c" and "sending_well CA bb a" and "\<And>m. unrouted CB m"
  shows "\<exists>ms. queued a = map Some (taken b @ recv_q b @ delivering (reader b) @ ms) @ putting (sender a) @ send_q a
    \<and> length ms = length (arrived b) + length (coming c)"
  using link_received [OF assms(1) tcp_link_frames [OF assms(2,3)] assms(4)]
    link_unrouted [OF tcp_link_frames [OF assms(2,3)] assms(5)] by (metis append_assoc)

section \<open>A run\<close>

text \<open>A segment of a run is given by its length.\<close>

definition cut_segment :: "nat \<Rightarrow> stream \<Rightarrow> bytes" where
  "cut_segment n c = take n (drop (length (concat (wire_segs c))) (concat (wire_frames c)))"

definition may_read_exec :: "stream \<Rightarrow> bytes \<Rightarrow> bool" where
  "may_read_exec c f \<longleftrightarrow> f \<noteq> [] \<and> take (length (concat (wire_segs c) @ f)) (concat (wire_frames c)) = concat (wire_segs c) @ f"

lemma may_read_exec: "may_read_exec c f \<Longrightarrow> may_read c f"
  unfolding may_read_exec_def may_read_def by (metis take_is_prefix)

datatype 'm tcp_link_action = TcpFirst "'m action" | TcpSecond "'m action" | Segment nat

fun tcp_link_exec ::
    "('m, 'r) conn_cfg \<Rightarrow> ('m, 'r) conn_cfg \<Rightarrow> 'm tcp_link_action \<Rightarrow> 'm tcp_link \<Rightarrow> 'm tcp_link option" where
  "tcp_link_exec CA CB (TcpFirst x) (a, c, b) =
     (case act_exec CA x a of None \<Rightarrow> None | Some a' \<Rightarrow> Some (a', stream_write (written a a') c, b))"
| "tcp_link_exec CA CB (TcpSecond x) (a, c, b) =
     (case act_exec CB x b of
        None \<Rightarrow> None
      | Some b' \<Rightarrow> if length (arrived b') \<le> length (arrived b) then Some (a, c, b') else None)"
| "tcp_link_exec CA CB (Segment n) (a, c, b) =
     (let f = cut_segment n c in
      if may_read_exec c f then Some (a, stream_read f c, b\<lparr>arrived := arrived b @ [f]\<rparr>) else None)"

fun tcp_link_run ::
    "('m, 'r) conn_cfg \<Rightarrow> ('m, 'r) conn_cfg \<Rightarrow> 'm tcp_link_action list \<Rightarrow> 'm tcp_link \<Rightarrow> 'm tcp_link option" where
  "tcp_link_run CA CB [] s = Some s"
| "tcp_link_run CA CB (x # xs) s =
     (case tcp_link_exec CA CB x s of None \<Rightarrow> None | Some t \<Rightarrow> tcp_link_run CA CB xs t)"

lemma tcp_link_exec_sound: "tcp_link_exec CA CB x s = Some t \<Longrightarrow> tcp_link_step CA CB s t"
  by (induction CA CB x s rule: tcp_link_exec.induct)
    (auto simp: Let_def split: option.splits if_splits
      intro: tcp_link_step.intros act_exec_sound may_read_exec simp del: act_exec.simps)

lemma tcp_link_run_reach:
  "tcp_link_run CA CB xs s = Some t \<Longrightarrow> reach start (tcp_link_step CA CB) s \<Longrightarrow> reach start (tcp_link_step CA CB) t"
proof (induction xs arbitrary: s)
  case (Cons x xs)
  from Cons(2) obtain u where u: "tcp_link_exec CA CB x s = Some u" "tcp_link_run CA CB xs u = Some t"
    by (auto simp del: tcp_link_exec.simps split: option.splits)
  from Cons(1) [OF u(2) reach_step [OF Cons(3) tcp_link_exec_sound [OF u(1)]]] show ?case .
qed simp

text \<open>Two messages; the first frame has arrived and its message has been taken.\<close>

definition demo_stream :: "raw_message tcp_link option" where
  "demo_stream =
     tcp_link_run (demo_cfg None None) (demo_cfg None None)
       [TcpFirst ASender, TcpFirst (USend (Some (RawMessage CHR ''a'' ''b'' [5]))), TcpFirst ASender, TcpFirst ASender,
        TcpFirst (USend (Some (RawMessage CHR ''a'' ''b'' [6]))), TcpFirst ASender, TcpFirst ASender,
        TcpSecond (AReader EOF), Segment 16, TcpSecond (AReader EOF), TcpSecond (AReader EOF), TcpSecond (AReader EOF),
        TcpSecond (AReader EOF), TcpSecond URecv]
       (wrapped ''first'' 0 (replicate 12 0), no_bytes, wrapped ''second'' 0 [])"

lemma demo_stream_eval:
  "case demo_stream of None \<Rightarrow> False | Some (a, c, b) \<Rightarrow>
       queued a = [Some (RawMessage CHR ''a'' ''b'' [5]), Some (RawMessage CHR ''a'' ''b'' [6])]
     \<and> sent a = queued a \<and> sender a = SLoop \<and> send_q a = [] \<and> tape a = replicate 12 0
     \<and> taken b = [RawMessage CHR ''a'' ''b'' [5]] \<and> recv_q b = [] \<and> arrived b = []
     \<and> length (coming c) = 1 \<and> wire_segs c = take 1 (wire_frames c)"
  unfolding demo_stream_def by code_simp

lemma demo_stream_reach:
  "demo_stream = Some s \<Longrightarrow> reach (tcp_link_start ''first'' 0 (replicate 12 0) ''second'' 0 [])
     (tcp_link_step (demo_cfg None None) (demo_cfg None None)) s"
  unfolding demo_stream_def by (erule tcp_link_run_reach) (auto intro: reach_start simp: tcp_link_start_def)

theorem link_delivers_in_order_witness:
  "\<exists>a c b m. demo_stream = Some (a, c, b)
     \<and> queued a = map Some (RawMessage CHR ''a'' ''b'' [5] # delivering (reader b) @ [m])"
proof (cases demo_stream)
  case None
  with demo_stream_eval show ?thesis by simp
next
  case (Some s)
  obtain a c b where s: "s = (a, c, b)" by (cases s)
  let ?C = "demo_cfg None None" and ?bb = "one_type_builder (RawMessage CHR ''a'' ''b'' [])"
  from demo_stream_eval [unfolded Some s option.case prod.case] have
    f: "queued a = [Some (RawMessage CHR ''a'' ''b'' [5]), Some (RawMessage CHR ''a'' ''b'' [6])]"
      "sent a = queued a" "sender a = SLoop" "send_q a = []" "tape a = replicate 12 0"
      "taken b = [RawMessage CHR ''a'' ''b'' [5]]" "recv_q b = []" "arrived b = []"
      "length (coming c) = 1" "wire_segs c = take 1 (wire_frames c)" by blast+
  have "reach (tcp_link_start ''first'' 0 (replicate 12 0) ''second'' 0 []) (tcp_link_step ?C ?C) (a, c, b)"
    using demo_stream_reach Some s by simp
  moreover have agree: "ends_agree ?C ?C ?bb ?bb"
    using raw_api_laws one_type_builder_inv one_type_builder_sound by (simp add: ends_agree_def demo_cfg_def Let_def)
  moreover have "sending_well ?C ?bb a"
    using f one_type_builder_registered [of "RawMessage CHR ''a'' ''b'' []"]
    by (auto simp: sending_well_def sender_alive_def carried_def demo_cfg_def Let_def)
  moreover have "unrouted ?C m" for m by (simp add: unrouted_def route_for_def demo_cfg_def Let_def)
  moreover have "kept_apart c" using f(10) by (simp add: kept_apart_def take_is_prefix)
  ultimately obtain ms where "queued a = map Some (taken b @ recv_q b @ delivering (reader b) @ ms)
      @ putting (sender a) @ send_q a" "length ms = length (arrived b) + length (coming c)"
    using link_delivers_in_order by blast
  with f(3,4,6-9) have "queued a = map Some (RawMessage CHR ''a'' ''b'' [5] # delivering (reader b) @ ms)" "length ms = 1"
    by simp_all
  then obtain m where "queued a = map Some (RawMessage CHR ''a'' ''b'' [5] # delivering (reader b) @ [m])"
    by (cases ms) auto
  with Some s show ?thesis by blast
qed

end
