(* ===== verification/Nan0_Duplex.thy ===== *)
theory Nan0_Duplex
  imports Nan0_Stream
begin

text \<open>
  A client and a server that answers with its routes, over one connection in both directions.
  Routes are code of the library's user: \<open>cfg_execute\<close> says which values a route puts in the
  sender's channel. The server's user may put values there too; the state keeps which (\<open>own\<close>).
  Each direction of the connection is a stream of bytes as in \<open>Nan0_Stream\<close>.
\<close>

section \<open>Both directions\<close>

type_synonym 'm duplex = "'m conn_state \<times> 'm conn_state \<times> stream \<times> stream \<times> 'm option list"

inductive duplex_step ::
    "('m, 'r) conn_cfg \<Rightarrow> ('m, 'r) conn_cfg \<Rightarrow> 'm duplex \<Rightarrow> 'm duplex \<Rightarrow> bool"
  for CA :: "('m, 'r) conn_cfg" and CB :: "('m, 'r) conn_cfg" where
  d_client: "conn_step CA a a' \<Longrightarrow> length (arrived a') \<le> length (arrived a) \<Longrightarrow>
     duplex_step CA CB (a, b, ab, ba, own) (a', b, stream_write (written a a') ab, ba, own)"
| d_server: "conn_step CB b b' \<Longrightarrow> length (arrived b') \<le> length (arrived b) \<Longrightarrow> (\<forall>x. \<not> put_sender CB x b b') \<Longrightarrow>
     duplex_step CA CB (a, b, ab, ba, own) (a, b', ab, stream_write (written b b') ba, own)"
| d_server_puts: "put_sender CB x b b' \<Longrightarrow>
     duplex_step CA CB (a, b, ab, ba, own) (a, b', ab, ba, own @ [x])"
| d_to_server: "may_read ab f \<Longrightarrow>
     duplex_step CA CB (a, b, ab, ba, own) (a, b\<lparr>arrived := arrived b @ [f]\<rparr>, stream_read f ab, ba, own)"
| d_to_client: "may_read ba f \<Longrightarrow>
     duplex_step CA CB (a, b, ab, ba, own) (a\<lparr>arrived := arrived a @ [f]\<rparr>, b, ab, stream_read f ba, own)"

definition duplex_start :: "string \<Rightarrow> int \<Rightarrow> bytes \<Rightarrow> string \<Rightarrow> int \<Rightarrow> bytes \<Rightarrow> 'm duplex \<Rightarrow> bool" where
  "duplex_start name t0 tp name' t0' tp' s \<longleftrightarrow> s = (wrapped name t0 tp, wrapped name' t0' tp', no_bytes, no_bytes, [])"

lemma written_arrival [simp]: "written s (s\<lparr>arrived := x\<rparr>) = []"
  by (simp add: written_def)

lemma put_sender_quiet:
  "put_sender C x s t \<Longrightarrow> written s t = [] \<and> arrived t = arrived s \<and> queued t = queued s @ [x]
     \<and> got t = got s \<and> reader t = reader s"
  by (erule put_sender_cases) (auto simp: written_def)

text \<open>Each direction, seen alone, is a link.\<close>

fun to_server_of :: "'m duplex \<Rightarrow> 'm tcp_link" where
  "to_server_of (a, b, ab, ba, own) = (a, ab, b)"

fun to_client_of :: "'m duplex \<Rightarrow> 'm tcp_link" where
  "to_client_of (a, b, ab, ba, own) = (b, ba, a)"

lemma duplex_to_server:
  "reach (duplex_start name t0 tp name' t0' tp') (duplex_step CA CB) s \<Longrightarrow>
     reach (tcp_link_start name t0 tp name' t0' tp') (tcp_link_step CA CB) (to_server_of s)"
proof (induction rule: reach.induct)
  case (reach_start s)
  then show ?case by (auto simp: duplex_start_def tcp_link_start_def intro: reach.reach_start)
next
  case (reach_step s t)
  from reach_step(2) show ?case
  proof cases
    case (d_server_puts x b b' a ab ba own)
    have "tcp_link_step CA CB (a, ab, b) (a, ab, b')"
      by (intro tl_second c_user u_send [OF d_server_puts(3)]) (simp add: put_sender_quiet [OF d_server_puts(3)])
    with reach_step(3) d_server_puts show ?thesis by (auto intro: reach.reach_step)
  next
    case (d_to_client ba f a b ab own)
    have "tcp_link_step CA CB (a, ab, b)
        (a\<lparr>arrived := arrived a @ [f]\<rparr>, stream_write (written a (a\<lparr>arrived := arrived a @ [f]\<rparr>)) ab, b)"
      by (intro tl_first c_net n_arrive)
    with reach_step(3) d_to_client show ?thesis by (auto intro: reach.reach_step)
  qed (use reach_step(3) in \<open>auto intro: reach.reach_step tcp_link_step.intros\<close>)
qed

lemma duplex_to_client:
  "reach (duplex_start name t0 tp name' t0' tp') (duplex_step CA CB) s \<Longrightarrow>
     reach (tcp_link_start name' t0' tp' name t0 tp) (tcp_link_step CB CA) (to_client_of s)"
proof (induction rule: reach.induct)
  case (reach_start s)
  then show ?case by (auto simp: duplex_start_def tcp_link_start_def intro: reach.reach_start)
next
  case (reach_step s t)
  from reach_step(2) show ?case
  proof cases
    case (d_server_puts x b b' a ab ba own)
    have "tcp_link_step CB CA (b, ba, a) (b', stream_write (written b b') ba, a)"
      by (intro tl_first c_user u_send [OF d_server_puts(3)])
    with reach_step(3) d_server_puts put_sender_quiet [OF d_server_puts(3)] show ?thesis
      by (auto intro: reach.reach_step)
  next
    case (d_to_server ab f a b ba own)
    have "tcp_link_step CB CA (b, ba, a)
        (b\<lparr>arrived := arrived b @ [f]\<rparr>, stream_write (written b (b\<lparr>arrived := arrived b @ [f]\<rparr>)) ba, a)"
      by (intro tl_first c_net n_arrive)
    with reach_step(3) d_to_server show ?thesis by (auto intro: reach.reach_step)
  qed (use reach_step(3) in \<open>auto intro: reach.reach_step tcp_link_step.intros\<close>)
qed

section \<open>Routes\<close>

text \<open>What the route of a message answers, and what a running route still has to put.\<close>

definition answers :: "('m, 'r) conn_cfg \<Rightarrow> 'm \<Rightarrow> 'm option list" where
  "answers C m = (case route_for (cfg_rmap C) (FullName (cfg_api C) m) of
     None \<Rightarrow> [] | Some exec \<Rightarrow> fst (cfg_execute C exec m))"

fun pending_answers :: "'m reader_pc \<Rightarrow> 'm option list" where
  "pending_answers (RExec xs p) = xs"
| "pending_answers _ = []"

lemma after_receive_answers:
  "pending_answers (after_receive C (mo, err)) = (case mo of None \<Rightarrow> [] | Some m \<Rightarrow> answers C m)"
  by (auto simp: after_receive_def answers_def split: option.splits prod.splits)

text \<open>
  Two sequences put into one channel: \<open>answered\<close> are the answers that have been put there, and the
  channel's values are these and the user's own, each in its order.
\<close>

lemma shuffles_snoc: "zs \<in> shuffles xs ys \<Longrightarrow> zs @ [x] \<in> shuffles (xs @ [x]) ys"
proof (induction xs ys arbitrary: zs rule: shuffles.induct)
  case (1 ys)
  then show ?case by (induction ys arbitrary: zs) auto
qed auto

lemma shuffles_append: "zs \<in> shuffles xs ys \<Longrightarrow> zs @ us \<in> shuffles (xs @ us) ys"
proof (induction us arbitrary: zs xs)
  case (Cons u us)
  from Cons(1) [OF shuffles_snoc [OF Cons(2)]] show ?case by simp
qed simp

definition route_inv :: "('m, 'r) conn_cfg \<Rightarrow> 'm conn_state \<Rightarrow> 'm option list \<Rightarrow> bool" where
  "route_inv C s own \<longleftrightarrow>
     (\<exists>answered. queued s \<in> shuffles answered own
        \<and> answered @ pending_answers (reader s) = concat (map (answers C) (got s)))"

lemma put_sender_queued: "put_sender C x s t \<Longrightarrow> queued t = queued s @ [x]"
  by (erule put_sender_cases) auto

lemma route_inv_same:
  "queued t = queued s \<Longrightarrow> got t = got s \<Longrightarrow> pending_answers (reader t) = pending_answers (reader s) \<Longrightarrow>
     route_inv C s own \<Longrightarrow> route_inv C t own"
  by (simp add: route_inv_def)

lemma route_inv_reader:
  assumes "reader_step C s t" and "route_inv C s own" shows "route_inv C t own"
  using assms(1)
proof (cases rule: reader_step.cases)
  case (r_read e k newMsg err b)
  with assms(2) show ?thesis by (auto simp: route_inv_def after_receive_answers split: option.splits)
next
  case (r_exec x xs p s')
  from assms(2) obtain answered where *: "queued s \<in> shuffles answered own"
      "answered @ x # xs = concat (map (answers C) (got s))"
    by (auto simp: route_inv_def r_exec(2))
  show ?thesis
    unfolding route_inv_def
    by (rule exI [of _ "answered @ [x]"])
      (use * put_sender_quiet [OF r_exec(3)] in \<open>simp add: r_exec(1) shuffles_append\<close>)
qed (use assms(2) in \<open>auto elim!: route_inv_same [rotated 3]\<close>)

lemma route_inv_step:
  assumes "conn_step C s t" and "\<And>x. \<not> put_sender C x s t" and "route_inv C s own"
  shows "route_inv C t own"
  using assms(1)
proof (cases rule: conn_step.cases)
  case c_reader
  with assms(3) show ?thesis by (rule route_inv_reader [rotated])
next
  case c_sender
  then show ?thesis using assms(3) by cases (auto simp: route_inv_def)
next
  case c_signaler
  then show ?thesis using assms(3) by cases (auto simp: route_inv_def)
next
  case c_idle
  then show ?thesis using assms(3) by cases (auto simp: route_inv_def)
next
  case c_user
  then show ?thesis using assms(2,3) by cases (auto simp: route_inv_def)
next
  case c_net
  then show ?thesis using assms(3) by cases (auto simp: route_inv_def)
qed

lemma route_inv_puts:
  assumes "put_sender C x s t" and "route_inv C s own" shows "route_inv C t (own @ [x])"
proof -
  from assms(2) obtain answered where "queued s \<in> shuffles own answered"
      "answered @ pending_answers (reader s) = concat (map (answers C) (got s))"
    by (auto simp: route_inv_def shuffles_commutes)
  with shuffles_snoc [of "queued s" own answered x] put_sender_quiet [OF assms(1)] show ?thesis
    by (auto simp: route_inv_def shuffles_commutes [of _ "own @ [x]"])
qed

lemma route_inv_arrival: "route_inv C (s\<lparr>arrived := x\<rparr>) own = route_inv C s own"
  by (simp add: route_inv_def)

interpretation duplex_routes: machine_invariant "duplex_start name t0 tp name' t0' tp'" "duplex_step CA CB"
    "\<lambda>(a, b, ab, ba, own). route_inv CB b own"
  for name t0 tp name' t0' tp' CA CB
proof unfold_locales
  fix s t assume "duplex_step CA CB s t" and "case s of (a, b, ab, ba, own) \<Rightarrow> route_inv CB b own"
  then show "case t of (a, b, ab, ba, own) \<Rightarrow> route_inv CB b own"
    by cases (auto simp: route_inv_arrival intro: route_inv_step route_inv_puts)
qed (simp add: duplex_start_def wrapped_def route_inv_def)

section \<open>Answers\<close>

text \<open>
  C2. Request and response, where TCP keeps frames apart. A client without routes and a server that
  answers with its routes share a connection, whose two directions are streams of bytes that may be
  cut anywhere; both have the same keys or none, and builders that know the message types. Take any
  reachable state in which: every \<^verbatim>\<open>Read\<close> of either end has so far returned exactly one frame (the code
  needs this and TCP does not promise it); neither sender has failed or run out of random bytes; and
  every message that was sent fits into one buffer (4017 marshalled bytes). In such a state: what the client's user has put in the
  sender's channel is what the server has served, in order, followed by what is under way, being sent
  and waiting. And what the client's user has taken, followed by what is in its channel, being
  delivered, under way, being sent and waiting at the server, is an interleaving of two sequences, each
  in its order: the values the server's user has put (\<open>own\<close>), and the routes' answers to what was
  served, up to those the running route still has to put. So no request is lost, served twice or
  overtaken, and neither is an answer overtaken by another.
\<close>

theorem answers_in_order:
  assumes "ends_agree CA CB ba bb" and "ends_agree CB CA bb ba"
    and "reach (duplex_start name t0 tp name' t0' tp') (duplex_step CA CB) (a, b, cab, cba, own)"
    and "kept_apart cab" and "kept_apart cba"
    and "sending_well CA bb a" and "sending_well CB ba b" and "\<And>m. unrouted CA m"
  shows "\<exists>served under under' answered.
      queued a = map Some (served @ under) @ putting (sender a) @ send_q a
    \<and> length under = length (arrived b) + length (coming cab)
    \<and> map Some (taken a @ recv_q a @ delivering (reader a) @ under') @ putting (sender b) @ send_q b
        \<in> shuffles answered own
    \<and> answered @ pending_answers (reader b) = concat (map (answers CB) served)
    \<and> length under' = length (arrived a) + length (coming cba)"
proof -
  note to_server = tcp_link_frames [OF duplex_to_server [OF assms(3), simplified] assms(4)]
    and to_client = tcp_link_frames [OF duplex_to_client [OF assms(3), simplified] assms(5)]
  obtain ms where ms: "queued a = map Some (got b @ ms) @ putting (sender a) @ send_q a"
    "length ms = length (arrived b) + length (coming cab)" by (rule link_received [OF assms(1) to_server assms(6)])
  obtain ms' where ms': "queued b = map Some (got a @ ms') @ putting (sender b) @ send_q b"
    "length ms' = length (arrived a) + length (coming cba)" by (rule link_received [OF assms(2) to_client assms(7)])
  obtain answered where "queued b \<in> shuffles answered own"
    "answered @ pending_answers (reader b) = concat (map (answers CB) (got b))"
    using duplex_routes.reach_inv [OF assms(3)] by (auto simp: route_inv_def)
  with ms ms' link_unrouted [OF to_client assms(8)] show ?thesis
    by (intro exI [of _ "got b"] exI [of _ ms] exI [of _ ms'] exI [of _ answered]) simp
qed

section \<open>A run\<close>

datatype 'm duplex_action = AtClient "'m action" | AtServer "'m action" | ToServer nat | ToClient nat

fun puts_value :: "'m action \<Rightarrow> bool" where
  "puts_value (USend x) = True"
| "puts_value _ = False"

fun duplex_exec ::
    "('m, 'r) conn_cfg \<Rightarrow> ('m, 'r) conn_cfg \<Rightarrow> 'm duplex_action \<Rightarrow> 'm duplex \<Rightarrow> 'm duplex option" where
  "duplex_exec CA CB (AtClient x) (a, b, ab, ba, own) =
     (case act_exec CA x a of
        None \<Rightarrow> None
      | Some a' \<Rightarrow>
          if length (arrived a') \<le> length (arrived a)
          then Some (a', b, stream_write (written a a') ab, ba, own) else None)"
| "duplex_exec CA CB (AtServer x) (a, b, ab, ba, own) =
     (case x of
        USend y \<Rightarrow> map_option (\<lambda>b'. (a, b', ab, ba, own @ [y])) (put_sender_exec CB y b)
      | _ \<Rightarrow>
          (case act_exec CB x b of
             None \<Rightarrow> None
           | Some b' \<Rightarrow>
               if length (arrived b') \<le> length (arrived b)
               then Some (a, b', ab, stream_write (written b b') ba, own) else None))"
| "duplex_exec CA CB (ToServer n) (a, b, ab, ba, own) =
     (let f = cut_segment n ab in
      if may_read_exec ab f then Some (a, b\<lparr>arrived := arrived b @ [f]\<rparr>, stream_read f ab, ba, own) else None)"
| "duplex_exec CA CB (ToClient n) (a, b, ab, ba, own) =
     (let f = cut_segment n ba in
      if may_read_exec ba f then Some (a\<lparr>arrived := arrived a @ [f]\<rparr>, b, ab, stream_read f ba, own) else None)"

fun duplex_run ::
    "('m, 'r) conn_cfg \<Rightarrow> ('m, 'r) conn_cfg \<Rightarrow> 'm duplex_action list \<Rightarrow> 'm duplex \<Rightarrow> 'm duplex option" where
  "duplex_run CA CB [] s = Some s"
| "duplex_run CA CB (x # xs) s = (case duplex_exec CA CB x s of None \<Rightarrow> None | Some t \<Rightarrow> duplex_run CA CB xs t)"

lemma only_the_user_puts:
  assumes "act_exec C x s = Some t" and "\<not> puts_value x" shows "\<not> put_sender C y s t"
proof
  assume "put_sender C y s t"
  then have "length (queued t) = Suc (length (queued s)) \<and> reader t = reader s"
    by (auto elim: put_sender_cases)
  moreover have "queued t = queued s \<or> reader t \<noteq> reader s"
  proof (cases x)
    case (AReader e)
    with assms(1) show ?thesis
      by (cases e; cases "reader s")
        (auto simp: put_sender_exec_def split: list.splits if_splits sender_pc.splits option.splits prod.splits)
  next
    case ASender
    with assms(1) show ?thesis
      by (cases "sender s") (auto split: if_splits list.splits prod.splits go.splits)
  next
    case ASignaler
    with assms(1) show ?thesis by (cases "signaler (wrapper s)") (auto split: if_splits)
  qed (use assms in \<open>auto split: list.splits\<close>)
  ultimately show False by auto
qed

lemma duplex_exec_sound:
  assumes "duplex_exec CA CB x s = Some t" shows "duplex_step CA CB s t"
proof -
  obtain a b ab ba own where s: "s = (a, b, ab, ba, own)" by (cases s)
  show ?thesis
  proof (cases x)
    case (AtClient y)
    with assms s show ?thesis
      by (auto split: option.splits if_splits intro: d_client act_exec_sound simp del: act_exec.simps)
  next
    case (AtServer y)
    show ?thesis
    proof (cases "puts_value y")
      case True
      then obtain z where "y = USend z" by (cases y) auto
      with assms s AtServer show ?thesis by (auto intro: d_server_puts put_sender_exec_sound)
    next
      case False
      with assms s AtServer obtain b' where b': "act_exec CB y b = Some b'" "length (arrived b') \<le> length (arrived b)"
        "t = (a, b', ab, stream_write (written b b') ba, own)"
        by (auto split: option.splits if_splits action.splits simp del: act_exec.simps)
      with only_the_user_puts [OF b'(1) False] d_server [OF act_exec_sound [OF b'(1)] b'(2), of CA a ab ba own] s
      show ?thesis by simp
    qed
  qed (use assms s in \<open>auto simp: Let_def split: if_splits intro: duplex_step.intros may_read_exec\<close>)
qed

lemma duplex_run_reach:
  "duplex_run CA CB xs s = Some t \<Longrightarrow> reach start (duplex_step CA CB) s \<Longrightarrow> reach start (duplex_step CA CB) t"
proof (induction xs arbitrary: s)
  case (Cons x xs)
  from Cons(2) obtain u where u: "duplex_exec CA CB x s = Some u" "duplex_run CA CB xs u = Some t"
    by (auto simp del: duplex_exec.simps split: option.splits)
  from Cons(1) [OF u(2) reach_step [OF Cons(3) duplex_exec_sound [OF u(1)]]] show ?case .
qed simp

text \<open>A server that answers every message with itself; the client's first message is answered.\<close>

definition echo_cfg :: "(raw_message, unit) conn_cfg" where
  "echo_cfg = (demo_cfg None None)\<lparr>cfg_rmap := [DefaultRoute \<mapsto> ()], cfg_execute := (\<lambda>r m. ([Some m], None))\<rparr>"

definition demo_duplex :: "raw_message duplex option" where
  "demo_duplex =
     duplex_run (demo_cfg None None) echo_cfg
       ([AtClient ASender, AtClient (USend (Some (RawMessage CHR ''a'' ''b'' [5]))), AtClient ASender, AtClient ASender,
         AtClient (USend (Some (RawMessage CHR ''a'' ''b'' [6]))), ToServer 16]
        @ replicate 6 (AtServer (AReader EOF)) @ [AtServer ASender, AtServer ASender, AtServer ASender, ToClient 16]
        @ replicate 5 (AtClient (AReader EOF)) @ [AtClient URecv])
       (wrapped ''client'' 0 (replicate 12 0), wrapped ''server'' 0 (replicate 12 0), no_bytes, no_bytes, [])"

lemma demo_duplex_eval:
  "case demo_duplex of None \<Rightarrow> False | Some (a, b, ab, ba, own) \<Rightarrow>
       queued a = [Some (RawMessage CHR ''a'' ''b'' [5]), Some (RawMessage CHR ''a'' ''b'' [6])]
     \<and> sent a = [Some (RawMessage CHR ''a'' ''b'' [5])] \<and> sender a = SLoop
     \<and> send_q a = [Some (RawMessage CHR ''a'' ''b'' [6])] \<and> tape a = replicate 12 0
     \<and> taken a = [RawMessage CHR ''a'' ''b'' [5]] \<and> recv_q a = [] \<and> arrived a = []
     \<and> sent b = [Some (RawMessage CHR ''a'' ''b'' [5])] \<and> sender b = SLoop \<and> send_q b = []
     \<and> tape b = replicate 12 0 \<and> arrived b = [] \<and> coming ab = [] \<and> coming ba = []
     \<and> wire_segs ab = wire_frames ab \<and> wire_segs ba = wire_frames ba \<and> own = []"
  unfolding demo_duplex_def by code_simp

lemma demo_duplex_reach:
  "demo_duplex = Some s \<Longrightarrow> reach (duplex_start ''client'' 0 (replicate 12 0) ''server'' 0 (replicate 12 0))
     (duplex_step (demo_cfg None None) echo_cfg) s"
  unfolding demo_duplex_def by (erule duplex_run_reach) (auto intro: reach_start simp: duplex_start_def)

theorem answers_in_order_witness:
  "\<exists>a b ab ba served. demo_duplex = Some (a, b, ab, ba, [])
     \<and> queued a = map Some (served @ [RawMessage CHR ''a'' ''b'' [6]])
     \<and> concat (map (answers echo_cfg) served)
         = map Some (RawMessage CHR ''a'' ''b'' [5] # delivering (reader a)) @ pending_answers (reader b)"
proof (cases demo_duplex)
  case None
  with demo_duplex_eval show ?thesis by simp
next
  case (Some s)
  obtain a b ab ba own where s: "s = (a, b, ab, ba, own)" by (cases s)
  let ?C = "demo_cfg None None" and ?bb = "one_type_builder (RawMessage CHR ''a'' ''b'' [])"
  from demo_duplex_eval [unfolded Some s option.case prod.case] have
    f: "queued a = [Some (RawMessage CHR ''a'' ''b'' [5]), Some (RawMessage CHR ''a'' ''b'' [6])]"
      "sent a = [Some (RawMessage CHR ''a'' ''b'' [5])]" "sender a = SLoop"
      "send_q a = [Some (RawMessage CHR ''a'' ''b'' [6])]" "tape a = replicate 12 0"
      "taken a = [RawMessage CHR ''a'' ''b'' [5]]" "recv_q a = []" "arrived a = []"
      "sent b = [Some (RawMessage CHR ''a'' ''b'' [5])]" "sender b = SLoop" "send_q b = []"
      "tape b = replicate 12 0" "arrived b = []" "coming ab = []" "coming ba = []"
      "wire_segs ab = wire_frames ab" "wire_segs ba = wire_frames ba" "own = []" by blast+
  have r: "reach (duplex_start ''client'' 0 (replicate 12 0) ''server'' 0 (replicate 12 0))
      (duplex_step ?C echo_cfg) (a, b, ab, ba, own)"
    using demo_duplex_reach Some s by simp
  have e: "ends_agree ?C echo_cfg ?bb ?bb" "ends_agree echo_cfg ?C ?bb ?bb"
    using raw_api_laws one_type_builder_inv one_type_builder_sound
    by (simp_all add: ends_agree_def demo_cfg_def echo_cfg_def Let_def)
  have w: "sending_well ?C ?bb a" "sending_well echo_cfg ?bb b"
    using f one_type_builder_registered [of "RawMessage CHR ''a'' ''b'' []"]
    by (auto simp: sending_well_def sender_alive_def carried_def demo_cfg_def echo_cfg_def Let_def)
  have u: "unrouted ?C m" for m by (simp add: unrouted_def route_for_def demo_cfg_def Let_def)
  have k: "kept_apart ab" "kept_apart ba" using f(16,17) by (simp_all add: kept_apart_def)
  obtain served under under' answered where
    "queued a = map Some (served @ under) @ putting (sender a) @ send_q a" "length under = length (arrived b) + length (coming ab)"
    "map Some (taken a @ recv_q a @ delivering (reader a) @ under') @ putting (sender b) @ send_q b \<in> shuffles answered own"
    "answered @ pending_answers (reader b) = concat (map (answers echo_cfg) served)"
    "length under' = length (arrived a) + length (coming ba)"
    using answers_in_order [OF e(1) e(2) r k w(1) w(2) u] by blast
  with f(3,4,6-8,10,11,13-15,18) have "queued a = map Some (served @ [RawMessage CHR ''a'' ''b'' [6]])"
    "concat (map (answers echo_cfg) served)
       = map Some (RawMessage CHR ''a'' ''b'' [5] # delivering (reader a)) @ pending_answers (reader b)" by auto
  with Some s f(18) show ?thesis by blast
qed

end
