(* ===== verification/Nan0_Conn_Shutdown.thy ===== *)
theory Nan0_Conn_Shutdown
  imports Nan0_Conn_Claims
begin

text \<open>
  How the goroutines of a TCP wrapper end once it is closed, and when they cannot; what happens
  to frames that arrive together; what \<open>wrapConnectionTcp\<close> starts.
\<close>

section \<open>No shutdown signal is lost\<close>

definition token_inv :: "'m conn_state \<Rightarrow> bool" where
  "token_inv s \<longleftrightarrow>
     (signaler (wrapper s) \<in> {SigWriter, SigDone} \<and> readerShutdown (wrapper s) = 0 \<longrightarrow>
        reader s = RExit \<or> reader s = RDone) \<and>
     (signaler (wrapper s) = SigDone \<and> writerShutdown (wrapper s) = 0 \<longrightarrow>
        sender s = SExit \<or> sender s = SDone)"

lemma run_method_signals:
  "run_method m n = Ret n' \<Longrightarrow>
     readerShutdown n' = readerShutdown n \<and> writerShutdown n' = writerShutdown n \<and>
     (signaler n' = signaler n \<or> signaler n' = SigDeadline)"
  by (cases m) (auto simp: Close_Ret softClose_Ret)

lemma token_inv_close:
  assumes "token_inv s" and "run_method m (wrapper s) = Ret n" and "wrapper t = n"
    and "reader s = RExit \<or> reader s = RDone \<longrightarrow> reader t = RExit \<or> reader t = RDone"
    and "sender s = SExit \<or> sender s = SDone \<longrightarrow> sender t = SExit \<or> sender t = SDone"
  shows "token_inv t"
  using assms(1,4,5) run_method_signals [OF assms(2)] by (auto simp: token_inv_def assms(3))

lemma token_inv_step: "conn_step C s t \<Longrightarrow> token_inv s \<Longrightarrow> token_inv t"
proof (induction rule: conn_step.induct)
  case (c_reader s t)
  then show ?case
  proof (cases rule: reader_step.cases)
    case (r_close n)
    then show ?thesis by (intro token_inv_close [OF c_reader(2), of MClose n]) auto
  next
    case (r_exec x xs p s')
    with c_reader(2) show ?thesis
      by (auto simp: token_inv_def elim!: put_sender_cases)
  qed (auto simp: token_inv_def)
next
  case (c_sender s t)
  then show ?case
  proof (cases rule: sender_step.cases)
    case (s_close n)
    then show ?thesis by (intro token_inv_close [OF c_sender(2), of MClose n]) auto
  qed (auto simp: token_inv_def)
next
  case (c_signaler s t)
  then show ?case by cases (auto simp: token_inv_def)
next
  case (c_idle s t)
  then show ?case
  proof (cases rule: idle_step.cases)
    case (i_close n)
    then show ?thesis by (intro token_inv_close [OF c_idle(2), of MClose n]) auto
  qed (auto simp: token_inv_def)
next
  case (c_user s t)
  then show ?case
  proof (cases rule: user_step.cases)
    case (u_send x)
    with c_user(2) show ?thesis by (auto simp: token_inv_def elim!: put_sender_cases)
  next
    case (u_close meth n)
    then show ?thesis by (intro token_inv_close [OF c_user(2), of meth n]) auto
  qed (auto simp: token_inv_def)
next
  case (c_net s t)
  then show ?case by cases (auto simp: token_inv_def)
qed

interpretation conn_token: machine_invariant "conn_start name t0 tp" "conn_step C" token_inv
  for name t0 tp C
  by unfold_locales (simp add: conn_start_def wrapped_def new_nan0_def token_inv_def, rule token_inv_step)

section \<open>The goroutines of a closed wrapper can end by themselves\<close>

text \<open>
  Steps of the wrapper's own goroutines, the receiver, the sender, the one that delivers the shutdown
  signals, and the idle watch: no user, no network, no passing of time.
\<close>

inductive own_step :: "('m, 'r) conn_cfg \<Rightarrow> 'm conn_state \<Rightarrow> 'm conn_state \<Rightarrow> bool"
  for C :: "('m, 'r) conn_cfg" where
  o_reader: "reader_step C s t \<Longrightarrow> own_step C s t"
| o_sender: "sender_step C s t \<Longrightarrow> own_step C s t"
| o_signaler: "signaler_step s t \<Longrightarrow> own_step C s t"
| o_idle: "idle_step C s t \<Longrightarrow> own_step C s t"

lemma own_conn_step: "own_step C s t \<Longrightarrow> conn_step C s t"
  by (auto elim!: own_step.cases intro: conn_step.intros)

text \<open>
  A closed wrapper whose signals are all delivered; \<open>can_end\<close> says that its reader, left alone,
  does not end up blocked: no routes, and room in the receiver's channel for a message it may
  still read.
\<close>

definition signalled :: "'m conn_state \<Rightarrow> bool" where
  "signalled s \<longleftrightarrow> closed (wrapper s) \<and> signaler (wrapper s) = SigDone \<and> token_inv s"

fun reader_left :: "'m reader_pc \<Rightarrow> nat" where
  "reader_left RArm = 6"
| "reader_left RRead = 5"
| "reader_left (RDeliver m) = 4"
| "reader_left RStamp = 3"
| "reader_left RStart = 2"
| "reader_left RLoop = 2"
| "reader_left RExit = 1"
| "reader_left RDone = 0"
| "reader_left (RExec xs p) = 0"

fun sender_left :: "'m sender_pc \<Rightarrow> nat" where
  "sender_left (SPut x) = 3"
| "sender_left SStart = 2"
| "sender_left SLoop = 2"
| "sender_left SExit = 1"
| "sender_left SDone = 0"

fun signals_left :: "signaler_pc \<Rightarrow> nat" where
  "signals_left NotStarted = 4"
| "signals_left SigDeadline = 3"
| "signals_left SigReader = 2"
| "signals_left SigWriter = 1"
| "signals_left SigDone = 0"

definition can_end :: "('m, 'r) conn_cfg \<Rightarrow> 'm conn_state \<Rightarrow> bool" where
  "can_end C s \<longleftrightarrow> (\<forall>t. route_for (cfg_rmap C) t = None) \<and> (\<forall>xs p. reader s \<noteq> RExec xs p) \<and>
     (4 \<le> reader_left (reader s) \<longrightarrow> length (recv_q s) < cfg_recvCap C)"

lemma signaller_step:
  assumes "flags_inv s" and "token_inv s" and "closed (wrapper s)" and "signaler (wrapper s) \<noteq> SigDone"
  shows "\<exists>t. own_step C s t \<and> flags_inv t \<and> token_inv t \<and> closed (wrapper t) \<and>
     signals_left (signaler (wrapper t)) < signals_left (signaler (wrapper s)) \<and>
     reader t = reader s \<and> recv_q t = recv_q s"
proof -
  obtain t where t: "signaler_exec s = Some t" "closed (wrapper t)" "reader t = reader s" "recv_q t = recv_q s"
      "signals_left (signaler (wrapper t)) < signals_left (signaler (wrapper s))"
    using assms by (cases "signaler (wrapper s)") (auto simp: flags_inv_def wrapper_inv_def)
  have st: "signaler_step s t" by (rule signaler_exec_sound [OF t(1)])
  then have "conn_step C s t" by (rule c_signaler)
  with assms(1,2) have "flags_inv t" "token_inv t" by (blast intro: flags_inv_step token_inv_step)+
  with st t show ?thesis by (blast intro: o_signaler)
qed

lemma signaller_finishes:
  "flags_inv s \<Longrightarrow> token_inv s \<Longrightarrow> closed (wrapper s) \<Longrightarrow>
     \<exists>t. (own_step C)\<^sup>*\<^sup>* s t \<and> signalled t \<and> reader t = reader s \<and> recv_q t = recv_q s"
proof (induction "signals_left (signaler (wrapper s))" arbitrary: s rule: less_induct)
  case less
  show ?case
  proof (cases "signaler (wrapper s) = SigDone")
    case True
    with less.prems show ?thesis by (auto simp: signalled_def)
  next
    case False
    from signaller_step [OF less.prems False] obtain u where u: "own_step C s u" "flags_inv u" "token_inv u"
        "closed (wrapper u)" "signals_left (signaler (wrapper u)) < signals_left (signaler (wrapper s))"
        "reader u = reader s" "recv_q u = recv_q s" by blast
    from less.hyps [OF u(5,2,3,4)] obtain t where
      "(own_step C)\<^sup>*\<^sup>* u t \<and> signalled t \<and> reader t = reader u \<and> recv_q t = recv_q u" by blast
    with u show ?thesis by (metis converse_rtranclp_into_rtranclp)
  qed
qed

text \<open>The receiver and the sender keep a wrapper closed and its signals delivered.\<close>

lemma signalled_step:
  assumes "signalled s" and "reader_step C s t \<or> sender_step C s t"
  shows "signalled t"
proof -
  have "conn_step C s t" using assms(2) by (auto intro: c_reader c_sender)
  with assms(1) have "token_inv t" by (auto simp: signalled_def intro: token_inv_step)
  moreover have "closed (wrapper t) \<and> signaler (wrapper t) = SigDone"
    using assms by (elim disjE reader_step.cases sender_step.cases)
      (auto simp: signalled_def Close_Ret put_sender_receiving)
  ultimately show ?thesis by (simp add: signalled_def)
qed

lemma after_receive_unrouted:
  assumes "\<forall>t. route_for (cfg_rmap C) t = None"
  shows "after_receive C (mo, err) \<in> {RExit, RLoop} \<union> range RDeliver"
  using assms by (auto simp: after_receive_def split: option.splits)

lemma reader_one:
  assumes "signalled s" and "can_end C s" and "reader s \<noteq> RDone"
  shows "\<exists>t. reader_step C s t \<and> can_end C t \<and> reader_left (reader t) < reader_left (reader s)"
proof -
  obtain mo err b where r: "receive C (conn_view s EOF) = ((mo, err), b)" by (metis prod.exhaust_sel)
  have "after_receive C (mo, err) \<in> {RExit, RLoop} \<union> range RDeliver"
    using assms(2) by (intro after_receive_unrouted) (auto simp: can_end_def)
  then obtain t where t: "reader_exec C EOF s = Some t" "can_end C t"
      "reader_left (reader t) < reader_left (reader s)"
    using assms r by (cases "reader s") (auto simp: signalled_def token_inv_def can_end_def IsClosed_def)
  with reader_exec_sound [OF t(1)] show ?thesis by blast
qed

lemma reader_finishes:
  "signalled s \<Longrightarrow> can_end C s \<Longrightarrow> \<exists>t. (own_step C)\<^sup>*\<^sup>* s t \<and> signalled t \<and> reader t = RDone"
proof (induction "reader_left (reader s)" arbitrary: s rule: less_induct)
  case less
  show ?case
  proof (cases "reader s = RDone")
    case True
    with less.prems show ?thesis by blast
  next
    case False
    from reader_one [OF less.prems False] obtain u where u: "reader_step C s u" "can_end C u"
        "reader_left (reader u) < reader_left (reader s)" by blast
    from less.hyps [OF u(3) signalled_step [OF less.prems(1)] u(2)] u(1) show ?thesis
      by (meson converse_rtranclp_into_rtranclp o_reader)
  qed
qed

lemma sender_one:
  assumes "signalled s" and "sender s \<noteq> SDone"
  shows "\<exists>t. sender_step C s t \<and> reader t = reader s \<and> sender_left (sender t) < sender_left (sender s)"
proof -
  obtain r tp2 o2 where r: "\<And>x. sender s = SPut x \<Longrightarrow>
      send_one C (exec_writer (wrapper s)) (wrapper s) x (tape s, out s) = (r, (tp2, o2))"
    by (cases "sender s") (auto, metis prod.exhaust_sel)
  obtain t where t: "sender_exec C s = Some t" "reader t = reader s"
      "sender_left (sender t) < sender_left (sender s)"
    using assms r by (cases "sender s"; cases r) (auto simp: signalled_def token_inv_def IsClosed_def)
  with sender_exec_sound [OF t(1)] show ?thesis by blast
qed

lemma sender_finishes:
  "signalled s \<Longrightarrow>
     \<exists>t. (own_step C)\<^sup>*\<^sup>* s t \<and> signalled t \<and> reader t = reader s \<and> sender t = SDone"
proof (induction "sender_left (sender s)" arbitrary: s rule: less_induct)
  case less
  show ?case
  proof (cases "sender s = SDone")
    case True
    with less.prems show ?thesis by blast
  next
    case False
    from sender_one [OF less.prems False] obtain u where u: "sender_step C s u" "reader u = reader s"
        "sender_left (sender u) < sender_left (sender s)" by blast
    from less.hyps [OF u(3) signalled_step [OF less.prems]] u(1,2) show ?thesis
      by (metis converse_rtranclp_into_rtranclp o_sender)
  qed
qed

text \<open>The idle watch of a closed wrapper ends when it next looks after the idle duration.\<close>

lemma idle_finishes:
  assumes "closed (wrapper s)" and "LastComm (wrapper s) + cfg_idle C \<le> now s"
  shows "(own_step C)\<^sup>*\<^sup>* s (s\<lparr>idle := IDone\<rparr>)"
proof -
  have close: "Close (wrapper s) = Ret (wrapper s)" using assms(1) by (simp add: Close_Ret)
  have exit: "(own_step C)\<^sup>*\<^sup>* u (u\<lparr>idle := IDone\<rparr>)" if "idle u = IExit" "wrapper u = wrapper s" for u
  proof -
    have "own_step C u (u\<lparr>idle := IDone, wrapper := wrapper s\<rparr>)"
      using that close by (intro o_idle i_close) simp_all
    moreover have "u\<lparr>idle := IDone, wrapper := wrapper s\<rparr> = u\<lparr>idle := IDone\<rparr>"
      by (rule conn_state.equality) (simp_all add: that)
    ultimately show ?thesis by simp
  qed
  show ?thesis
  proof (cases "idle s")
    case IWatch
    then have "own_step C s (s\<lparr>idle := IExit\<rparr>)" using assms(2) by (intro o_idle i_expired) simp_all
    moreover have "(own_step C)\<^sup>*\<^sup>* (s\<lparr>idle := IExit\<rparr>) (s\<lparr>idle := IExit, idle := IDone\<rparr>)"
      using exit [of "s\<lparr>idle := IExit\<rparr>"] by simp
    ultimately show ?thesis by (simp add: converse_rtranclp_into_rtranclp)
  next
    case IExit
    with exit [of s] show ?thesis by simp
  next
    case IDone
    then have "s\<lparr>idle := IDone\<rparr> = s" by simp
    then show ?thesis by simp
  qed
qed

text \<open>
  C23. From every reachable state in which the wrapper is closed, its receiver is not running a
  route and there are no routes, and its receiver's channel has room if it may still read a message:
  the wrapper's receiver, its sender and the goroutine that delivers the shutdown signals can all run
  to their end, with no help from the user or the network and without time having to pass. The
  fourth goroutine, the idle watch, does not hear of the closing: it ends too, but only once the idle
  duration has passed since the last communication. No shutdown signal is lost and none is waited for
  in vain.
\<close>

theorem closed_goroutines_can_end:
  assumes "reach (conn_start name t0 tp) (conn_step C) s" and "IsClosed (wrapper s)" and "can_end C s"
  shows "\<exists>u. (own_step C)\<^sup>*\<^sup>* s u \<and> reader u = RDone \<and> sender u = SDone \<and> signaler (wrapper u) = SigDone
    \<and> (\<forall>d. LastComm (wrapper u) + cfg_idle C \<le> now u + d \<longrightarrow>
        (\<exists>t. (own_step C)\<^sup>*\<^sup>* (u\<lparr>now := now u + d\<rparr>) t
          \<and> reader t = RDone \<and> sender t = SDone \<and> signaler (wrapper t) = SigDone \<and> idle t = IDone))"
proof -
  obtain u where u: "(own_step C)\<^sup>*\<^sup>* s u" "signalled u" "reader u = reader s" "recv_q u = recv_q s"
    using signaller_finishes [OF conn_flags.reach_inv [OF assms(1)] conn_token.reach_inv [OF assms(1)]]
      assms(2) by (auto simp: IsClosed_def)
  with assms(3) have "can_end C u" by (simp add: can_end_def)
  from reader_finishes [OF u(2) this] obtain v where v: "(own_step C)\<^sup>*\<^sup>* u v" "signalled v" "reader v = RDone"
    by blast
  from sender_finishes [OF v(2), of C] obtain t where
    t: "(own_step C)\<^sup>*\<^sup>* v t" "signalled t" "reader t = RDone" "sender t = SDone"
    using v(3) by auto
  have "\<exists>t'. (own_step C)\<^sup>*\<^sup>* (t\<lparr>now := now t + d\<rparr>) t'
      \<and> reader t' = RDone \<and> sender t' = SDone \<and> signaler (wrapper t') = SigDone \<and> idle t' = IDone"
    if "LastComm (wrapper t) + cfg_idle C \<le> now t + d" for d
    using idle_finishes [of "t\<lparr>now := now t + d\<rparr>" C] that t
    by (intro exI [of _ "t\<lparr>now := now t + d, idle := IDone\<rparr>"]) (simp add: signalled_def)
  moreover have "(own_step C)\<^sup>*\<^sup>* s t" using u(1) v(1) t(1) by (meson rtranclp_trans)
  ultimately show ?thesis using t by (intro exI [of _ t]) (simp add: signalled_def)
qed

theorem closed_goroutines_can_end_witness:
  "\<exists>s u d t. run (demo_cfg None None) [ASender, AReader EOF, AReader EOF, AReader EOF, UClose] (wrapped ''svc'' 0 []) = Some s
     \<and> reader s = RRead \<and> sender s = SLoop \<and> idle s = IWatch
     \<and> (own_step (demo_cfg None None))\<^sup>*\<^sup>* s u \<and> reader u = RDone \<and> sender u = SDone
     \<and> (own_step (demo_cfg None None))\<^sup>*\<^sup>* (u\<lparr>now := now u + d\<rparr>) t \<and> idle t = IDone"
proof -
  let ?as = "[ASender, AReader EOF, AReader EOF, AReader EOF, UClose]"
  obtain s where s: "run (demo_cfg None None) ?as (wrapped ''svc'' 0 []) = Some s"
    and f: "reader s = RRead" "sender s = SLoop" "recv_q s = []" "IsClosed (wrapper s)" "idle s = IWatch"
    by (simp add: wrapped_def new_nan0_def close_exec_def Close_Ret IsClosed_def)
  have "can_end (demo_cfg None None) s"
    using f by (simp add: can_end_def demo_cfg_def Let_def route_for_def)
  from closed_goroutines_can_end [OF run_reach [OF s] f(4) this] obtain u where
    u: "(own_step (demo_cfg None None))\<^sup>*\<^sup>* s u" "reader u = RDone" "sender u = SDone"
    and watch: "\<And>d. LastComm (wrapper u) + cfg_idle (demo_cfg None None) \<le> now u + d \<Longrightarrow>
      \<exists>t. (own_step (demo_cfg None None))\<^sup>*\<^sup>* (u\<lparr>now := now u + d\<rparr>) t \<and> idle t = IDone" by blast
  let ?d = "LastComm (wrapper u) + cfg_idle (demo_cfg None None) - now u"
  from watch [of ?d] obtain t where "(own_step (demo_cfg None None))\<^sup>*\<^sup>* (u\<lparr>now := now u + ?d\<rparr>) t" "idle t = IDone"
    by auto
  with s f u show ?thesis by blast
qed

section \<open>A receiver that nobody listens to\<close>

text \<open>
  A receiver that holds a message for a full (or unbuffered) channel stays there through
  any steps of anyone, closing the wrapper included, as long as the user takes no message:
  the goroutine, which only looks at its shutdown signal between messages, is leaked.
\<close>

lemma blocked_receiver_stays:
  assumes "reader s = RDeliver m" and "cfg_recvCap C \<le> length (recv_q s)"
    and "(\<lambda>u v. conn_step C u v \<and> taken v = taken u)\<^sup>*\<^sup>* s t"
  shows "reader t = RDeliver m"
proof -
  have "reader t = RDeliver m \<and> cfg_recvCap C \<le> length (recv_q t)"
    using assms(3)
  proof (induction rule: rtranclp_induct)
    case (step u v)
    then have r: "reader u = RDeliver m" "cfg_recvCap C \<le> length (recv_q u)" by auto
    from step(2) have "conn_step C u v" and t: "taken v = taken u" by auto
    then show ?case
    proof (cases rule: conn_step.cases)
      case c_reader
      then show ?thesis by cases (use r in auto)
    next
      case c_sender
      then show ?thesis by cases (use r in auto)
    next
      case c_signaler
      then show ?thesis by cases (use r in auto)
    next
      case c_idle
      then show ?thesis by cases (use r in auto)
    next
      case c_user
      then show ?thesis by cases (use r t in \<open>auto simp: put_sender_receiving\<close>)
    next
      case c_net
      then show ?thesis by cases (use r in auto)
    qed
  qed (use assms in simp)
  then show ?thesis by simp
qed

section \<open>Frames that arrive together\<close>

text \<open>
  C33. When two frames arrive as one segment of at most 4096 bytes, the first is received and the
  second is lost: both are read into the buffer of a buffered reader that the next iteration of
  the receiver replaces. What the receiver can still read begins with the next segment.
\<close>

theorem frames_arriving_together_lost:
  assumes "proto_laws (cfg_api C)" and "cfg_width C = 4" and "cfg_encKey C = None"
    and "cfg_identMap C = messageIdentMap bb" and "registry_sound (cfg_api C) bb"
    and "inverseIdentMap bb (FullName (cfg_api C) m) \<noteq> None"
    and "plain_frame (cfg_api C) 4 (Some m) (ident_of (FullName (cfg_api C) m)) = Ret f1"
    and "f2 \<noteq> []" and "length (f1 @ f2) \<le> 4096"
    and "reader s = RRead" and "readable (wrapper s)" and "arrived s = (f1 @ f2) # ss"
    and "reader_step C s t"
  shows "got t = got s @ [m] \<and> arrived t = ss"
proof -
  obtain v where v: "Marshal (cfg_api C) (Some m) = Inr v"
    using assms(7) by (cases "Marshal (cfg_api C) (Some m)") (auto simp: plain_frame_def)
  obtain tb sb where f1: "f1 = ProtoPreamble @ tb @ sb @ v"
      and tb: "SizeWriter 4 (ident_of (FullName (cfg_api C) m)) = Ret tb" and sb: "SizeWriter 4 (int (length v)) = Ret sb"
    by (rule plain_frame_Ret [OF v, of 4 "ident_of (FullName (cfg_api C) m)"]) (use assms(7) in auto)
  have dec: "decode_body (cfg_api C) v (Some u) 0 None (cfg_hmacKey C) = Ret (Some m)"
    if "FullName (cfg_api C) u = FullName (cfg_api C) m" for u
    using proto_lawsD(4) [OF assms(1) v that] by (simp add: decode_body_def)
  have len: "length (ProtoPreamble @ tb @ [] @ sb @ v @ f2) \<le> 4096"
    using assms(9) by (simp add: f1)
  have rec: "\<exists>b. receive C \<lparr>segments = (f1 @ f2) # ss, fin = e\<rparr> = ((Some m, None), b)
      \<and> rd b = \<lparr>segments = ss, fin = e\<rparr>" for e
    using receive_frame [where hb = "[]" and hs = 0 and dk = None and hk = "cfg_hmacKey C",
        OF assms(1,5,6) tb _ sb len, of ss e] dec
    by (auto simp: receive_def assms(2,3,4) f1)
  from assms(13) show ?thesis
  proof (cases rule: reader_step.cases)
    case (r_read e k newMsg err b)
    with rec [of e] assms(11,12) show ?thesis by (auto simp: conn_view_def)
  qed (use assms(10) in auto)
qed

theorem frames_arriving_together_lost_witness:
  "\<exists>t. reader_step (demo_cfg None None)
      ((wrapped ''svc'' 0 [])\<lparr>reader := RRead,
         arrived := [[1, 2, 3, 255, 3, 2, 1, 77, 37, 5, 202, 0, 0, 0, 1, 9,
                      1, 2, 3, 255, 3, 2, 1, 77, 37, 5, 202, 0, 0, 0, 1, 8]]\<rparr>) t
     \<and> got t = [RawMessage CHR ''a'' ''b'' [9]] \<and> arrived t = []"
proof -
  let ?f1 = "[1, 2, 3, 255, 3, 2, 1, 77, 37, 5, 202, 0, 0, 0, 1, 9] :: bytes"
  let ?f2 = "[1, 2, 3, 255, 3, 2, 1, 77, 37, 5, 202, 0, 0, 0, 1, 8] :: bytes"
  let ?C = "demo_cfg None None" and ?m = "RawMessage CHR ''a'' ''b'' [9]"
  let ?s = "(wrapped ''svc'' 0 [])\<lparr>reader := RRead, arrived := [?f1 @ ?f2]\<rparr>"
  let ?bb = "one_type_builder (RawMessage CHR ''a'' ''b'' [])"
  obtain t where st: "reader_step ?C ?s t" by (rule reader_can_read [of ?s]) simp_all
  have f: "plain_frame (cfg_api ?C) 4 (Some ?m) (ident_of (FullName (cfg_api ?C) ?m)) = Ret ?f1"
    by code_simp
  have "got t = got ?s @ [?m] \<and> arrived t = []"
    by (rule frames_arriving_together_lost [where bb = ?bb, OF _ _ _ _ _ _ f _ _ _ _ _ st])
      (use raw_api_laws one_type_builder_sound one_type_builder_registered [of "RawMessage CHR ''a'' ''b'' []"] in
        \<open>auto simp: demo_cfg_def Let_def wrapped_def readable_def new_nan0_def\<close>)
  with st show ?thesis by (intro exI [of _ t]) (simp add: wrapped_def)
qed

section \<open>What wrapping starts\<close>

text \<open>
  \<open>wrapConnectionTcp\<close> fails, with an error and no wrapper, exactly when a channel size is
  negative. Otherwise it starts a wrapper in its first state, with the builder's channel sizes,
  routes and identities and a positive idle duration, five minutes if the builder has none.
\<close>

lemma wrapConnectionTcp_result:
  "case wrapConnectionTcp P w ex t tp ek hk bb of ((r, err), bb') \<Rightarrow>
     if receiveBuffer bb < 0 \<or> sendBuffer bb < 0 then r = None \<and> err \<noteq> None \<and> bb' = bb
     else (case r of None \<Rightarrow> False | Some (C, s) \<Rightarrow>
             err = None \<and> conn_start (ServiceName (ns bb)) t tp s \<and>
             cfg_recvCap C = nat (receiveBuffer bb) \<and> cfg_sendCap C = nat (sendBuffer bb) \<and>
             cfg_rmap C = routes bb \<and> cfg_identMap C = messageIdentMap bb \<and>
             cfg_inverseMap C = inverseIdentMap bb \<and>
             cfg_idle C = (if txRxIdleDuration bb \<le> 0 then 5 * 60 * 10 ^ 9 else txRxIdleDuration bb) \<and>
             0 < cfg_idle C)"
  by (auto simp: wrapConnectionTcp_def makeReceiveChannelFromBuilder_def makeSendChannelFromBuilder_def
      make_chan_def act_deferred_def act_bind_def conn_start_def defaultTxRxIdleDuration_def)

end
