(* ===== verification/Nan0_Link_Progress.thy ===== *)
theory Nan0_Link_Progress
  imports Nan0_Link Nan0_Conn_Shutdown
begin

text \<open>
  Progress of two TCP wrappers on one connection: as long as both are open and their goroutines
  have not given up, everything that was put in the first wrapper's sender channel can still reach
  the second wrapper's user, by a run in which every read returns one frame. With the delivery in
  order of \<open>Nan0_Stream\<close>: in such runs nothing is lost, and nothing needs to get stuck.
\<close>

section \<open>The sender empties its channel\<close>










section \<open>The receiver empties the connection\<close>










section \<open>The link empties\<close>









end
