(* ===== verification/Nan0_Handover.thy ===== *)
theory Nan0_Handover
  imports Nan0_Conn_Shutdown
begin

text \<open>
  After a handshake \<open>buildTcpClient\<close> and \<open>startServerListening\<close> wrap the connection a second time,
  with the keys, right after \<open>softClose\<close> of the temporary wrapper: its goroutines may still be at
  work on the same connection. A state is the temporary wrapper and the secure one; \<open>share\<close>
  carries what the connection itself holds from one to the other: the receive queue, the read
  deadline, whether it is open, and the time. The bytes written are kept per wrapper.
\<close>

section \<open>One connection, two wrappers\<close>

definition share :: "'m conn_state \<Rightarrow> 'm conn_state \<Rightarrow> 'm conn_state" where
  "share s t =
     t\<lparr>arrived := arrived s, now := now s,
       wrapper := (wrapper t)\<lparr>readDeadline := readDeadline (wrapper s), connOpen := connOpen (wrapper s)\<rparr>\<rparr>"

text \<open>
  What is left of the temporary wrapper are its own goroutines (\<open>own_step\<close>), with no user and no
  network of its own.
\<close>

inductive handover_step ::
    "('m, 'r) conn_cfg \<Rightarrow> ('m, 'r) conn_cfg \<Rightarrow> 'm conn_state \<times> 'm conn_state \<Rightarrow> 'm conn_state \<times> 'm conn_state \<Rightarrow> bool"
  for CT :: "('m, 'r) conn_cfg" and CS :: "('m, 'r) conn_cfg" where
  ho_temporary: "own_step CT t t' \<Longrightarrow> handover_step CT CS (t, s) (t', share t' s)"
| ho_secure: "conn_step CS s s' \<Longrightarrow> handover_step CT CS (t, s) (share s' t, s')"

text \<open>The second wrapper is made when the first has been closed with \<open>softClose\<close>.\<close>

definition handover_start ::
    "('m, 'r) conn_cfg \<Rightarrow> string \<Rightarrow> int \<Rightarrow> bytes \<Rightarrow> bytes \<Rightarrow> 'm conn_state \<times> 'm conn_state \<Rightarrow> bool" where
  "handover_start CT name t0 tp tp' h \<longleftrightarrow>
     (case h of (t, s) \<Rightarrow>
        (\<exists>u n. reach (conn_start name t0 tp) (conn_step CT) u \<and> softClose (wrapper u) = Ret n
           \<and> t = u\<lparr>wrapper := n\<rparr> \<and> s = share t (wrapped name (now t) tp')))"

fun handover_inv :: "'m conn_state \<times> 'm conn_state \<Rightarrow> bool" where
  "handover_inv (t, s) \<longleftrightarrow> closed (wrapper t) \<and> flags_inv t \<and> share t s = s"

lemma share_simps [simp]:
  "arrived (share s t) = arrived s" "reader (share s t) = reader t" "sender (share s t) = sender t"
  "idle (share s t) = idle t" "got (share s t) = got t" "now (share s t) = now s"
  "closed (wrapper (share s t)) = closed (wrapper t)" "signaler (wrapper (share s t)) = signaler (wrapper t)"
  "readDeadline (wrapper (share s t)) = readDeadline (wrapper s)" "connOpen (wrapper (share s t)) = connOpen (wrapper s)"
  "share s (share s t) = share s t" "share (share s t) s = s"
  by (simp_all add: share_def)

lemma closed_stays: "conn_step C s t \<Longrightarrow> closed (wrapper s) \<Longrightarrow> closed (wrapper t)"
proof (induction rule: conn_step.induct)
  case (c_reader s t)
  then show ?case by cases (auto simp: Close_Ret put_sender_receiving)
next
  case (c_sender s t)
  then show ?case by cases (auto simp: Close_Ret)
next
  case (c_signaler s t)
  then show ?case by cases auto
next
  case (c_idle s t)
  then show ?case by cases (auto simp: Close_Ret)
next
  case (c_user s t)
  then show ?case
  proof (cases rule: user_step.cases)
    case (u_close meth n)
    with c_user(2) show ?thesis by (cases meth) (auto simp: Close_Ret softClose_Ret)
  qed (auto simp: put_sender_receiving)
next
  case (c_net s t)
  then show ?case by cases auto
qed

lemma flags_inv_share: "closed (wrapper t) \<Longrightarrow> flags_inv t \<Longrightarrow> flags_inv (share s t)"
  by (simp add: flags_inv_def wrapper_inv_def share_def)

lemma handover_inv_step: "handover_step CT CS h h' \<Longrightarrow> handover_inv h \<Longrightarrow> handover_inv h'"
proof (induction rule: handover_step.induct)
  case (ho_temporary t t' s)
  then show ?case by (auto dest: own_conn_step closed_stays flags_inv_step)
next
  case (ho_secure s s' t)
  then show ?case by (auto intro: flags_inv_share)
qed

interpretation handover_machine: machine_invariant "handover_start CT name t0 tp tp'" "handover_step CT CS" handover_inv
  for CT name t0 tp tp' CS
proof unfold_locales
  fix h :: "'a conn_state \<times> 'a conn_state"
  assume "handover_start CT name t0 tp tp' h"
  then obtain u n where u: "reach (conn_start name t0 tp) (conn_step CT) u" "softClose (wrapper u) = Ret n"
      "h = (u\<lparr>wrapper := n\<rparr>, share (u\<lparr>wrapper := n\<rparr>) (wrapped name (now u) tp'))"
    by (auto simp: handover_start_def)
  have st: "conn_step CT u (u\<lparr>wrapper := n\<rparr>)"
    using u(2) by (intro c_user u_close [where meth = MSoftClose]) simp
  with u(1) have "flags_inv (u\<lparr>wrapper := n\<rparr>)"
    using conn_flags.reach_inv [of name t0 tp CT u] by (blast intro: flags_inv_step)
  with u(2,3) show "handover_inv h" by (auto simp: softClose_Ret)
qed (rule handover_inv_step)

section \<open>A handover without interference\<close>

text \<open>
  The temporary wrapper's receiver has left its loop and its closing goroutine has forced the
  deadline. Its sender may still be at work.
\<close>

definition harmless :: "'m conn_state \<Rightarrow> bool" where
  "harmless t \<longleftrightarrow>
     closed (wrapper t) \<and> (reader t = RExit \<or> reader t = RDone) \<and>
     signaler (wrapper t) \<in> {SigReader, SigWriter, SigDone}"

lemma harmless_step:
  assumes "own_step C t t'" and "harmless t"
  shows "harmless t' \<and> share t' s = share t s"
  using assms(1)
proof (cases rule: own_step.cases)
  case o_reader
  then show ?thesis using assms(2) by cases (auto simp: harmless_def share_def Close_Ret)
next
  case o_sender
  then show ?thesis using assms(2) by cases (auto simp: harmless_def share_def Close_Ret)
next
  case o_signaler
  then show ?thesis using assms(2) by cases (auto simp: harmless_def share_def)
next
  case o_idle
  then show ?thesis using assms(2) by cases (auto simp: harmless_def share_def Close_Ret)
qed

lemma harmless_share: "harmless (share s t) = harmless t"
  by (simp add: harmless_def share_def)

section \<open>Runs\<close>

datatype 'm handover_action = TReader | TSender | TSignaler | AtSecure "'m action"

fun handover_exec ::
    "('m, 'r) conn_cfg \<Rightarrow> ('m, 'r) conn_cfg \<Rightarrow> 'm handover_action \<Rightarrow> 'm conn_state \<times> 'm conn_state \<Rightarrow>
     ('m conn_state \<times> 'm conn_state) option" where
  "handover_exec CT CS TReader (t, s) = map_option (\<lambda>t'. (t', share t' s)) (reader_exec CT EOF t)"
| "handover_exec CT CS TSender (t, s) = map_option (\<lambda>t'. (t', share t' s)) (sender_exec CT t)"
| "handover_exec CT CS TSignaler (t, s) = map_option (\<lambda>t'. (t', share t' s)) (signaler_exec t)"
| "handover_exec CT CS (AtSecure a) (t, s) = map_option (\<lambda>s'. (share s' t, s')) (act_exec CS a s)"

fun handover_run ::
    "('m, 'r) conn_cfg \<Rightarrow> ('m, 'r) conn_cfg \<Rightarrow> 'm handover_action list \<Rightarrow> 'm conn_state \<times> 'm conn_state \<Rightarrow>
     ('m conn_state \<times> 'm conn_state) option" where
  "handover_run CT CS [] h = Some h"
| "handover_run CT CS (x # xs) h = (case handover_exec CT CS x h of None \<Rightarrow> None | Some h' \<Rightarrow> handover_run CT CS xs h')"

text \<open>A run of the temporary wrapper, \<open>softClose\<close>, and the secure wrapper.\<close>

definition begin_handover ::
    "('m, 'r) conn_cfg \<Rightarrow> 'm action list \<Rightarrow> string \<Rightarrow> int \<Rightarrow> bytes \<Rightarrow> bytes \<Rightarrow> ('m conn_state \<times> 'm conn_state) option" where
  "begin_handover CT as name t0 tp tp' =
     (case run CT as (wrapped name t0 tp) of
        None \<Rightarrow> None
      | Some u \<Rightarrow>
          (case softClose (wrapper u) of
             Ret n \<Rightarrow> (let t = u\<lparr>wrapper := n\<rparr> in Some (t, share t (wrapped name (now t) tp')))
           | Panic p \<Rightarrow> None))"

lemma handover_exec_sound:
  assumes "handover_exec CT CS x h = Some h'" shows "handover_step CT CS h h'"
proof -
  obtain t s where h: "h = (t, s)" by (cases h)
  show ?thesis
    using assms h by (cases x)
      (auto simp del: reader_exec.simps sender_exec.simps signaler_exec.simps act_exec.simps
        intro!: ho_secure ho_temporary
        intro: o_reader o_sender o_signaler reader_exec_sound sender_exec_sound signaler_exec_sound act_exec_sound)
qed

lemma handover_run_steps: "handover_run CT CS xs h = Some h' \<Longrightarrow> (handover_step CT CS)\<^sup>*\<^sup>* h h'"
proof (induction xs arbitrary: h)
  case (Cons x xs)
  from Cons(2) obtain u where u: "handover_exec CT CS x h = Some u" "handover_run CT CS xs u = Some h'"
    by (auto simp del: handover_exec.simps split: option.splits)
  from converse_rtranclp_into_rtranclp [OF handover_exec_sound [OF u(1)] Cons(1) [OF u(2)]] show ?case .
qed simp

lemma begin_handover_start:
  assumes "begin_handover CT as name t0 tp tp' = Some h"
  shows "reach (handover_start CT name t0 tp tp') (handover_step CT CS) h"
proof (rule reach_start)
  from assms obtain u n where "run CT as (wrapped name t0 tp) = Some u" "softClose (wrapper u) = Ret n"
    "h = (u\<lparr>wrapper := n\<rparr>, share (u\<lparr>wrapper := n\<rparr>) (wrapped name (now u) tp'))"
    by (auto simp: begin_handover_def Let_def split: option.splits go.splits)
  with run_reach [of CT as name t0 tp u] show "handover_start CT name t0 tp tp' h"
    by (auto simp: handover_start_def)
qed

text \<open>
  C14. When the handover is safe. From a state in which the receiver of the temporary wrapper has
  left its loop and its closing goroutine has forced the read deadline, every run of the two
  wrappers on their one connection is, for the secure wrapper, a run of its own: the leftover
  goroutines take nothing from the connection, do not touch its deadline and do not close it. So
  every property of a single wrapper's runs holds for the secure wrapper.
\<close>

theorem handover_is_invisible:
  assumes "reach (handover_start CT name t0 tp tp') (handover_step CT CS) (t, s)" and "harmless t"
    and "(handover_step CT CS)\<^sup>*\<^sup>* (t, s) (t', s')"
  shows "(conn_step CS)\<^sup>*\<^sup>* s s' \<and> harmless t'"
proof -
  have "(conn_step CS)\<^sup>*\<^sup>* s (snd h) \<and> harmless (fst h) \<and> handover_inv h"
    if "(handover_step CT CS)\<^sup>*\<^sup>* (t, s) h" for h
    using that
  proof (induction rule: rtranclp_induct)
    case base
    with assms(2) handover_machine.reach_inv [OF assms(1)] show ?case by simp
  next
    case (step h h')
    have inv: "handover_inv h'" using handover_inv_step [OF step(2)] step(3) by blast
    from step(2) show ?case
    proof (cases rule: handover_step.cases)
      case (ho_temporary u u' v)
      with step(3) harmless_step [OF ho_temporary(3), of v] inv show ?thesis by simp
    next
      case (ho_secure v v' u)
      with step(3) inv show ?thesis by (auto simp: harmless_share)
    qed
  qed
  from this [OF assms(3)] show ?thesis by simp
qed

text \<open>The closing goroutine and the receiver of the temporary wrapper are quick.\<close>

definition demo_quick :: "(raw_message conn_state \<times> raw_message conn_state) option" where
  "demo_quick =
     Option.bind (begin_handover (demo_cfg None None) [ASender, AReader EOF] ''svc'' 0 [] [])
       (handover_run (demo_cfg None None) (demo_cfg None None) [TSignaler, TSignaler, TReader])"

definition demo_used :: "(raw_message conn_state \<times> raw_message conn_state) option" where
  "demo_used =
     Option.bind demo_quick (handover_run (demo_cfg None None) (demo_cfg None None)
       ([TSignaler, AtSecure (NArrive [1, 2, 3, 255, 3, 2, 1, 77, 37, 5, 202, 0, 0, 0, 1, 9])]
        @ replicate 4 (AtSecure (AReader EOF)) @ [TReader, TSender, TSender]))"

lemma demo_used_eval:
  "case demo_quick of None \<Rightarrow> False | Some (t, s) \<Rightarrow>
     closed (wrapper t) \<and> reader t = RExit \<and> signaler (wrapper t) = SigWriter"
  "case demo_used of None \<Rightarrow> False | Some (t, s) \<Rightarrow> got s = [RawMessage CHR ''a'' ''b'' [9]] \<and> sender t = SDone"
  unfolding demo_used_def demo_quick_def by code_simp+

theorem handover_is_invisible_witness:
  "\<exists>t s t' s'. demo_quick = Some (t, s) \<and> demo_used = Some (t', s')
     \<and> (conn_step (demo_cfg None None))\<^sup>*\<^sup>* s s' \<and> got s' = [RawMessage CHR ''a'' ''b'' [9]]"
proof -
  let ?C = "demo_cfg None None"
  from demo_used_eval obtain t s t' s' where q: "demo_quick = Some (t, s)" and u: "demo_used = Some (t', s')"
    by (cases demo_quick; cases demo_used) auto
  from q obtain h where h: "begin_handover ?C [ASender, AReader EOF] ''svc'' 0 [] [] = Some h"
    "handover_run ?C ?C [TSignaler, TSignaler, TReader] h = Some (t, s)"
    unfolding demo_quick_def by (auto simp: bind_eq_Some_conv simp del: handover_run.simps)
  have r: "reach (handover_start ?C ''svc'' 0 [] []) (handover_step ?C ?C) (t, s)"
    by (rule reach_steps [OF begin_handover_start [OF h(1)] handover_run_steps [OF h(2)]])
  have st: "(handover_step ?C ?C)\<^sup>*\<^sup>* (t, s) (t', s')"
    using u unfolding demo_used_def q Option.bind.simps by (rule handover_run_steps)
  have "harmless t" using demo_used_eval(1) [unfolded q option.case prod.case] by (simp add: harmless_def)
  from handover_is_invisible [OF r this st] demo_used_eval(2) [unfolded u option.case prod.case] q u
  show ?thesis by blast
qed

section \<open>Interference\<close>

text \<open>
  C35. What the handover can break, since nothing waits for the temporary wrapper's goroutines. While
  its closing goroutine has not run, the secure receiver may already be reading: the deadline is
  then forced under it, and its read fails whatever has arrived. While the temporary receiver is
  still reading, it takes the first encrypted frame that arrives, and the secure wrapper never
  receives it.
\<close>

theorem handover_interference:
  assumes "reach (handover_start CT name t0 tp tp') (handover_step CT CS) (t, s)"
    and "connOpen (wrapper s)"
  shows "(signaler (wrapper t) = SigDeadline \<and> reader s = RRead \<longrightarrow>
        (\<exists>t' s'. handover_step CT CS (t, s) (t', s')
           \<and> (\<forall>u. reader_step CS s' u \<longrightarrow> reader u = RExit \<and> got u = got s)))
    \<and> (reader t = RRead \<and> readDeadline (wrapper s) \<noteq> PastDeadline \<longrightarrow>
        (\<exists>t' s'. handover_step CT CS (t, s) (t', s') \<and> got s' = got s
           \<and> arrived s' = segments (rd (snd (receive CT \<lparr>segments = arrived s, fin = EOF\<rparr>)))))"
proof (intro conjI impI; elim conjE)
  have inv: "share t s = s" using handover_machine.reach_inv [OF assms(1)] by simp
  then have same: "arrived t = arrived s" "connOpen (wrapper t) = connOpen (wrapper s)"
    "readDeadline (wrapper t) = readDeadline (wrapper s)" by (metis share_simps)+
  {
    assume sig: "signaler (wrapper t) = SigDeadline" and rd: "reader s = RRead"
    let ?t = "t\<lparr>wrapper := (wrapper t)\<lparr>signaler := SigReader,
       readDeadline := if connOpen (wrapper t) then PastDeadline else readDeadline (wrapper t)\<rparr>\<rparr>"
    let ?s = "share ?t s"
    have "handover_step CT CS (t, s) (?t, ?s)" by (intro ho_temporary o_signaler g_deadline sig)
    moreover have "reader u = RExit \<and> got u = got s" if "reader_step CS ?s u" for u
      using that
    proof (cases rule: reader_step.cases)
      case (r_read e k newMsg err b)
      have "\<not> readable (wrapper ?s)" using same assms(2) by (simp add: readable_def)
      then have "\<exists>e'. conn_view ?s e = \<lparr>segments = [], fin = ErrText e'\<rparr>"
        using same assms(2) by (simp add: conn_view_def)
      with r_read have "newMsg = None" "err \<noteq> None"
        by (auto simp: receive_nothing)
      with r_read show ?thesis by (simp add: after_receive_def)
    qed (use rd in auto)
    ultimately show "\<exists>t' s'. handover_step CT CS (t, s) (t', s')
           \<and> (\<forall>u. reader_step CS s' u \<longrightarrow> reader u = RExit \<and> got u = got s)" by blast
  }
  assume rd: "reader t = RRead" and dl: "readDeadline (wrapper s) \<noteq> PastDeadline"
  have open_t: "readable (wrapper t)" using same assms(2) dl by (simp add: readable_def)
  obtain newMsg err b where r: "receive CT \<lparr>segments = arrived s, fin = EOF\<rparr> = ((newMsg, err), b)"
    by (metis prod.exhaust_sel)
  then have "receive CT (conn_view t EOF) = ((newMsg, err), b)" using open_t same by (simp add: conn_view_def)
  from r_read [OF rd _ this] have "\<exists>t'. reader_step CT t t' \<and> arrived t' = segments (rd b)"
    using open_t by auto
  then obtain t' where "reader_step CT t t'" "arrived t' = segments (rd b)" by blast
  then have "handover_step CT CS (t, s) (t', share t' s)" "arrived (share t' s) = segments (rd b)" "got (share t' s) = got s"
    by (auto intro: ho_temporary o_reader)
  with r show "\<exists>t' s'. handover_step CT CS (t, s) (t', s') \<and> got s' = got s
           \<and> arrived s' = segments (rd (snd (receive CT \<lparr>segments = arrived s, fin = EOF\<rparr>)))"
    by (intro exI [of _ t'] exI [of _ "share t' s"]) simp
qed

text \<open>
  The temporary receiver is about to read when the connection is closed softly, the closing
  goroutine is late, and a frame arrives while both receivers read.
\<close>

definition demo_late :: "(raw_message conn_state \<times> raw_message conn_state) option" where
  "demo_late =
     Option.bind (begin_handover (demo_cfg None None) [ASender, AReader EOF, AReader EOF] ''svc'' 0 [] [])
       (handover_run (demo_cfg None None) (demo_cfg None None)
         [TReader, AtSecure (AReader EOF), AtSecure (AReader EOF), AtSecure (AReader EOF),
          AtSecure (NArrive [1, 2, 3, 255, 3, 2, 1, 77, 37, 5, 202, 0, 0, 0, 1, 9])])"

lemma demo_late_eval:
  "case demo_late of None \<Rightarrow> False | Some (t, s) \<Rightarrow>
     connOpen (wrapper s) \<and> reader s = RRead \<and> signaler (wrapper t) = SigDeadline \<and> reader t = RRead
     \<and> readDeadline (wrapper s) \<noteq> PastDeadline \<and> arrived s = [[1, 2, 3, 255, 3, 2, 1, 77, 37, 5, 202, 0, 0, 0, 1, 9]]"
  unfolding demo_late_def by code_simp

theorem handover_interference_witness:
  "\<exists>t s. demo_late = Some (t, s) \<and> arrived s \<noteq> []
     \<and> (\<exists>t' s'. handover_step (demo_cfg None None) (demo_cfg None None) (t, s) (t', s')
          \<and> (\<forall>u. reader_step (demo_cfg None None) s' u \<longrightarrow> reader u = RExit))
     \<and> (\<exists>t' s'. handover_step (demo_cfg None None) (demo_cfg None None) (t, s) (t', s')
          \<and> arrived s' = [] \<and> got s' = got s)"
proof -
  let ?C = "demo_cfg None None" and ?f = "[1, 2, 3, 255, 3, 2, 1, 77, 37, 5, 202, 0, 0, 0, 1, 9] :: bytes"
  obtain t s where l: "demo_late = Some (t, s)" using demo_late_eval by (cases demo_late) auto
  then obtain h where h: "begin_handover ?C [ASender, AReader EOF, AReader EOF] ''svc'' 0 [] [] = Some h"
    "handover_run ?C ?C [TReader, AtSecure (AReader EOF), AtSecure (AReader EOF), AtSecure (AReader EOF),
       AtSecure (NArrive ?f)] h = Some (t, s)"
    unfolding demo_late_def by (auto simp: bind_eq_Some_conv simp del: handover_run.simps)
  have r: "reach (handover_start ?C ''svc'' 0 [] []) (handover_step ?C ?C) (t, s)"
    by (rule reach_steps [OF begin_handover_start [OF h(1)] handover_run_steps [OF h(2)]])
  from demo_late_eval [unfolded l option.case prod.case] have
    f: "connOpen (wrapper s)" "reader s = RRead" "signaler (wrapper t) = SigDeadline" "reader t = RRead"
      "readDeadline (wrapper s) \<noteq> PastDeadline" "arrived s = [?f]" by blast+
  have e: "segments (rd (snd (receive ?C \<lparr>segments = [?f], fin = EOF\<rparr>))) = []" by code_simp
  from handover_interference [OF r f(1)] f(2-5) show ?thesis
    using l f(6) e by (intro exI [of _ t] exI [of _ s]) auto
qed

end
