(* ===== verification/Nan0_Ws.thy ===== *)
theory Nan0_Ws
  imports Nan0_Frame_Props Nan0_Conn
begin

text \<open>
  The websocket wrapper: \<^verbatim>\<open>wsnan0.go\<close>, with \<open>isPreambleValidWs\<close> of \<^verbatim>\<open>nan0Util.go\<close>
  and \<open>wrapConnectionWs\<close> of \<^verbatim>\<open>nan0WebsocketBuilder.go\<close>.

  The websocket library is not part of the repository. What the code uses of it is a parameter:
  one \<open>ReadMessage\<close> is its result \<open>ws_read\<close> (the frame type, the payload, the bytes between the
  payload's length and its capacity, the error), one \<open>WriteMessage\<close> is a function from the
  payload to an error. The frame types are the opcodes of the protocol.

  The goroutines that work on a wrapper are in \<open>Nan0_Ws_Conn\<close>.
\<close>

section \<open>Messages on a websocket\<close>

type_synonym ws_read = "int \<times> bytes \<times> bytes \<times> go_error option"

definition BinaryMessage :: int where
  "BinaryMessage = 2"

definition CloseMessage :: int where
  "CloseMessage = 8"

definition isPreambleValidWs :: "bytes \<Rightarrow> go_error option" where
  "isPreambleValidWs readBytes =
     (if preamble_matches readBytes ProtoPreamble then None else Some preamble_error)"

definition client_closed_error :: go_error where
  "client_closed_error = ErrText ''client connection closed''"

definition getMessageWs_body ::
    "'m proto_api \<Rightarrow> nat \<Rightarrow> (int \<rightharpoonup> 'm option) \<Rightarrow> ws_read \<Rightarrow> ('m option \<times> go_error option) go" where
  "getMessageWs_body P w identMap read =
     (case read of (t, buffer, spare, err) \<Rightarrow>
        if t \<noteq> BinaryMessage then
          Ret (None, if t = CloseMessage then Some client_closed_error else None)
        else
          go_bind (checkError err) (\<lambda>_.
          go_bind (go_slice buffer spare 0 (length ProtoPreamble)) (\<lambda>preamble.
          go_bind (checkError (isPreambleValidWs preamble)) (\<lambda>_.
          let messageTypeIdex = length ProtoPreamble in
          go_bind (go_slice buffer spare messageTypeIdex (messageTypeIdex + w)) (\<lambda>messageTypeBuf.
          go_bind (SizeReader messageTypeBuf) (\<lambda>messageType.
          let msg = Clone P (ident_lookup identMap messageType);
              sizeIdex = messageTypeIdex + w in
          go_bind (go_slice buffer spare sizeIdex (sizeIdex + w)) (\<lambda>sizeBuf.
          go_bind (SizeReader sizeBuf) (\<lambda>size.
          let valueIdex = sizeIdex + w in
          go_bind (go_slice_from buffer valueIdex) (\<lambda>valueBuf.
          if int (length valueBuf) \<noteq> size then Panic (PanicErr size_error)
          else go_bind (go_bind (Unmarshal P valueBuf msg) checked) (\<lambda>m. Ret (m, None)))))))))))"

definition getMessageFromConnectionWs ::
    "'m proto_api \<Rightarrow> nat \<Rightarrow> (int \<rightharpoonup> 'm option) \<Rightarrow> ws_read \<Rightarrow> 'm option \<times> go_error option" where
  "getMessageFromConnectionWs P w identMap read =
     deferred (recoverPanic (Some (\<lambda>e r. (None, Some e)))) (None, None)
       (getMessageWs_body P w identMap read)"

text \<open>The state of a send is the list of binary frames written so far.\<close>

definition putMessageWs_body ::
    "(bytes \<Rightarrow> go_error option) \<Rightarrow> 'm proto_api \<Rightarrow> nat \<Rightarrow> 'm option \<Rightarrow> (string \<rightharpoonup> int) \<Rightarrow>
     (bytes list, go_error option) act" where
  "putMessageWs_body WriteMessage P w pb inverseMap =
     (case inverseMap (getProtobufMessageName P pb) of
        None \<Rightarrow> act_lift (Panic (PanicErr ident_absent_error))
      | Some typeVal \<Rightarrow>
          act_bind (act_lift (plain_frame P w pb typeVal)) (\<lambda>bigBytes frames.
            (go_bind (checkError (WriteMessage bigBytes)) (\<lambda>_. Ret None),
             if WriteMessage bigBytes = None then frames @ [bigBytes] else frames)))"

definition putMessageInConnectionWs ::
    "(bytes \<Rightarrow> go_error option) \<Rightarrow> 'm proto_api \<Rightarrow> nat \<Rightarrow> 'm option \<Rightarrow> (string \<rightharpoonup> int) \<Rightarrow>
     bytes list \<Rightarrow> go_error option \<times> bytes list" where
  "putMessageInConnectionWs WriteMessage P w pb inverseMap =
     act_deferred (recoverPanic (Some (\<lambda>e r. Some e))) None
       (putMessageWs_body WriteMessage P w pb inverseMap)"

section \<open>The wrapper\<close>

datatype ws_signaler_pc = WsNotStarted | WsSigReader | WsSigWriter | WsSigDeadline | WsSigDone

record ws_nan0 =
  ws_ServiceName :: string
  ws_closed :: bool
  ws_connOpen :: bool
  ws_signaler :: ws_signaler_pc
  ws_readerShutdown :: nat
  ws_writerShutdown :: nat
  ws_lastTxRx :: int

definition new_ws_nan0 :: "string \<Rightarrow> int \<Rightarrow> ws_nan0" where
  "new_ws_nan0 name t0 =
     \<lparr>ws_ServiceName = name, ws_closed = False, ws_connOpen = True, ws_signaler = WsNotStarted,
      ws_readerShutdown = 0, ws_writerShutdown = 0, ws_lastTxRx = t0\<rparr>"

definition Ws_LastComm :: "ws_nan0 \<Rightarrow> int" where
  "Ws_LastComm n = ws_lastTxRx n"

definition Ws_IsClosed :: "ws_nan0 \<Rightarrow> bool" where
  "Ws_IsClosed n = ws_closed n"

definition Ws_GetServiceName :: "ws_nan0 \<Rightarrow> string" where
  "Ws_GetServiceName n = ws_ServiceName n"

definition Ws_Equals :: "ws_nan0 \<Rightarrow> ws_nan0 \<Rightarrow> bool" where
  "Ws_Equals n other \<longleftrightarrow> Ws_GetServiceName n = Ws_GetServiceName other"

definition Ws_softClose :: "ws_nan0 \<Rightarrow> ws_nan0 go" where
  "Ws_softClose n = Panic (PanicStr ''this is a no-op'')"

text \<open>The signals start, the connection is closed, the channel \<open>closed\<close> is closed, in this order.\<close>

definition Ws_Close :: "ws_nan0 \<Rightarrow> ws_nan0 go" where
  "Ws_Close n =
     (if Ws_IsClosed n then Ret n
      else let n = n\<lparr>ws_signaler := WsSigReader\<rparr>;
               n = n\<lparr>ws_connOpen := False\<rparr>
           in if ws_closed n then Panic close_panic else Ret (n\<lparr>ws_closed := True\<rparr>))"

lemma Ws_Close_Ret:
  "Ws_Close n = Ret (if ws_closed n then n
     else n\<lparr>ws_signaler := WsSigReader, ws_connOpen := False, ws_closed := True\<rparr>)"
  by (simp add: Ws_Close_def Ws_IsClosed_def Let_def)

interpretation ws_close: closer Ws_Close Ws_IsClosed
  by unfold_locales (auto simp: Ws_Close_Ret Ws_IsClosed_def)

text \<open>The goroutine that \<open>Close\<close> starts: what it does next, unless it is blocked.\<close>

definition ws_signaler_iteration :: "ws_nan0 \<Rightarrow> ws_nan0 option" where
  "ws_signaler_iteration n =
     (case ws_signaler n of
        WsSigReader \<Rightarrow> if ws_readerShutdown n < 1
          then Some (n\<lparr>ws_signaler := WsSigWriter, ws_readerShutdown := ws_readerShutdown n + 1\<rparr>) else None
      | WsSigWriter \<Rightarrow> if ws_writerShutdown n < 1
          then Some (n\<lparr>ws_signaler := WsSigDeadline, ws_writerShutdown := ws_writerShutdown n + 1\<rparr>) else None
      | WsSigDeadline \<Rightarrow> Some (n\<lparr>ws_signaler := WsSigDone\<rparr>)
      | _ \<Rightarrow> None)"

section \<open>Wrapping a connection\<close>

text \<open>
  \<open>wrapConnectionWs\<close>: the wrapper, the capacities of its channels, how long it may be idle, and
  the argument of the idle watch's ticker. Unlike the TCP version it leaves the builder alone,
  and hands the ticker the builder's duration as it is.
\<close>

record ws_start =
  ws_wrapper :: ws_nan0
  ws_recvCap :: nat
  ws_sendCap :: nat
  ws_idleLimit :: int
  ws_idleTicker :: int

definition wrapConnectionWs ::
    "int \<Rightarrow> ('m, 'r) baseBuilder \<Rightarrow> ws_start option \<times> go_error option" where
  "wrapConnectionWs t0 bb =
     deferred (recoverPanic (Some (\<lambda>e r. (None, Some e)))) (None, None)
       (go_bind (makeReceiveChannelFromBuilder bb) (\<lambda>rc.
        go_bind (makeSendChannelFromBuilder bb) (\<lambda>sc.
        Ret (Some \<lparr>ws_wrapper = new_ws_nan0 (ServiceName (ns bb)) t0, ws_recvCap = rc, ws_sendCap = sc,
               ws_idleLimit = (if txRxIdleDuration bb \<le> 0 then defaultTxRxIdleDuration else txRxIdleDuration bb),
               ws_idleTicker = txRxIdleDuration bb\<rparr>, None))))"

section \<open>Sending and receiving\<close>

lemma isPreambleValidWs_iff: "length b = 7 \<Longrightarrow> isPreambleValidWs b = None \<longleftrightarrow> b = ProtoPreamble"
  by (simp add: isPreambleValidWs_def preamble_matches_iff)

lemma isPreambleValidWs_ProtoPreamble [simp]: "isPreambleValidWs ProtoPreamble = None"
  by (simp add: isPreambleValidWs_iff)

lemma go_slice_Ret:
  "go_slice b spare lo hi = Ret bs \<Longrightarrow> hi \<le> length b \<Longrightarrow> bs = take (hi - lo) (drop lo b)"
  by (auto simp: go_slice_def split: if_splits)

lemma go_slice_panic: "go_slice b spare lo hi = Panic p \<Longrightarrow> p = slice_panic"
  by (simp add: go_slice_def split: if_splits)

text \<open>A received message fixes the whole frame.\<close>

lemma getMessageWs_Ret:
  assumes "getMessageWs_body P w identMap (t, buffer, spare, err) = Ret (Some m, e)"
  obtains tb sb v i where "t = BinaryMessage" and "err = None" and "e = None"
    and "buffer = ProtoPreamble @ tb @ sb @ v"
    and "length tb = w" and "length sb = w"
    and "SizeReader tb = Ret i" and "SizeReader sb = Ret (int (length v))"
    and "Unmarshal P v (Clone P (ident_lookup identMap i)) = Ret (Inr (Some m))"
proof -
  from assms obtain pr tb i sb n v where t: "t = BinaryMessage" and err: "err = None" and e: "e = None"
    and pr: "go_slice buffer spare 0 7 = Ret pr" "isPreambleValidWs pr = None"
    and tb: "go_slice buffer spare 7 (7 + w) = Ret tb" and i: "SizeReader tb = Ret i"
    and sb: "go_slice buffer spare (7 + w) (7 + w + w) = Ret sb" and n: "SizeReader sb = Ret n"
    and v: "go_slice_from buffer (7 + w + w) = Ret v" and len: "int (length v) = n"
    and m: "Unmarshal P v (Clone P (ident_lookup identMap i)) = Ret (Inr (Some m))"
    by (auto simp: getMessageWs_body_def Let_def go_bind_Ret_iff split: if_splits)
  from v have long: "7 + w + w \<le> length buffer" and v': "v = drop (7 + w + w) buffer"
    by (auto simp: go_slice_from_def split: if_splits)
  note parts = go_slice_Ret [OF pr(1)] go_slice_Ret [OF tb] go_slice_Ret [OF sb]
  have len_tb: "length tb = w" and len_sb: "length sb = w" using parts long by auto
  have "pr = ProtoPreamble" using parts long pr(2) by (simp add: isPreambleValidWs_iff)
  moreover have "buffer = take 7 buffer @ take w (drop 7 buffer) @ take w (drop (7 + w) buffer) @ drop (7 + w + w) buffer"
    by (metis append_take_drop_id drop_drop add.commute)
  ultimately have "buffer = ProtoPreamble @ tb @ sb @ v" using parts long v' by simp
  then show thesis by (rule that [OF t err e _ len_tb len_sb i n [folded len] m])
qed

lemma getMessageWs_frame:
  assumes "length tb = w" and "length sb = w" and "SizeReader tb = Ret i"
    and "SizeReader sb = Ret (int (length v))"
    and "Unmarshal P v (Clone P (ident_lookup identMap i)) = Ret (Inr (Some m))"
  shows "getMessageFromConnectionWs P w identMap (BinaryMessage, ProtoPreamble @ tb @ sb @ v, spare, None)
    = (Some m, None)"
proof -
  let ?b = "ProtoPreamble @ tb @ sb @ v"
  have "go_slice ?b spare 0 7 = Ret ProtoPreamble" "go_slice ?b spare 7 (7 + w) = Ret tb"
    "go_slice ?b spare (7 + w) (7 + w + w) = Ret sb" "go_slice_from ?b (7 + w + w) = Ret v"
    using assms(1,2) by (simp_all add: go_slice_def go_slice_from_def)
  with assms show ?thesis
    by (simp add: getMessageFromConnectionWs_def getMessageWs_body_def Let_def isPreambleValidWs_iff)
qed

lemma putMessageWs_frame:
  assumes "inverseMap (getProtobufMessageName P pb) = Some i" and "plain_frame P w pb i = Ret f"
    and "WriteMessage f = None"
  shows "putMessageInConnectionWs WriteMessage P w pb inverseMap frames = (None, frames @ [f])"
  using assms by (simp add: putMessageInConnectionWs_def putMessageWs_body_def act_deferred_def)

end
