(* ===== verification/Nan0_Server.thy ===== *)
theory Nan0_Server
  imports Nan0_Ws Nan0_Conn
begin

text \<open>
  The server and its connection lists: \<^verbatim>\<open>nan0Server.go\<close>.

  Wrappers are shared: both lists, the accept loop and the user hold the same one. \<open>heap\<close> is the
  store of wrappers by address, and lists hold addresses; a nil wrapper is \<open>None\<close>. The server
  knows its wrappers through an interface, so the operations take \<open>close\<close> and \<open>is_closed\<close>
  as arguments and their lemmas are proved for any \<open>closer\<close>; the TCP and the websocket wrapper
  are two. A list element is an identifier and a value, as \<open>container/list\<close> elements have an
  identity of their own. A locked section is one operation.
\<close>

section \<open>Connection lists\<close>

type_synonym conn_list = "(nat \<times> nat option) list"

definition purgeClosedConnections :: "('w \<Rightarrow> bool) \<Rightarrow> (nat \<Rightarrow> 'w) \<Rightarrow> conn_list \<Rightarrow> conn_list" where
  "purgeClosedConnections is_closed heap cl =
     (if cl = [] then cl
      else filter (\<lambda>(e, v). case v of None \<Rightarrow> False | Some a \<Rightarrow> \<not> is_closed (heap a)) cl)"

fun values_of :: "conn_list \<Rightarrow> nat list" where
  "values_of [] = []"
| "values_of ((e, None) # cl) = values_of cl"
| "values_of ((e, Some a) # cl) = a # values_of cl"

definition dumpConnListToSlice :: "conn_list \<Rightarrow> nat list" where
  "dumpConnListToSlice cl = (if cl = [] then [] else values_of cl)"

definition readConnListBack :: "conn_list \<Rightarrow> (nat \<times> nat option) option" where
  "readConnListBack cl = (if cl = [] then None else Some (last cl))"

definition clearConnList :: "conn_list \<Rightarrow> conn_list" where
  "clearConnList cl = []"

definition writeConnListElement :: "nat \<Rightarrow> nat option \<Rightarrow> conn_list \<Rightarrow> conn_list" where
  "writeConnListElement e conn cl = cl @ [(e, conn)]"

definition removeConnListElement :: "nat \<times> nat option \<Rightarrow> conn_list \<Rightarrow> nat option \<times> conn_list" where
  "removeConnListElement element cl = (snd element, filter (\<lambda>x. fst x \<noteq> fst element) cl)"

text \<open>\<^verbatim>\<open>element.Next()\<close>: an element that is in no list has no successor.\<close>

fun element_Next :: "nat \<Rightarrow> conn_list \<Rightarrow> (nat \<times> nat option) option" where
  "element_Next e [] = None"
| "element_Next e (x # cl) = (if fst x = e then (case cl of [] \<Rightarrow> None | y # ys \<Rightarrow> Some y) else element_Next e cl)"

section \<open>The server\<close>

text \<open>A listener that is there is open or closed.\<close>

record 'w nano_server =
  srv_service :: service
  connectionStreamInit :: bool
  connectionsList :: conn_list
  allConnectionsList :: conn_list
  nextElement :: nat
  srv_closed :: bool
  listener :: "bool option"
  wsServer :: bool
  mdnsServer :: bool
  heap :: "nat \<Rightarrow> 'w"

definition ActiveConnectionsCount :: "'w nano_server \<Rightarrow> int" where
  "ActiveConnectionsCount server = int (length (allConnectionsList server))"

definition Server_GetServiceName :: "'w nano_server \<Rightarrow> string" where
  "Server_GetServiceName server = ServiceName (srv_service server)"

definition Server_GetServiceType :: "'w nano_server \<Rightarrow> string" where
  "Server_GetServiceType server = ServiceType (srv_service server)"

definition Server_GetStartTime :: "'w nano_server \<Rightarrow> u64" where
  "Server_GetStartTime server = StartTime (srv_service server)"

definition Server_GetHost :: "'w nano_server \<Rightarrow> string" where
  "Server_GetHost server = HostName (srv_service server)"

definition Server_GetPort :: "'w nano_server \<Rightarrow> u32" where
  "Server_GetPort server = Port (srv_service server)"

definition Server_MdnsTag :: "'w nano_server \<Rightarrow> string" where
  "Server_MdnsTag server = MdnsTag (srv_service server)"

definition IsShutdown :: "'w nano_server \<Rightarrow> bool" where
  "IsShutdown server = srv_closed server"

definition GetAllConnections :: "'w nano_server \<Rightarrow> nat list" where
  "GetAllConnections server =
     (if IsShutdown server then [] else dumpConnListToSlice (allConnectionsList server))"

definition AddConnection :: "nat option \<Rightarrow> 'w nano_server \<Rightarrow> 'w nano_server" where
  "AddConnection conn server =
     (if IsShutdown server then server
      else server\<lparr>connectionsList := writeConnListElement (nextElement server) conn (connectionsList server),
                  allConnectionsList :=
                    writeConnListElement (nextElement server + 1) conn (allConnectionsList server),
                  nextElement := nextElement server + 2\<rparr>)"

fun close_all :: "('w \<Rightarrow> 'w go) \<Rightarrow> ('w \<Rightarrow> bool) \<Rightarrow> nat list \<Rightarrow> (nat \<Rightarrow> 'w) \<Rightarrow> (nat \<Rightarrow> 'w) go" where
  "close_all close is_closed [] h = Ret h"
| "close_all close is_closed (a # as) h =
     (if \<not> is_closed (h a)
      then go_bind (close (h a)) (\<lambda>x. close_all close is_closed as (h(a := x)))
      else close_all close is_closed as h)"

definition resetConnections ::
    "('w \<Rightarrow> 'w go) \<Rightarrow> ('w \<Rightarrow> bool) \<Rightarrow> 'w nano_server \<Rightarrow> (int \<times> 'w nano_server) go" where
  "resetConnections close is_closed server =
     go_bind (close_all close is_closed (GetAllConnections server) (heap server)) (\<lambda>h.
     Ret (0, server\<lparr>heap := h, connectionsList := clearConnList (connectionsList server),
                    allConnectionsList := clearConnList (allConnectionsList server)\<rparr>))"

text \<open>
  The part of \<open>Shutdown\<close> after \<open>resetConnections\<close>. What closing the listener, the HTTP server
  and the mDNS server reports is an argument; a listener that is closed already reports an
  error. Closing a closed channel panics.
\<close>

record shutdown_errors =
  listener_Close :: "go_error option"
  wsServer_Close :: "go_error option"
  wsServer_Shutdown :: "go_error option"
  mdnsServer_Shutdown :: "go_error option"

definition finish_shutdown :: "shutdown_errors \<Rightarrow> ('w nano_server, unit) act" where
  "finish_shutdown env =
     act_bind (\<lambda>server. case listener server of
         None \<Rightarrow> (Ret (), server)
       | Some open \<Rightarrow> (checkError (if open then listener_Close env else Some closed_conn_error),
                      server\<lparr>listener := Some False\<rparr>)) (\<lambda>_.
     act_bind (\<lambda>server. (if wsServer server
         then go_bind (checkError (wsServer_Close env)) (\<lambda>_. checkError (wsServer_Shutdown env))
         else Ret (), server)) (\<lambda>_.
     act_bind (\<lambda>server. (if mdnsServer server then checkError (mdnsServer_Shutdown env) else Ret (), server)) (\<lambda>_.
     (\<lambda>server. if srv_closed server then (Panic close_panic, server)
               else (Ret (), server\<lparr>srv_closed := True\<rparr>)))))"

text \<open>\<open>Shutdown\<close> defers \<^verbatim>\<open>recoverPanic(..)\<close> without calling the result: its panics escape.\<close>

definition Shutdown ::
    "('w \<Rightarrow> 'w go) \<Rightarrow> ('w \<Rightarrow> bool) \<Rightarrow> shutdown_errors \<Rightarrow> ('w nano_server, unit) act" where
  "Shutdown close is_closed env =
     act_bind (\<lambda>server. case resetConnections close is_closed server of
         Ret (count, server') \<Rightarrow> (Ret (), server')
       | Panic p \<Rightarrow> (Panic p, server)) (\<lambda>_. finish_shutdown env)"

section \<open>The stream of new connections\<close>

text \<open>
  One iteration of the goroutine of \<open>GetConnections\<close>, after its tick: the element it looks at
  and the list, then what it puts on the channel.
\<close>

fun stream_iteration ::
    "(nat \<times> nat option) option \<times> conn_list \<Rightarrow> nat option \<times> (nat \<times> nat option) option \<times> conn_list" where
  "stream_iteration (None, cl) = (None, readConnListBack cl, cl)"
| "stream_iteration (Some (e, Some a), cl) =
     (case removeConnListElement (e, Some a) cl of (v, cl') \<Rightarrow> (v, element_Next e cl', cl'))"
| "stream_iteration (Some (e, None), cl) = (None, element_Next e cl, cl)"

text \<open>The result of the call itself: whether a stream is started.\<close>

definition GetConnections :: "'w nano_server \<Rightarrow> bool \<times> 'w nano_server" where
  "GetConnections server =
     (if IsShutdown server then (False, server)
      else if connectionStreamInit server then (False, server)
      else (True, server\<lparr>connectionStreamInit := True\<rparr>))"

section \<open>Lemmas for any kind of wrapper\<close>

lemma values_of_append [simp]: "values_of (cl @ dl) = values_of cl @ values_of dl"
  by (induction cl rule: values_of.induct) simp_all

lemma dumpConnListToSlice_values [simp]: "dumpConnListToSlice cl = values_of cl"
  by (simp add: dumpConnListToSlice_def)

lemma purge_filter:
  "purgeClosedConnections is_closed h cl =
     filter (\<lambda>(e, v). case v of None \<Rightarrow> False | Some a \<Rightarrow> \<not> is_closed (h a)) cl"
  by (simp add: purgeClosedConnections_def)

lemma purge_values:
  "values_of (purgeClosedConnections is_closed h cl) = filter (\<lambda>a. \<not> is_closed (h a)) (values_of cl)"
  unfolding purge_filter by (induction cl rule: values_of.induct) simp_all

lemma purge_length:
  "length (values_of (purgeClosedConnections is_closed h cl)) = length (purgeClosedConnections is_closed h cl)"
  unfolding purge_filter by (induction cl rule: values_of.induct) simp_all

lemma values_of_length: "length (values_of cl) \<le> length cl"
  by (induction cl rule: values_of.induct) simp_all

context closer
begin

lemma close_all_Ret:
  "\<exists>h'. close_all close is_closed as h = Ret h' \<and> (\<forall>a \<in> set as. is_closed (h' a)) \<and>
     (\<forall>a. is_closed (h a) \<longrightarrow> h' a = h a) \<and> (\<forall>a. a \<notin> set as \<longrightarrow> h' a = h a)"
proof (induction as arbitrary: h)
  case (Cons a as)
  show ?case
  proof (cases "is_closed (h a)")
    case True
    with Cons [of h] show ?thesis by fastforce
  next
    case False
    obtain x where x: "close (h a) = Ret x" using close_total by blast
    then have cx: "is_closed x" by (rule close_closes)
    from Cons [of "h(a := x)"] obtain h' where "close_all close is_closed as (h(a := x)) = Ret h'"
      and "\<forall>b \<in> set as. is_closed (h' b)"
      and "\<forall>b. is_closed ((h(a := x)) b) \<longrightarrow> h' b = (h(a := x)) b"
      and "\<forall>b. b \<notin> set as \<longrightarrow> h' b = (h(a := x)) b" by blast
    with False x cx show ?thesis by (intro exI [of _ h']) (auto split: if_splits)
  qed
qed simp

lemma resetConnections_Ret:
  obtains h where "resetConnections close is_closed server =
      Ret (0, server\<lparr>heap := h, connectionsList := [], allConnectionsList := []\<rparr>)"
    and "\<forall>a \<in> set (GetAllConnections server). is_closed (h a)"
    and "\<forall>a. is_closed (heap server a) \<longrightarrow> h a = heap server a"
    and "\<forall>a. a \<notin> set (GetAllConnections server) \<longrightarrow> h a = heap server a"
  using close_all_Ret [of "GetAllConnections server" "heap server"]
  by (auto simp: resetConnections_def clearConnList_def intro: that)

end

end
