(* ===== verification/Go_Base64.thy ===== *)
theory Go_Base64
  imports Go_Prelude
begin

text \<open>
  \<^verbatim>\<open>base64.StdEncoding\<close> of the Go standard library, as \<^verbatim>\<open>serviceDiscovery.go\<close> uses it:
  \<open>Encode\<close>, and \<open>DecodeString\<close> with what it returns of a corrupt text: line breaks are skipped,
  and the bytes decoded before the error come back with the error.
\<close>

definition b64_alphabet :: string where
  "b64_alphabet = ''ABCDEFGHIJKLMNOPQRSTUVWXYZabcdefghijklmnopqrstuvwxyz0123456789+/''"

definition sextet_char :: "nat \<Rightarrow> char" where
  "sextet_char k = b64_alphabet ! k"

fun index_in :: "char \<Rightarrow> string \<Rightarrow> nat \<Rightarrow> nat option" where
  "index_in c [] k = None"
| "index_in c (x # xs) k = (if x = c then Some k else index_in c xs (k + 1))"

definition char_sextet :: "char \<Rightarrow> nat option" where
  "char_sextet c = index_in c b64_alphabet 0"

fun b64_Encode :: "bytes \<Rightarrow> string" where
  "b64_Encode [] = []"
| "b64_Encode [a] =
     (let n = unat a * 65536
      in [sextet_char (n div 262144), sextet_char (n div 4096 mod 64), CHR ''='', CHR ''=''])"
| "b64_Encode [a, b] =
     (let n = unat a * 65536 + unat b * 256
      in [sextet_char (n div 262144), sextet_char (n div 4096 mod 64), sextet_char (n div 64 mod 64), CHR ''=''])"
| "b64_Encode (a # b # c # rest) =
     (let n = unat a * 65536 + unat b * 256 + unat c
      in [sextet_char (n div 262144), sextet_char (n div 4096 mod 64), sextet_char (n div 64 mod 64), sextet_char (n mod 64)]
         @ b64_Encode rest)"

definition corrupt_base64 :: go_error where
  "corrupt_base64 = ErrText ''illegal base64 data''"

definition byte_of :: "nat \<Rightarrow> byte" where
  "byte_of n = word_of_nat (n mod 256)"

definition trailing :: "string \<Rightarrow> go_error option" where
  "trailing rest = (if rest = [] then None else Some corrupt_base64)"

fun b64_quanta :: "string \<Rightarrow> bytes \<times> go_error option" where
  "b64_quanta [] = ([], None)"
| "b64_quanta (c0 # c1 # c2 # c3 # rest) =
     (case (char_sextet c0, char_sextet c1) of
        (Some s0, Some s1) \<Rightarrow>
          (case (char_sextet c2, char_sextet c3) of
             (Some s2, Some s3) \<Rightarrow>
               (let n = s0 * 262144 + s1 * 4096 + s2 * 64 + s3
                in case b64_quanta rest of
                     (bs, err) \<Rightarrow> ([byte_of (n div 65536), byte_of (n div 256), byte_of n] @ bs, err))
           | (Some s2, None) \<Rightarrow>
               if c3 = CHR ''='' then
                 (let n = s0 * 262144 + s1 * 4096 + s2 * 64
                  in ([byte_of (n div 65536), byte_of (n div 256)], trailing rest))
               else ([], Some corrupt_base64)
           | (None, _) \<Rightarrow>
               if c2 = CHR ''='' \<and> c3 = CHR ''='' then
                 (let n = s0 * 262144 + s1 * 4096 in ([byte_of (n div 65536)], trailing rest))
               else ([], Some corrupt_base64))
      | _ \<Rightarrow> ([], Some corrupt_base64))"
| "b64_quanta _ = ([], Some corrupt_base64)"

definition b64_DecodeString :: "string \<Rightarrow> bytes \<times> go_error option" where
  "b64_DecodeString s = b64_quanta (filter (\<lambda>c. c \<noteq> CHR 0x0A \<and> c \<noteq> CHR 0x0D) s)"

section \<open>Round trip\<close>

lemma sextets_checked:
  "list_all (\<lambda>k. char_sextet (sextet_char k) = Some k \<and> sextet_char k \<noteq> CHR 0x0A \<and> sextet_char k \<noteq> CHR 0x0D)
     [0..<64]"
  by code_simp

lemma char_sextet_char [simp]: "k < 64 \<Longrightarrow> char_sextet (sextet_char k) = Some k"
  and sextet_char_visible: "k < 64 \<Longrightarrow> sextet_char k \<noteq> CHR 0x0A \<and> sextet_char k \<noteq> CHR 0x0D"
  using sextets_checked unfolding list_all_iff by auto

lemma char_sextet_pad [simp]: "char_sextet CHR ''='' = None"
  by code_simp

lemma byte_nat: "unat (a :: byte) < 256"
  using unsigned_less [of a, where 'a = nat] by simp

lemma byte_of_unat [simp]: "byte_of (unat a) = a"
  using byte_nat [of a] by (simp add: byte_of_def)

lemma byte_of_cong: "m mod 256 = unat a \<Longrightarrow> byte_of m = a"
  by (simp add: byte_of_def)

lemma sextets_join:
  fixes n :: nat
    shows "n div 262144 * 262144 + n div 4096 mod 64 * 4096 + n div 64 mod 64 * 64 + n mod 64 = n"
    and "n mod 64 = 0 \<Longrightarrow> n div 262144 * 262144 + n div 4096 mod 64 * 4096 + n div 64 mod 64 * 64 = n"
    and "n mod 4096 = 0 \<Longrightarrow> n div 262144 * 262144 + n div 4096 mod 64 * 4096 = n"
proof -
  have sum: "q3 * 262144 + r3 * 4096 + r2 * 64 + r1 = m"
    if "m = q1 * 64 + r1" "q1 = q2 * 64 + r2" "q2 = q3 * 64 + r3" for m q1 q2 q3 r1 r2 r3 :: nat
    using that by simp
  have q: "n div 4096 = n div 64 div 64" "n div 262144 = n div 64 div 64 div 64"
    by (simp_all add: div_mult2_eq [symmetric])
  show *: "n div 262144 * 262144 + n div 4096 mod 64 * 4096 + n div 64 mod 64 * 64 + n mod 64 = n"
    unfolding q by (rule sum [of _ "n div 64" _ "n div 64 div 64"]) simp_all
  from * show "n mod 64 = 0 \<Longrightarrow> n div 262144 * 262144 + n div 4096 mod 64 * 4096 + n div 64 mod 64 * 64 = n"
    by simp
  assume "n mod 4096 = 0"
  then obtain m where "n = 4096 * m" using mod_0_imp_dvd by blast
  then have "n mod 64 = 0" "n div 64 mod 64 = 0" by simp_all
  with * show "n div 262144 * 262144 + n div 4096 mod 64 * 4096 = n" by simp
qed

lemma sextets_small: "n < 16777216 \<Longrightarrow> (n :: nat) div 262144 < 64"
  by simp

lemma b64_quantum_three:
  assumes "n < 16777216"
  shows "b64_quanta (sextet_char (n div 262144) # sextet_char (n div 4096 mod 64) # sextet_char (n div 64 mod 64)
            # sextet_char (n mod 64) # rest)
         = (case b64_quanta rest of (bs, err) \<Rightarrow> ([byte_of (n div 65536), byte_of (n div 256), byte_of n] @ bs, err))"
  using sextets_small [OF assms] by (simp add: Let_def sextets_join(1) [of n])

lemma b64_quantum_two:
  assumes "n < 16777216" and "n mod 64 = 0"
  shows "b64_quanta [sextet_char (n div 262144), sextet_char (n div 4096 mod 64), sextet_char (n div 64 mod 64), CHR ''='']
         = ([byte_of (n div 65536), byte_of (n div 256)], None)"
  using sextets_small [OF assms(1)] by (simp add: Let_def trailing_def sextets_join(2) [OF assms(2)])

lemma b64_quantum_one:
  assumes "n < 16777216" and "n mod 4096 = 0"
  shows "b64_quanta [sextet_char (n div 262144), sextet_char (n div 4096 mod 64), CHR ''='', CHR ''='']
         = ([byte_of (n div 65536)], None)"
  using sextets_small [OF assms(1)] by (simp add: Let_def trailing_def sextets_join(3) [OF assms(2)])

lemma byte_of_drop: "byte_of (m * 256 + unat a) = a"
  by (rule byte_of_cong) (simp add: byte_nat)

lemma three_bytes:
  fixes a b c :: byte
  defines "n \<equiv> unat a * 65536 + unat b * 256 + unat c"
  shows "n < 16777216" "byte_of (n div 65536) = a" "byte_of (n div 256) = b" "byte_of n = c"
proof -
  have lt: "unat a < 256" "unat b < 256" "unat c < 256" by (rule byte_nat)+
  have n: "n = (unat a * 256 + unat b) * 256 + unat c" by (simp add: n_def)
  have "n div 256 = unat a * 256 + unat b" unfolding n using lt by simp
  then show "byte_of (n div 256) = b" by (simp only: byte_of_drop)
  have "n div 65536 = unat a" unfolding n_def using lt by simp
  then show "byte_of (n div 65536) = a" by (simp only: byte_of_unat)
  show "byte_of n = c" unfolding n by (rule byte_of_drop)
  show "n < 16777216" unfolding n_def using lt by simp
qed

lemma b64_quanta_Encode: "b64_quanta (b64_Encode bs) = (bs, None)"
proof (induction bs rule: b64_Encode.induct)
  case (2 a)
  have "4096 dvd unat a * 65536" by (rule dvd_mult) simp
  then have "unat a * 65536 mod 4096 = 0" by (rule dvd_imp_mod_0)
  note q = b64_quantum_one [OF _ this]
  from three_bytes(1,2) [of a 0 0] show ?case
    by (simp only: b64_Encode.simps Let_def unsigned_0 mult_zero_left add_0_right q)
next
  case (3 a b)
  have "64 dvd unat a * 65536 + unat b * 256" by (intro dvd_add dvd_mult) simp_all
  then have "(unat a * 65536 + unat b * 256) mod 64 = 0" by (rule dvd_imp_mod_0)
  note q = b64_quantum_two [OF _ this]
  from three_bytes(1,2,3) [of a b 0] show ?case
    by (simp only: b64_Encode.simps Let_def unsigned_0 add_0_right q)
next
  case (4 a b c rest)
  show ?case
    by (simp only: b64_Encode.simps Let_def b64_quantum_three [OF three_bytes(1)] three_bytes 4 prod.case append.simps)
qed simp

lemma b64_Encode_visible: "c \<in> set (b64_Encode bs) \<Longrightarrow> c \<noteq> CHR 0x0A \<and> c \<noteq> CHR 0x0D"
proof (induction bs rule: b64_Encode.induct)
  case (2 a)
  then show ?case using byte_nat [of a] by (auto simp: Let_def sextet_char_visible)
next
  case (3 a b)
  have "unat a * 65536 + unat b * 256 < 16777216" using byte_nat [of a] byte_nat [of b] by simp
  from sextets_small [OF this] 3 show ?case by (auto simp: Let_def sextet_char_visible)
next
  case (4 a b c rest)
  have "unat a * 65536 + unat b * 256 + unat c < 16777216"
    using byte_nat [of a] byte_nat [of b] byte_nat [of c] by simp
  from sextets_small [OF this] 4 show ?case by (auto simp: Let_def sextet_char_visible)
qed simp

lemma b64_roundtrip: "b64_DecodeString (b64_Encode bs) = (bs, None)"
proof -
  have "filter (\<lambda>c. c \<noteq> CHR 0x0A \<and> c \<noteq> CHR 0x0D) (b64_Encode bs) = b64_Encode bs"
    by (rule filter_True) (simp add: b64_Encode_visible)
  then show ?thesis by (simp add: b64_DecodeString_def b64_quanta_Encode)
qed

definition b64_decode_go :: "string \<Rightarrow> bytes go" where
  "b64_decode_go s = (case b64_DecodeString s of (bs, err) \<Rightarrow> go_bind (checkError err) (\<lambda>_. Ret bs))"

interpretation base64: codec "\<lambda>bs. Ret (b64_Encode bs)" b64_decode_go "\<lambda>bs. True"
  by unfold_locales (auto simp: b64_decode_go_def b64_roundtrip)

end
