(* ===== verification/Nan0_Discovery.thy ===== *)
theory Nan0_Discovery
  imports Nan0_Registry Go_Base64
begin

text \<open>
  Service discovery: \<^verbatim>\<open>serviceDiscovery.go\<close> and the strategies and \<open>buildDNS\<close> of
  \<^verbatim>\<open>baseBuilder.go\<close>.

  The mDNS library is not part of the repository: a published service is the record of the
  arguments it is created with, a discovered one the two fields that the code reads. Marshalling
  an \<open>MDefinition\<close> is the parameter \<open>md_api\<close>. Go iterates over a map in any order: the order is
  an argument, a list of the map's entries (\<open>lists_map\<close>).
\<close>

section \<open>Names of the registered messages\<close>

definition lists_map :: "('k \<rightharpoonup> 'v) \<Rightarrow> ('k \<times> 'v) list \<Rightarrow> bool" where
  "lists_map m kvs \<longleftrightarrow> distinct (map fst kvs) \<and> map_of kvs = m"

definition getIdentityMessageNames :: "'m proto_api \<Rightarrow> (int \<times> 'm option) list \<Rightarrow> string list" where
  "getIdentityMessageNames P kvs =
     concat (map (\<lambda>(k, v).
       let name = getProtobufMessageName P v
       in if name = getProtobufMessageName P (Some (NewPublicKey P)) then []
          else if name = getProtobufMessageName P (Some (NewEncryptedMessage P)) then []
          else if name \<noteq> '''' then [name] else []) kvs)"

section \<open>Publishing\<close>

record md_api =
  md_Marshal :: "mdefinition \<Rightarrow> go_error + bytes"
  md_Unmarshal :: "bytes \<Rightarrow> go_error + mdefinition"

definition md_laws :: "md_api \<Rightarrow> bool" where
  "md_laws M \<longleftrightarrow> (\<forall>d bs. md_Marshal M d = Inr bs \<longrightarrow> md_Unmarshal M bs = Inr d)"

record mdns_service =
  mdns_HostName :: string
  mdns_Tag :: string
  mdns_Port :: int
  mdns_TXT :: "string list"

definition mdnsDefinition :: "'m proto_api \<Rightarrow> (int \<times> 'm option) list \<Rightarrow> service \<Rightarrow> bool \<Rightarrow> mdefinition" where
  "mdnsDefinition P kvs s ws =
     \<lparr>md_ConnectionInfo =
        Some \<lparr>ci_Websocket = ws, ci_Port = Port s, ci_HostName = HostName s, ci_Uri = Uri s\<rparr>,
      md_SupportedMessageTypes = getIdentityMessageNames P kvs\<rparr>"

text \<open>
  \<open>makeMdnsServer\<close>: \<open>newService\<close> and \<open>newServer\<close> are what the mDNS library reports. The deferred
  recovery is not called, so a failure to marshal or to make the service is a panic.
\<close>

definition makeMdnsServer ::
    "md_api \<Rightarrow> (mdns_service \<Rightarrow> go_error option) \<Rightarrow> (mdns_service \<Rightarrow> go_error option) \<Rightarrow>
     'm proto_api \<Rightarrow> (int \<times> 'm option) list \<Rightarrow> ('m, 'r) baseBuilder \<Rightarrow> bool \<Rightarrow>
     (mdns_service \<times> go_error option) go" where
  "makeMdnsServer M newService newServer P kvs nsb ws =
     go_bind (checked (md_Marshal M (mdnsDefinition P kvs (ns nsb) ws))) (\<lambda>definitionBytes.
     let mdnsService =
       \<lparr>mdns_HostName = HostName (ns nsb), mdns_Tag = MdnsTag (ns nsb), mdns_Port = sint (Port (ns nsb)),
        mdns_TXT = [b64_Encode definitionBytes]\<rparr>
     in go_bind (checkError (newService mdnsService)) (\<lambda>_. Ret (mdnsService, newServer mdnsService)))"

section \<open>Discovering\<close>

record service_entry =
  InfoFields :: "string list"
  Info :: string

text \<open>
  What the discovery goroutine makes of an entry: nothing, or a definition. A failed base64
  decoding is only logged: the bytes before the error are unmarshalled all the same.
\<close>

definition discover_entry :: "md_api \<Rightarrow> service_entry \<Rightarrow> mdefinition option" where
  "discover_entry M entry =
     (if InfoFields entry \<noteq> [] then
        (case b64_DecodeString (Info entry) of (mdefBytes, err) \<Rightarrow>
         (case md_Unmarshal M mdefBytes of Inl e \<Rightarrow> None | Inr mDef \<Rightarrow> Some mDef))
      else None)"

text \<open>
  The definitions that \<open>startClientServiceDiscovery\<close> puts on its channel for \<open>n\<close> requests, in
  order. \<open>Lookup i tag\<close> are the entries that the lookup for the \<open>i\<close>-th request reports, and its
  error, which is only logged. The channels are unbuffered: a definition that nobody takes holds
  up those after it.
\<close>

definition startClientServiceDiscovery ::
    "md_api \<Rightarrow> (nat \<Rightarrow> string \<Rightarrow> service_entry list \<times> go_error option) \<Rightarrow> service \<Rightarrow> nat \<Rightarrow> mdefinition list" where
  "startClientServiceDiscovery M Lookup s n =
     concat (map (\<lambda>i. List.map_filter (discover_entry M) (fst (Lookup i (MdnsTag s)))) [0..<n])"

definition nil_deref :: panic_value where
  "nil_deref = PanicErr (ErrRuntime ''invalid memory address or nil pointer dereference'')"

definition populateServiceFromMDef :: "service \<Rightarrow> mdefinition \<Rightarrow> service go" where
  "populateServiceFromMDef s definition =
     (case md_ConnectionInfo definition of
        None \<Rightarrow> Panic nil_deref
      | Some ci \<Rightarrow>
          let s1 = s\<lparr>Port := ci_Port ci, HostName := ci_HostName ci\<rparr>
          in Ret (if ci_Websocket ci then s1\<lparr>Uri := ci_Uri ci\<rparr> else s1))"

definition allProtocolsMatch :: "'m proto_api \<Rightarrow> (int \<times> 'm option) list \<Rightarrow> mdefinition \<Rightarrow> bool" where
  "allProtocolsMatch P kvs definition =
     (let builderNames = getIdentityMessageNames P kvs;
          mdefNames = md_SupportedMessageTypes definition
      in if length builderNames \<noteq> length mdefNames then False
         else list_all (\<lambda>name. name \<in> set builderNames) mdefNames)"

definition protocols_error :: "service \<Rightarrow> go_error" where
  "protocols_error s =
     ErrText (''builder fails to satisfy all protocols for service '' @ ServiceName s)"

definition processMdef ::
    "'m proto_api \<Rightarrow> (int \<times> 'm option) list \<Rightarrow> service \<Rightarrow> mdefinition \<Rightarrow> bool \<Rightarrow>
     (go_error option \<times> service) go" where
  "processMdef P kvs s mdef strict =
     (if strict \<and> \<not> allProtocolsMatch P kvs mdef then Ret (Some (protocols_error s), s)
      else go_bind (populateServiceFromMDef s mdef) (\<lambda>s'. Ret (None, s')))"

text \<open>What a strategy meets on the channel of definitions.\<close>

datatype dns_event = Found mdefinition | DnsClosed | TimedOut

definition dns_closed_error :: go_error where
  "dns_closed_error = ErrText ''DNS is closed''"

definition dns_timeout_error :: go_error where
  "dns_timeout_error = ErrText ''client service discovery timeout''"

definition check_processed :: "(go_error option \<times> service) go \<Rightarrow> service go" where
  "check_processed r = go_bind r (\<lambda>(err, s). go_bind (checkError err) (\<lambda>_. Ret s))"

fun WithTimeout ::
    "'m proto_api \<Rightarrow> (int \<times> 'm option) list \<Rightarrow> bool \<Rightarrow> service \<Rightarrow> dns_event \<Rightarrow> service go" where
  "WithTimeout P kvs strict s (Found mdef) = check_processed (processMdef P kvs s mdef strict)"
| "WithTimeout P kvs strict s DnsClosed = go_bind (checkError (Some dns_closed_error)) (\<lambda>_. Ret s)"
| "WithTimeout P kvs strict s TimedOut = go_bind (checkError (Some dns_timeout_error)) (\<lambda>_. Ret s)"

text \<open>\<open>Default\<close> waits without a limit: for it \<open>TimedOut\<close> does not happen, so it is \<open>None\<close>.\<close>

fun Default ::
    "'m proto_api \<Rightarrow> (int \<times> 'm option) list \<Rightarrow> bool \<Rightarrow> service \<Rightarrow> dns_event \<Rightarrow> service go option" where
  "Default P kvs strict s (Found mdef) = Some (check_processed (processMdef P kvs s mdef strict))"
| "Default P kvs strict s DnsClosed = Some (go_bind (checkError (Some dns_closed_error)) (\<lambda>_. Ret s))"
| "Default P kvs strict s TimedOut = None"

text \<open>
  A call of the factory that \<open>buildDNS\<close> returns, with the strategy \<open>WithTimeout\<close>: the request
  for the next lookup is a send on a channel that the end of the context closes. The deferred
  recovery is not called here either.
\<close>

definition dns_factory ::
    "'m proto_api \<Rightarrow> (int \<times> 'm option) list \<Rightarrow> bool \<Rightarrow> dns_event \<Rightarrow> (service \<Rightarrow> ('c option \<times> go_error option) go) \<Rightarrow>
     bool \<Rightarrow> service \<Rightarrow> ('c option \<times> go_error option) go" where
  "dns_factory P kvs getNextClosed event clientBuilder strictProtocols s =
     (if getNextClosed then Panic (PanicErr (ErrRuntime ''send on closed channel''))
      else go_bind (WithTimeout P kvs strictProtocols s event) clientBuilder)"

text \<open>
  \<open>buildDNS\<close> returns that factory for a builder, whose service it updates. \<open>entries\<close> is the order
  in which Go iterates over the identities, \<open>client\<close> makes the client.
\<close>

definition buildDNS ::
    "'m proto_api \<Rightarrow> (('m, 'r) baseBuilder \<Rightarrow> (int \<times> 'm option) list) \<Rightarrow>
     (('m, 'r) baseBuilder \<Rightarrow> ('c option \<times> go_error option) go) \<Rightarrow> ('m, 'r) baseBuilder \<Rightarrow>
     bool \<Rightarrow> dns_event \<Rightarrow> bool \<Rightarrow> ('c option \<times> go_error option) go" where
  "buildDNS P entries client bb getNextClosed event strictProtocols =
     dns_factory P (entries bb) getNextClosed event (\<lambda>s. client (bb\<lparr>ns := s\<rparr>)) strictProtocols (ns bb)"

section \<open>Lemmas\<close>

text \<open>The message types a builder has registered, apart from those of the handshake.\<close>

definition own_types :: "'m proto_api \<Rightarrow> ('m, 'r) baseBuilder \<Rightarrow> string set" where
  "own_types P bb =
     {getProtobufMessageName P mo |i mo. messageIdentMap bb i = Some mo}
       - {'''', FullName P (NewPublicKey P), FullName P (NewEncryptedMessage P)}"

lemma set_names:
  "set (getIdentityMessageNames P kvs) =
     {getProtobufMessageName P v |k v. (k, v) \<in> set kvs}
       - {'''', FullName P (NewPublicKey P), FullName P (NewEncryptedMessage P)}"
  by (auto simp: getIdentityMessageNames_def Let_def split: if_splits)

lemma lists_map_mem: "lists_map m kvs \<Longrightarrow> (k, v) \<in> set kvs \<longleftrightarrow> m k = Some v"
  by (auto simp: lists_map_def)

lemma set_names_own: "lists_map (messageIdentMap bb) kvs \<Longrightarrow> set (getIdentityMessageNames P kvs) = own_types P bb"
  by (simp add: set_names own_types_def lists_map_mem)

lemma distinct_names:
  assumes "distinct (map fst kvs)"
    and "\<And>k v. (k, v) \<in> set kvs \<Longrightarrow> k = ident_of (getProtobufMessageName P v)"
  shows "distinct (getIdentityMessageNames P kvs)"
  using assms
proof (induction kvs)
  case (Cons x kvs)
  obtain k v where x: "x = (k, v)" by (cases x)
  let ?n = "getProtobufMessageName P v"
  have "?n \<notin> set (getIdentityMessageNames P kvs)"
  proof
    assume "?n \<in> set (getIdentityMessageNames P kvs)"
    then obtain k' v' where "(k', v') \<in> set kvs" "getProtobufMessageName P v' = ?n"
      by (auto simp: set_names)
    with Cons.prems(2) [of k v] Cons.prems(2) [of k' v'] x have "k' = k" by simp
    with Cons.prems(1) x \<open>(k', v') \<in> set kvs\<close> show False by force
  qed
  moreover have "distinct (getIdentityMessageNames P kvs)" using Cons by simp
  ultimately show ?case by (simp add: getIdentityMessageNames_def Let_def x)
qed (simp add: getIdentityMessageNames_def)

lemma names_of_builder:
  assumes "registry_inv P bb" and "lists_map (messageIdentMap bb) kvs"
  shows "distinct (getIdentityMessageNames P kvs) \<and> set (getIdentityMessageNames P kvs) = own_types P bb"
proof -
  have "k = ident_of (getProtobufMessageName P v)" if "(k, v) \<in> set kvs" for k v
    using assms that by (auto simp: registry_inv_def lists_map_mem)
  with assms(2) show ?thesis
    by (intro conjI distinct_names set_names_own) (auto simp: lists_map_def)
qed

end
