(* ===== verification/Nan0_Listener.thy ===== *)
theory Nan0_Listener
  imports Nan0_Server Nan0_Discovery Nan0_Conn_Run
begin

text \<open>
  Making TCP clients and servers: \<open>buildTcpClient\<close>, \<open>buildTcpServer\<close>,
  \<open>startServerListening\<close> and \<open>purgeLogic\<close> of \<^verbatim>\<open>nanoBuilder.go\<close>, with the security
  handshake of both sides.

  The package goprocrypt (RSA) is not part of the repository: encrypting an \<open>ApiKey\<close> for the
  peer and decrypting the peer's message are parameters. What the peer sends in the handshake
  is a \<open>peer_reply\<close>; a peer that sends nothing leaves the other side waiting for good, because
  the channel of a temporary wrapper is not closed with it. A call that waits for good is
  \<open>None\<close> or the outcome \<open>Blocked\<close>.
\<close>

section \<open>The handshake\<close>

datatype 'm peer_reply = Silent | Reply 'm

text \<open>\<^verbatim>\<open>copy(key[:], bs)\<close> into a new array of 32 bytes.\<close>

definition copy32 :: "bytes \<Rightarrow> bytes" where
  "copy32 bs = take 32 bs @ replicate (32 - length bs) 0"

definition wrong_format_error :: go_error where
  "wrong_format_error = ErrText ''Security handshake intercepted wrong message format''"

text \<open>
  The server's side, once a message \<open>encMsg\<close> has come in over the temporary wrapper \<open>tmp\<close>: the
  two keys, or why the connection is given up; and the temporary wrapper.
\<close>

definition server_handshake ::
    "'m proto_api \<Rightarrow> ('m \<Rightarrow> go_error + api_key) \<Rightarrow> nan0 \<Rightarrow> 'm \<Rightarrow> ((go_error + bytes \<times> bytes) \<times> nan0) go" where
  "server_handshake P rsaDecrypt tmp encMsg =
     go_bind (softClose tmp) (\<lambda>tmp.
     if FullName P encMsg \<noteq> FullName P (NewEncryptedMessage P) then
       go_bind (Close tmp) (\<lambda>tmp. Ret (Inl wrong_format_error, tmp))
     else
       (case rsaDecrypt encMsg of
          Inl err \<Rightarrow> go_bind (Close tmp) (\<lambda>tmp. Ret (Inl err, tmp))
        | Inr apiKey \<Rightarrow> Ret (Inr (copy32 (ak_EncKey apiKey), copy32 (ak_HmacKey apiKey)), tmp)))"

text \<open>The client's side: the message it sends, and its temporary wrapper.\<close>

definition client_handshake ::
    "'m proto_api \<Rightarrow> (api_key \<Rightarrow> 'm \<Rightarrow> go_error + 'm) \<Rightarrow> bytes \<Rightarrow> bytes \<Rightarrow> 'm peer_reply \<Rightarrow> nan0 \<Rightarrow>
     ('m \<times> nan0) go option" where
  "client_handshake P rsaEncrypt encKey hmac reply tmp =
     (case reply of
        Silent \<Rightarrow> None
      | Reply serverKey \<Rightarrow> Some (
          if FullName P serverKey \<noteq> FullName P (NewPublicKey P)
          then Panic (PanicErr (ErrRuntime ''interface conversion''))
          else
            go_bind (checked (rsaEncrypt \<lparr>ak_EncKey = encKey, ak_HmacKey = hmac\<rparr> serverKey)) (\<lambda>encMsg.
            go_bind (softClose tmp) (\<lambda>tmp. Ret (encMsg, tmp)))))"

section \<open>The client\<close>

type_synonym ('m, 'r) started = "('m, 'r) conn_cfg \<times> 'm conn_state"

text \<open>
  What is fixed of a run: the protobuf library, the width of the size fields, what routes do,
  the time.
\<close>

record ('m, 'r) run_env =
  env_api :: "'m proto_api"
  env_width :: nat
  env_execute :: "'r \<Rightarrow> 'm ExecutableRoute"
  env_time :: int

definition wrap_in_env ::
    "('m, 'r) run_env \<Rightarrow> bytes option \<Rightarrow> bytes option \<Rightarrow> bytes \<Rightarrow> ('m, 'r) baseBuilder \<Rightarrow>
     ('m, 'r) started option \<times> go_error option" where
  "wrap_in_env E ek hk tp bb =
     fst (wrapConnectionTcp (env_api E) (env_width E) (env_execute E) (env_time E) tp ek hk bb)"

text \<open>
  \<open>buildTcpClient\<close> after a successful dial. The deferred recovery closes the connection and
  returns the error; the last component says whether the connection is still open.
\<close>

definition client_failed :: "panic_value \<Rightarrow> (('m, 'r) started option \<times> go_error option) \<times> bool" where
  "client_failed p =
     (case p of
        PanicErr e \<Rightarrow> ((None, Some e), False)
      | PanicStr s \<Rightarrow> ((None, Some (ErrText s)), False)
      | PanicOther v \<Rightarrow> ((None, None), True))"

definition client_keys :: "(bytes, bytes \<times> bytes) act" where
  "client_keys = act_bind NewEncryptionKey (\<lambda>ek. act_bind NewHMACKey (\<lambda>hk. act_ret (ek, hk)))"

definition client_secure ::
    "('m, 'r) run_env \<Rightarrow> (api_key \<Rightarrow> 'm \<Rightarrow> go_error + 'm) \<Rightarrow> 'm peer_reply \<Rightarrow> bytes \<Rightarrow> bytes \<Rightarrow> bytes \<Rightarrow>
     ('m, 'r) baseBuilder \<Rightarrow> ((('m, 'r) started option \<times> go_error option) \<times> bool) option" where
  "client_secure E rsaEncrypt reply encKey hmac tp sec =
     (case wrap_in_env E None None tp sec of
        (_, Some err) \<Rightarrow> Some (client_failed (PanicErr err))
      | (None, None) \<Rightarrow> Some (client_failed nil_deref)
      | (Some (C, tempNano), None) \<Rightarrow>
          (case client_handshake (env_api E) rsaEncrypt encKey hmac reply (wrapper tempNano) of
             None \<Rightarrow> None
           | Some (Panic p) \<Rightarrow> Some (client_failed p)
           | Some (Ret (encMsg, tmp)) \<Rightarrow> Some (wrap_in_env E (Some encKey) (Some hmac) tp sec, connOpen tmp)))"

definition buildTcpClient ::
    "('m, 'r) run_env \<Rightarrow> go_error option \<Rightarrow> (api_key \<Rightarrow> 'm \<Rightarrow> go_error + 'm) \<Rightarrow> 'm peer_reply \<Rightarrow> bytes \<Rightarrow>
     ('m, 'r) baseBuilder \<Rightarrow> ((('m, 'r) started option \<times> go_error option) \<times> bool) option" where
  "buildTcpClient E dialErr rsaEncrypt reply tp sec =
     (case dialErr of
        Some err \<Rightarrow> Some ((None, Some err), False)
      | None \<Rightarrow>
          if secure sec then
            (case client_keys tp of
               (Panic p, tp') \<Rightarrow> Some (client_failed p)
             | (Ret (encKey, hmac), tp') \<Rightarrow> client_secure E rsaEncrypt reply encKey hmac tp' sec)
          else Some (wrap_in_env E None None tp sec, True))"

section \<open>The server\<close>

definition defaultPurgeDuration :: int where
  "defaultPurgeDuration = 60000000000"

definition defaultMaxConnections :: int where
  "defaultMaxConnections = 50"

definition new_server :: "(nat \<Rightarrow> 'w) \<Rightarrow> ('m, 'r) baseBuilder \<Rightarrow> 'w nano_server" where
  "new_server h nsb =
     \<lparr>srv_service = ns nsb, connectionStreamInit = False, connectionsList = [], allConnectionsList = [],
      nextElement = 0, srv_closed = False, listener = None, wsServer = False,
      mdnsServer = serviceDiscovery nsb, heap = h\<rparr>"

text \<open>
  \<open>buildTcpServer\<close>: \<open>mdns\<close> is the error of \<open>makeMdnsServer\<close> (or its panic), \<open>listen\<close> that of
  \<open>start\<close>. The state is the variable \<open>server\<close>, nil until it is assigned, and the builder.
\<close>

definition buildTcpServer_body ::
    "go_error option go \<Rightarrow> go_error option \<Rightarrow> (nat \<Rightarrow> 'w) \<Rightarrow>
     ('w nano_server option \<times> ('m, 'r) baseBuilder, unit) act" where
  "buildTcpServer_body mdns listen h =
     act_bind (\<lambda>(server, nsb). (if serviceDiscovery nsb then go_bind mdns checkError else Ret (), (server, nsb))) (\<lambda>_.
     act_bind (\<lambda>(server, nsb). (Ret (), (Some (new_server h nsb), nsb))) (\<lambda>_.
     act_bind (\<lambda>(server, nsb). (Ret (), (server,
        if maxServerConnections nsb \<le> 0 then nsb\<lparr>maxServerConnections := defaultMaxConnections\<rparr> else nsb))) (\<lambda>_.
     (\<lambda>(server, nsb). (checkError listen,
        (map_option (\<lambda>s. s\<lparr>listener := if listen = None then Some True else None\<rparr>) server, nsb))))))"

text \<open>The deferred handler reads \<^verbatim>\<open>server.service\<close>: it panics itself when \<open>server\<close> is nil.\<close>

definition buildTcpServer ::
    "go_error option go \<Rightarrow> go_error option \<Rightarrow> (nat \<Rightarrow> 'w) \<Rightarrow> ('m, 'r) baseBuilder \<Rightarrow>
     ('w nano_server option \<times> go_error option) go \<times> ('m, 'r) baseBuilder" where
  "buildTcpServer mdns listen h nsb =
     (case buildTcpServer_body mdns listen h (None, nsb) of
        (Ret u, (server, nsb')) \<Rightarrow> (Ret (server, None), nsb')
      | (Panic p, (server, nsb')) \<Rightarrow>
          ((case p of
              PanicOther v \<Rightarrow> Ret (server, None)
            | _ \<Rightarrow> if server = None then Panic nil_deref
                  else Ret (None, Some (case p of PanicErr e \<Rightarrow> e | PanicStr s \<Rightarrow> ErrText s))), nsb'))"

definition makeMdnsServerTcp ::
    "md_api \<Rightarrow> (mdns_service \<Rightarrow> go_error option) \<Rightarrow> (mdns_service \<Rightarrow> go_error option) \<Rightarrow>
     'm proto_api \<Rightarrow> (int \<times> 'm option) list \<Rightarrow> ('m, 'r) baseBuilder \<Rightarrow> (mdns_service \<times> go_error option) go" where
  "makeMdnsServerTcp M newService newServer P kvs nsb = makeMdnsServer M newService newServer P kvs nsb False"

text \<open>
  The builder's methods: the options first, whose panic (a nil route) nothing recovers.
  \<open>entries\<close> is the order in which Go iterates over the identities.
\<close>

definition BuildNanoClient ::
    "('m, 'r) run_env \<Rightarrow> go_error option \<Rightarrow> (api_key \<Rightarrow> 'm \<Rightarrow> go_error + 'm) \<Rightarrow> 'm peer_reply \<Rightarrow> bytes \<Rightarrow>
     ('m, 'r) build_arg list \<Rightarrow> ('m, 'r) baseBuilder \<Rightarrow> (('m, 'r) started option \<times> go_error option) go option" where
  "BuildNanoClient E dialErr rsaEncrypt reply tp opts nsb =
     (case nano_buildOpts (env_api E) opts nsb of
        Panic p \<Rightarrow> Some (Panic p)
      | Ret nsb' \<Rightarrow> map_option (\<lambda>(r, open). Ret r) (buildTcpClient E dialErr rsaEncrypt reply tp nsb'))"

definition BuildNanoServer ::
    "md_api \<Rightarrow> (mdns_service \<Rightarrow> go_error option) \<Rightarrow> (mdns_service \<Rightarrow> go_error option) \<Rightarrow>
     (('m, 'r) baseBuilder \<Rightarrow> (int \<times> 'm option) list) \<Rightarrow> go_error option \<Rightarrow> (nat \<Rightarrow> 'w) \<Rightarrow> 'm proto_api \<Rightarrow>
     ('m, 'r) build_arg list \<Rightarrow> ('m, 'r) baseBuilder \<Rightarrow> ('w nano_server option \<times> go_error option) go" where
  "BuildNanoServer M newService newServer entries listen h P opts nsb =
     go_bind (nano_buildOpts P opts nsb) (\<lambda>nsb.
       fst (buildTcpServer
              (go_bind (makeMdnsServerTcp M newService newServer P (entries nsb) nsb) (\<lambda>(s, err). Ret err))
              listen h nsb))"

definition BuildNanoDNS ::
    "'m proto_api \<Rightarrow> (('m, 'r) baseBuilder \<Rightarrow> (int \<times> 'm option) list) \<Rightarrow>
     (('m, 'r) baseBuilder \<Rightarrow> ('c option \<times> go_error option) go) \<Rightarrow> ('m, 'r) build_arg list \<Rightarrow> ('m, 'r) baseBuilder \<Rightarrow>
     (bool \<Rightarrow> dns_event \<Rightarrow> bool \<Rightarrow> ('c option \<times> go_error option) go) go" where
  "BuildNanoDNS P entries client opts nsb =
     go_bind (nano_buildOpts P opts nsb) (\<lambda>nsb. Ret (buildDNS P entries client nsb))"

definition purge_duration :: "('m, 'r) baseBuilder \<Rightarrow> int" where
  "purge_duration nsb = (if purgeConnections nsb \<le> 0 then defaultPurgeDuration else purgeConnections nsb)"

text \<open>
  One round of \<open>purgeLogic\<close>: the test sees one state of the server, the tick that follows
  another. The result is the server after the purge, \<open>None\<close> when the loop has ended.
\<close>

definition purgeLogic_round :: "('w \<Rightarrow> bool) \<Rightarrow> 'w nano_server \<Rightarrow> 'w nano_server \<Rightarrow> 'w nano_server option" where
  "purgeLogic_round is_closed tested ticked =
     (if IsShutdown tested then None
      else Some (ticked\<lparr>allConnectionsList :=
             purgeClosedConnections is_closed (heap ticked) (allConnectionsList ticked)\<rparr>))"

section \<open>The accept loop\<close>

text \<open>
  What happens at the server: a connection is accepted, with the address \<open>a\<close> for its wrapper and
  the peer's part in a handshake; the listener fails; the purge runs; a wrapper closes.
  \<open>left_open\<close> records the accepted connections that the server neither lists nor closes,
  \<open>keys_of\<close> the keys of the wrapper that was made last for an address.
\<close>

datatype 'm loop_event = Arrives nat "'m peer_reply" | AcceptFails | PurgeTick | WrapperCloses nat

datatype accept_outcome = Listening | Stopped | Blocked

record accept_state =
  srv :: "nan0 nano_server"
  left_open :: "nat list"
  keys_of :: "nat \<rightharpoonup> bytes \<times> bytes"

definition adopt :: "('m, 'r) run_env \<Rightarrow> nat \<Rightarrow> (bytes \<times> bytes) option \<Rightarrow> ('m, 'r) baseBuilder \<Rightarrow> accept_state \<Rightarrow> accept_state" where
  "adopt E a keys nsb st =
     (case wrap_in_env E (map_option fst keys) (map_option snd keys) [] nsb of
        (Some (C, c), None) \<Rightarrow>
          st\<lparr>srv := AddConnection (Some a) ((srv st)\<lparr>heap := (heap (srv st))(a := wrapper c)\<rparr>),
             left_open := if IsShutdown (srv st) then left_open st @ [a] else left_open st,
             keys_of := (keys_of st)(a := keys)\<rparr>
      | _ \<Rightarrow> st\<lparr>left_open := left_open st @ [a]\<rparr>)"

text \<open>
  A peer that stays silent: the temporary wrapper gives up and closes the connection when its
  read deadline has passed, but the loop goes on waiting for a message.
\<close>

definition accept_connection ::
    "('m, 'r) run_env \<Rightarrow> ('m \<Rightarrow> go_error + api_key) \<Rightarrow> ('m, 'r) baseBuilder \<Rightarrow> nat \<Rightarrow> 'm peer_reply \<Rightarrow>
     accept_state \<Rightarrow> accept_outcome \<times> accept_state" where
  "accept_connection E rsaDecrypt nsb a reply st =
     (if ActiveConnectionsCount (srv st) = maxServerConnections nsb then
        (Stopped, st\<lparr>left_open := left_open st @ [a]\<rparr>)
      else if secure nsb then
        (case wrap_in_env E None None [] nsb of
           (Some (C, tempNano), None) \<Rightarrow>
             (case reply of
                Silent \<Rightarrow> (Blocked, st)
              | Reply encMsg \<Rightarrow>
                  (case server_handshake (env_api E) rsaDecrypt (wrapper tempNano) encMsg of
                     Ret (Inr keys, tmp) \<Rightarrow> (Listening, adopt E a (Some keys) nsb st)
                   | Ret (Inl err, tmp) \<Rightarrow>
                       (Listening, if connOpen tmp then st\<lparr>left_open := left_open st @ [a]\<rparr> else st)
                   | Panic p \<Rightarrow> (Stopped, st)))
         | _ \<Rightarrow> (Listening, st\<lparr>left_open := left_open st @ [a]\<rparr>))
      else (Listening, adopt E a None nsb st))"

fun startServerListening ::
    "('m, 'r) run_env \<Rightarrow> ('m \<Rightarrow> go_error + api_key) \<Rightarrow> ('m, 'r) baseBuilder \<Rightarrow> 'm loop_event list \<Rightarrow>
     accept_state \<Rightarrow> accept_outcome \<times> accept_state" where
  "startServerListening E dec nsb [] st = (Listening, st)"
| "startServerListening E dec nsb (AcceptFails # evs) st = (Stopped, st)"
| "startServerListening E dec nsb (Arrives a reply # evs) st =
     (case accept_connection E dec nsb a reply st of
        (Listening, st') \<Rightarrow> startServerListening E dec nsb evs st'
      | (oc, st') \<Rightarrow> (oc, st'))"
| "startServerListening E dec nsb (PurgeTick # evs) st =
     (case purgeLogic_round IsClosed (srv st) (srv st) of
        None \<Rightarrow> startServerListening E dec nsb evs st
      | Some s \<Rightarrow> startServerListening E dec nsb evs (st\<lparr>srv := s\<rparr>))"
| "startServerListening E dec nsb (WrapperCloses a # evs) st =
     startServerListening E dec nsb evs
       (st\<lparr>srv := (srv st)\<lparr>heap := (heap (srv st))(a := close_exec (heap (srv st) a))\<rparr>\<rparr>)"

end
