(* ===== verification/Nan0_Server_Claims.thy ===== *)
theory Nan0_Server_Claims
  imports Nan0_Server Nan0_Conn_Run "HOL-Library.Multiset"
begin

text \<open>
  What single calls of the server's methods do: purging, and shutting down, for any kind of wrapper
  (locale \<open>closer\<close>), with the TCP wrapper as the instance the claim is stated for; and the stream of
  new connections. Methods that interleave are the subject of \<open>Nan0_Serving\<close> and \<open>Nan0_Accepting\<close>.
\<close>

section \<open>A call of \<open>Shutdown\<close>\<close>

lemma finish_shutdown_Ret:
  "finish_shutdown env s = (Ret u, s') \<Longrightarrow>
     srv_closed s' \<and> \<not> srv_closed s \<and> heap s' = heap s \<and> allConnectionsList s' = allConnectionsList s
     \<and> connectionsList s' = connectionsList s \<and> (listener s' = None \<longleftrightarrow> listener s = None)
     \<and> listener s' \<noteq> Some True \<and> wsServer s' = wsServer s \<and> mdnsServer s' = mdnsServer s"
  by (auto simp: finish_shutdown_def elim!: act_bind_RetE split: option.splits if_splits)

context closer
begin

lemma Shutdown_Ret:
  assumes "Shutdown close is_closed env s = (Ret u, s')"
  shows "srv_closed s' \<and> \<not> srv_closed s \<and> allConnectionsList s' = [] \<and> connectionsList s' = []
    \<and> (\<forall>a \<in> set (values_of (allConnectionsList s)). is_closed (heap s' a))
    \<and> (\<forall>a. is_closed (heap s a) \<longrightarrow> heap s' a = heap s a)"
proof -
  obtain h where r: "resetConnections close is_closed s =
      Ret (0, s\<lparr>heap := h, connectionsList := [], allConnectionsList := []\<rparr>)"
    and h: "\<forall>a \<in> set (GetAllConnections s). is_closed (h a)"
      "\<forall>a. is_closed (heap s a) \<longrightarrow> h a = heap s a"
    by (rule resetConnections_Ret [of s])
  from assms r have "finish_shutdown env (s\<lparr>heap := h, connectionsList := [], allConnectionsList := []\<rparr>) = (Ret u, s')"
    by (simp add: Shutdown_def act_bind_def)
  from finish_shutdown_Ret [OF this] h show ?thesis by (simp add: GetAllConnections_def IsShutdown_def)
qed

end

definition demo_server :: "nan0 nano_server" where
  "demo_server =
     \<lparr>srv_service = Service_zero, connectionStreamInit = False, connectionsList = [],
      allConnectionsList = [], nextElement = 0, srv_closed = False, listener = Some True,
      wsServer = False, mdnsServer = False, heap = (\<lambda>a. new_nan0 ''svc'' 0)\<rparr>"

definition no_errors :: shutdown_errors where
  "no_errors = \<lparr>listener_Close = None, wsServer_Close = None, wsServer_Shutdown = None, mdnsServer_Shutdown = None\<rparr>"

section \<open>Purging\<close>

text \<open>
  The purge keeps exactly the open connections, in the order in which they were added, so
  that afterwards \<open>ActiveConnectionsCount\<close> is their number; before it, the count includes the
  closed connections that have not been purged yet.
\<close>

lemma purge_keeps_open_in_order:
  assumes "s' = s\<lparr>allConnectionsList := purgeClosedConnections IsClosed (heap s) (allConnectionsList s)\<rparr>"
    and "\<not> IsShutdown s"
  shows "GetAllConnections s' = filter (\<lambda>a. \<not> IsClosed (heap s a)) (GetAllConnections s) \<and>
         ActiveConnectionsCount s' = int (length (GetAllConnections s')) \<and>
         int (length (GetAllConnections s)) \<le> ActiveConnectionsCount s"
  using assms purge_length [of IsClosed "heap s" "allConnectionsList s"]
    values_of_length [of "allConnectionsList s"]
  by (simp add: GetAllConnections_def IsShutdown_def ActiveConnectionsCount_def purge_values)

section \<open>Shutting down\<close>

text \<open>
  C27. A \<open>Shutdown\<close> that returns has closed every connection the server had listed, emptied its
  lists and marked it shut down. Any further \<open>Shutdown\<close> panics, on the closed listener or on the
  closed channel, and the panic reaches the caller.
\<close>

theorem shutdown_closes_all_once:
  assumes "Shutdown Close IsClosed env s = (Ret (), s')"
  shows "IsShutdown s' \<and> (\<forall>a \<in> set (GetAllConnections s). IsClosed (heap s' a))
    \<and> GetAllConnections s' = [] \<and> ActiveConnectionsCount s' = 0
    \<and> (\<exists>p s''. Shutdown Close IsClosed env' s' = (Panic p, s''))"
proof -
  note sh = nan0_close.Shutdown_Ret [OF assms]
  have "\<exists>p s''. Shutdown Close IsClosed env' s' = (Panic p, s'')"
  proof (cases "Shutdown Close IsClosed env' s'")
    case (Pair r s'')
    with nan0_close.Shutdown_Ret [of env' s' _ s''] sh show ?thesis by (cases r) auto
  qed
  with sh show ?thesis
    by (auto simp: IsShutdown_def GetAllConnections_def ActiveConnectionsCount_def)
qed

theorem shutdown_closes_all_once_witness:
  "\<exists>s'. Shutdown Close IsClosed no_errors (AddConnection (Some 3) demo_server) = (Ret (), s')
     \<and> IsClosed (heap s' 3) \<and> (\<exists>p s''. Shutdown Close IsClosed no_errors s' = (Panic p, s''))"
proof -
  obtain s' where s: "Shutdown Close IsClosed no_errors (AddConnection (Some 3) demo_server) = (Ret (), s')"
    by (simp add: Shutdown_def resetConnections_def finish_shutdown_def act_bind_def demo_server_def
        AddConnection_def IsShutdown_def GetAllConnections_def writeConnListElement_def Close_Ret
        no_errors_def IsClosed_def new_nan0_def)
  have "3 \<in> set (GetAllConnections (AddConnection (Some 3) demo_server))"
    by (simp add: demo_server_def AddConnection_def IsShutdown_def GetAllConnections_def writeConnListElement_def)
  with s shutdown_closes_all_once [OF s, of no_errors] show ?thesis by blast
qed

text \<open>
  \<open>Shutdown\<close> does not exclude the accept loop: a connection that is added after
  \<open>resetConnections\<close> and before the channel is closed stays open when the server is shut down,
  and the server no longer lists it.
\<close>

lemma added_during_shutdown_stays_open:
  assumes "resetConnections Close IsClosed s = Ret (n, s1)"
    and "finish_shutdown env (AddConnection (Some a) s1) = (Ret (), s')"
    and "a \<notin> set (GetAllConnections s)" and "\<not> IsClosed (heap s a)"
  shows "IsShutdown s' \<and> \<not> IsClosed (heap s' a) \<and> GetAllConnections s' = []
    \<and> a \<in> set (values_of (allConnectionsList s'))"
proof -
  obtain h where h: "resetConnections Close IsClosed s =
      Ret (0, s\<lparr>heap := h, connectionsList := [], allConnectionsList := []\<rparr>)"
    "h a = heap s a"
    using nan0_close.resetConnections_Ret [of s] assms(3) by metis
  with assms(1) have s1: "heap s1 a = heap s a" by auto
  from finish_shutdown_Ret [OF assms(2)] s1 assms(4) show ?thesis
    by (auto simp: IsShutdown_def GetAllConnections_def AddConnection_def writeConnListElement_def
        split: if_splits)
qed

section \<open>The stream of new connections\<close>

text \<open>
  The stream's goroutine and the accept loop: the element looked at, the list, the connections
  delivered and those added, the next element identifier.
\<close>

record stream_state =
  cursor :: "(nat \<times> nat option) option"
  pool :: conn_list
  delivered :: "nat list"
  added :: "nat list"
  fresh :: nat

inductive stream_step :: "stream_state \<Rightarrow> stream_state \<Rightarrow> bool" where
  t_add: "stream_step s (s\<lparr>pool := writeConnListElement (fresh s) conn (pool s), fresh := fresh s + 1,
     added := added s @ (case conn of None \<Rightarrow> [] | Some a \<Rightarrow> [a])\<rparr>)"
| t_iteration: "stream_iteration (cursor s, pool s) = (v, c, cl) \<Longrightarrow>
     stream_step s (s\<lparr>cursor := c, pool := cl,
       delivered := delivered s @ (case v of None \<Rightarrow> [] | Some a \<Rightarrow> [a])\<rparr>)"

definition stream_start :: "stream_state \<Rightarrow> bool" where
  "stream_start s \<longleftrightarrow> s = \<lparr>cursor = None, pool = [], delivered = [], added = [], fresh = 0\<rparr>"

definition stream_inv :: "stream_state \<Rightarrow> bool" where
  "stream_inv s \<longleftrightarrow>
     distinct (map fst (pool s)) \<and> (\<forall>x \<in> set (pool s). fst x < fresh s) \<and>
     (\<forall>x. cursor s = Some x \<longrightarrow> x \<in> set (pool s)) \<and>
     mset (delivered s) + mset (values_of (pool s)) = mset (added s)"

lemma element_Next_in: "element_Next e cl = Some x \<Longrightarrow> x \<in> set cl"
  by (induction e cl rule: element_Next.induct) (auto split: if_splits list.splits)

lemma remove_values:
  "distinct (map fst cl) \<Longrightarrow> (e, Some a) \<in> set cl \<Longrightarrow>
     add_mset a (mset (values_of (filter (\<lambda>x. fst x \<noteq> e) cl))) = mset (values_of cl)"
proof (induction cl)
  case (Cons x cl)
  obtain e' v where x: "x = (e', v)" by (cases x)
  have same: "filter (\<lambda>x. fst x \<noteq> e) cl = cl" if "e \<notin> fst ` set cl"
    using that by (auto simp: filter_id_conv)
  show ?case
  proof (cases "e' = e")
    case True
    with Cons.prems x have "v = Some a" "e \<notin> fst ` set cl" by force+
    with True x same show ?thesis by simp
  next
    case False
    with Cons x show ?thesis by (cases v) (auto simp: add_mset_commute)
  qed
qed simp

lemma stream_step_inv: "stream_step s t \<Longrightarrow> stream_inv s \<Longrightarrow> stream_inv t"
proof (induction rule: stream_step.induct)
  case (t_add s conn)
  then show ?case
    by (cases conn) (auto simp: stream_inv_def writeConnListElement_def)
next
  case (t_iteration s v c cl)
  show ?case
  proof (cases "cursor s")
    case None
    with t_iteration show ?thesis
      by (auto simp: stream_inv_def readConnListBack_def split: if_splits) (metis last_in_set)
  next
    case (Some x)
    obtain e w where x: "x = (e, w)" by (cases x)
    show ?thesis
    proof (cases w)
      case None
      with t_iteration Some x show ?thesis by (auto simp: stream_inv_def dest: element_Next_in)
    next
      case (Some a)
      with t_iteration x \<open>cursor s = Some x\<close> have
        "v = Some a" "cl = filter (\<lambda>x. fst x \<noteq> e) (pool s)" "c = element_Next e cl"
        by (auto simp: removeConnListElement_def)
      moreover have "(e, Some a) \<in> set (pool s)"
        using t_iteration(2) \<open>cursor s = Some x\<close> x Some by (auto simp: stream_inv_def)
      ultimately show ?thesis
        using t_iteration(2) remove_values [of "pool s" e a, symmetric]
        by (auto simp: stream_inv_def distinct_map_filter dest: element_Next_in)
    qed
  qed
qed

interpretation conn_stream: machine_invariant stream_start stream_step stream_inv
  by unfold_locales (simp add: stream_start_def stream_inv_def, rule stream_step_inv)

text \<open>
  C28. The stream of \<open>GetConnections\<close> neither loses nor repeats nor invents a connection: as long
  as the server is not shut down, those delivered and those still in the list together are those
  that were added.
\<close>

theorem stream_delivers_each_once:
  assumes "reach stream_start stream_step s"
  shows "mset (delivered s) + mset (values_of (pool s)) = mset (added s)"
  using conn_stream.reach_inv [OF assms] by (simp add: stream_inv_def)

theorem stream_delivers_each_once_witness:
  "\<exists>s. reach stream_start stream_step s \<and> added s = [4, 9] \<and> delivered s = [9]
     \<and> mset (values_of (pool s)) = {#4#}"
proof -
  let ?s0 = "\<lparr>cursor = None, pool = [], delivered = [], added = [], fresh = 0\<rparr> :: stream_state"
  let ?s2 = "?s0\<lparr>pool := [(0, Some 4), (1, Some 9)], added := [4, 9], fresh := 2\<rparr>"
  let ?s3 = "?s2\<lparr>cursor := Some (1, Some 9)\<rparr>"
  let ?s4 = "?s2\<lparr>cursor := None, pool := [(0, Some 4)], delivered := [9]\<rparr>"
  have 0: "reach stream_start stream_step ?s0" by (rule reach_start) (simp add: stream_start_def)
  have 1: "stream_step ?s0 (?s0\<lparr>pool := [(0, Some 4)], added := [4], fresh := 1\<rparr>)"
    using t_add [of ?s0 "Some 4"] by (simp add: writeConnListElement_def)
  have 2: "stream_step (?s0\<lparr>pool := [(0, Some 4)], added := [4], fresh := 1\<rparr>) ?s2"
    using t_add [of "?s0\<lparr>pool := [(0, Some 4)], added := [4], fresh := 1\<rparr>" "Some 9"]
    by (simp add: writeConnListElement_def numeral_2_eq_2)
  have 3: "stream_step ?s2 ?s3" using t_iteration [of ?s2] by (simp add: readConnListBack_def)
  have 4: "stream_step ?s3 ?s4" using t_iteration [of ?s3] by (simp add: removeConnListElement_def)
  from 0 1 2 3 4 have r: "reach stream_start stream_step ?s4" by (blast intro: reach_step)
  from stream_delivers_each_once [OF r] r show ?thesis by (intro exI [of _ ?s4]) simp
qed

end
