(* ===== verification/Nan0_Listener_Claims.thy ===== *)
theory Nan0_Listener_Claims
  imports Nan0_Listener Nan0_Conn_Claims Nan0_Server_Claims
begin

text \<open>
  What the makers of TCP servers and the accept loop do: the result of \<open>buildTcpServer\<close>, the
  bound on the listed connections and what reaching it means, which connections a secure server
  lists, and what becomes of a failed handshake.
\<close>

lemma wrap_in_env_eq:
  "wrap_in_env E ek hk tp bb =
     (if receiveBuffer bb < 0 \<or> sendBuffer bb < 0
      then (None, Some (ErrRuntime ''makechan: size out of range''))
      else (Some
        (\<lparr>cfg_api = env_api E, cfg_width = env_width E, cfg_rmap = routes bb, cfg_identMap = messageIdentMap bb,
          cfg_inverseMap = inverseIdentMap bb, cfg_writeDeadline = writeDeadlineActive bb,
          cfg_encKey = ek, cfg_hmacKey = hk, cfg_recvCap = nat (receiveBuffer bb), cfg_sendCap = nat (sendBuffer bb),
          cfg_idle = (if txRxIdleDuration bb \<le> 0 then defaultTxRxIdleDuration else txRxIdleDuration bb),
          cfg_execute = env_execute E\<rparr>,
         wrapped (ServiceName (ns bb)) (env_time E) tp), None))"
  by (auto simp: wrap_in_env_def wrapConnectionTcp_def makeReceiveChannelFromBuilder_def
      makeSendChannelFromBuilder_def make_chan_def act_deferred_def act_bind_def)

lemma wrapped_fields [simp]: "wrapper (wrapped name t tp) = new_nan0 name t"
  by (simp add: wrapped_def)

lemma adopt_eq:
  "adopt E a keys nsb st =
     (if receiveBuffer nsb < 0 \<or> sendBuffer nsb < 0 then st\<lparr>left_open := left_open st @ [a]\<rparr>
      else st\<lparr>srv := AddConnection (Some a)
                ((srv st)\<lparr>heap := (heap (srv st))(a := new_nan0 (ServiceName (ns nsb)) (env_time E))\<rparr>),
             left_open := if IsShutdown (srv st) then left_open st @ [a] else left_open st,
             keys_of := (keys_of st)(a := keys)\<rparr>)"
  by (simp add: adopt_def wrap_in_env_eq)

section \<open>A concrete server\<close>

definition demo_env :: "(raw_message, unit) run_env" where
  "demo_env = \<lparr>env_api = raw_api, env_width = 4, env_execute = (\<lambda>r m. ([], None)), env_time = 0\<rparr>"

definition demo_builder :: "bool \<Rightarrow> (raw_message, unit) baseBuilder" where
  "demo_builder sec = (one_type_builder (RawMessage CHR ''a'' ''b'' []))\<lparr>secure := sec, maxServerConnections := 1\<rparr>"

definition demo_accept :: accept_state where
  "demo_accept = \<lparr>srv = demo_server, left_open = [], keys_of = Map.empty\<rparr>"

text \<open>An RSA of the identity: the message's payload is the two keys.\<close>

definition demo_encrypted :: "bytes \<Rightarrow> raw_message" where
  "demo_encrypted bs = RawMessage CHR ''g'' ''oprocrypt.EncryptedMessage'' bs"

definition demo_decrypt :: "raw_message \<Rightarrow> go_error + api_key" where
  "demo_decrypt m =
     (if raw_payload m = [] then Inl EOF
      else Inr \<lparr>ak_EncKey = take 32 (raw_payload m), ak_HmacKey = drop 32 (raw_payload m)\<rparr>)"

lemma demo_simps [simp]:
  "env_api demo_env = raw_api" "env_width demo_env = 4" "secure (demo_builder sec) = sec"
  "maxServerConnections (demo_builder sec) = 1"
  "receiveBuffer (demo_builder sec) = 0" "sendBuffer (demo_builder sec) = 0"
  "srv demo_accept = demo_server" "GetAllConnections demo_server = []" "ActiveConnectionsCount demo_server = 0"
  "left_open demo_accept = []"
  by (simp_all add: demo_env_def demo_builder_def demo_accept_def demo_server_def GetAllConnections_def
      IsShutdown_def ActiveConnectionsCount_def one_type_builder_def AddMessageIdentity_def addSingleIdentity_def Let_def
      NewNanoBuilder_def
      zero_baseBuilder_def initialize_def dumpConnListToSlice_def)

section \<open>One connection\<close>

lemma new_nan0_open [simp]: "connOpen (new_nan0 name t)" "\<not> closed (new_nan0 name t)"
  by (simp_all add: new_nan0_def)

lemma server_handshake_new:
  "server_handshake P dec (new_nan0 name t) encMsg =
     (let tmp = (new_nan0 name t)\<lparr>readDeadline := PastDeadline, signaler := SigDeadline, closed := True\<rparr>
      in if FullName P encMsg \<noteq> FullName P (NewEncryptedMessage P) then Ret (Inl wrong_format_error, tmp)
         else (case dec encMsg of
                 Inl err \<Rightarrow> Ret (Inl err, tmp)
               | Inr k \<Rightarrow> Ret (Inr (copy32 (ak_EncKey k), copy32 (ak_HmacKey k)), tmp)))"
  by (simp add: server_handshake_def softClose_Ret Close_Ret split: sum.splits)

definition refused :: "nat \<Rightarrow> accept_state \<Rightarrow> accept_state" where
  "refused a st = st\<lparr>left_open := left_open st @ [a]\<rparr>"

lemma refused_simps [simp]:
  "srv (refused a st) = srv st" "keys_of (refused a st) = keys_of st"
  by (simp_all add: refused_def)

lemma accept_connection_eq:
  "accept_connection E dec nsb a reply st =
     (if ActiveConnectionsCount (srv st) = maxServerConnections nsb then (Stopped, refused a st)
      else if \<not> secure nsb then (Listening, adopt E a None nsb st)
      else if receiveBuffer nsb < 0 \<or> sendBuffer nsb < 0 then (Listening, refused a st)
      else (case reply of
              Silent \<Rightarrow> (Blocked, st)
            | Reply encMsg \<Rightarrow>
                if FullName (env_api E) encMsg \<noteq> FullName (env_api E) (NewEncryptedMessage (env_api E))
                then (Listening, refused a st)
                else (case dec encMsg of
                        Inl err \<Rightarrow> (Listening, refused a st)
                      | Inr k \<Rightarrow> (Listening, adopt E a (Some (copy32 (ak_EncKey k), copy32 (ak_HmacKey k))) nsb st))))"
  by (simp add: accept_connection_def wrap_in_env_eq server_handshake_new refused_def Let_def
      split: peer_reply.splits sum.splits)

lemma copy32_key: "is_key (copy32 bs)"
  by (simp add: copy32_def is_key_def)

lemma copy32_id: "is_key k \<Longrightarrow> copy32 k = k"
  by (simp add: copy32_def is_key_def)

lemma AddConnection_lists:
  "ActiveConnectionsCount (AddConnection (Some a) s) = ActiveConnectionsCount s + (if IsShutdown s then 0 else 1)"
  "set (GetAllConnections (AddConnection (Some a) s)) =
     (if IsShutdown s then {} else insert a (set (GetAllConnections s)))"
  "IsShutdown (AddConnection c s) = IsShutdown s"
  by (auto simp: AddConnection_def ActiveConnectionsCount_def writeConnListElement_def GetAllConnections_def IsShutdown_def)

lemma server_heap_simps [simp]:
  "ActiveConnectionsCount (s\<lparr>heap := h\<rparr>) = ActiveConnectionsCount s"
  "GetAllConnections (s\<lparr>heap := h\<rparr>) = GetAllConnections s"
  "IsShutdown (s\<lparr>heap := h\<rparr>) = IsShutdown s"
  by (simp_all add: ActiveConnectionsCount_def GetAllConnections_def IsShutdown_def)

section \<open>The loop\<close>

lemma purge_round:
  assumes "purgeLogic_round is_closed tested s = Some s'"
  shows "ActiveConnectionsCount s' \<le> ActiveConnectionsCount s"
    and "set (GetAllConnections s') \<subseteq> set (GetAllConnections s)"
proof -
  have s': "s' = s\<lparr>allConnectionsList := purgeClosedConnections is_closed (heap s) (allConnectionsList s)\<rparr>"
    using assms by (simp add: purgeLogic_round_def split: if_splits)
  show "ActiveConnectionsCount s' \<le> ActiveConnectionsCount s"
    by (simp add: s' ActiveConnectionsCount_def purge_filter)
  show "set (GetAllConnections s') \<subseteq> set (GetAllConnections s)"
    by (auto simp: s' GetAllConnections_def IsShutdown_def purge_values)
qed

lemma startServerListening_append:
  "startServerListening E dec nsb (evs @ evs') st =
     (case startServerListening E dec nsb evs st of
        (Listening, st') \<Rightarrow> startServerListening E dec nsb evs' st'
      | (oc, st') \<Rightarrow> (oc, st'))"
  by (induction E dec nsb evs st rule: startServerListening.induct)
    (auto split: prod.splits accept_outcome.splits option.splits)

lemma accept_count:
  assumes "accept_connection E dec nsb a reply st = (oc, st')"
    and "ActiveConnectionsCount (srv st) \<le> maxServerConnections nsb"
  shows "ActiveConnectionsCount (srv st') \<le> maxServerConnections nsb"
  using assms unfolding accept_connection_eq
  by (auto simp: adopt_eq AddConnection_lists split: if_splits peer_reply.splits sum.splits)

text \<open>
  C21. The accept loop never lists more connections than the builder's maximum. But the maximum
  is the end of the loop, not a pause: the first connection that arrives while the count is at
  the maximum makes it return, and no closing, purging or arrival after that brings it back; the
  connection that arrived is neither served nor closed. (The count includes the closed
  connections that have not been purged yet.)
\<close>

theorem accept_loop_bounded:
  assumes "ActiveConnectionsCount (srv st) \<le> maxServerConnections nsb"
    and "startServerListening E dec nsb evs st = (oc, st')"
  shows "ActiveConnectionsCount (srv st') \<le> maxServerConnections nsb
    \<and> (oc = Listening \<and> ActiveConnectionsCount (srv st') = maxServerConnections nsb \<longrightarrow>
         startServerListening E dec nsb (evs @ Arrives a reply # evs') st
           = (Stopped, st'\<lparr>left_open := left_open st' @ [a]\<rparr>))"
proof
  show "ActiveConnectionsCount (srv st') \<le> maxServerConnections nsb"
    using assms
  proof (induction E dec nsb evs st rule: startServerListening.induct)
    case (3 E dec nsb a reply evs st)
    then show ?case by (auto dest: accept_count split: prod.splits accept_outcome.splits)
  next
    case (4 E dec nsb evs st)
    then show ?case by (fastforce dest: purge_round(1) split: option.splits)
  qed simp_all
  show "oc = Listening \<and> ActiveConnectionsCount (srv st') = maxServerConnections nsb \<longrightarrow>
      startServerListening E dec nsb (evs @ Arrives a reply # evs') st
        = (Stopped, st'\<lparr>left_open := left_open st' @ [a]\<rparr>)"
    using assms(2) by (simp add: startServerListening_append accept_connection_eq refused_def)
qed

theorem accept_loop_bounded_witness:
  "\<exists>st. startServerListening demo_env demo_decrypt (demo_builder False) [Arrives 7 Silent] demo_accept = (Listening, st)
    \<and> ActiveConnectionsCount (srv st) = 1
    \<and> startServerListening demo_env demo_decrypt (demo_builder False)
        ([Arrives 7 Silent] @ Arrives 8 Silent # [WrapperCloses 7, PurgeTick, Arrives 9 Silent]) demo_accept
      = (Stopped, st\<lparr>left_open := left_open st @ [8]\<rparr>)"
proof -
  obtain st where st: "startServerListening demo_env demo_decrypt (demo_builder False) [Arrives 7 Silent] demo_accept
      = (Listening, st)" and one: "ActiveConnectionsCount (srv st) = 1"
    by (simp add: accept_connection_eq adopt_eq AddConnection_lists) (simp add: demo_server_def IsShutdown_def)
  with accept_loop_bounded [of demo_accept "demo_builder False", OF _ st] show ?thesis by simp
qed

text \<open>A connection with the keys of a message that arrived on it in a handshake.\<close>

definition agreed ::
    "'m proto_api \<Rightarrow> ('m \<Rightarrow> go_error + api_key) \<Rightarrow> 'm loop_event set \<Rightarrow> accept_state \<Rightarrow> nat \<Rightarrow> bool" where
  "agreed P dec evs st a \<longleftrightarrow>
     (\<exists>encMsg k. Arrives a (Reply encMsg) \<in> evs
        \<and> FullName P encMsg = FullName P (NewEncryptedMessage P) \<and> dec encMsg = Inr k
        \<and> keys_of st a = Some (copy32 (ak_EncKey k), copy32 (ak_HmacKey k)))"

lemma accept_secure_cases:
  assumes "accept_connection E dec nsb b reply st = (oc, st')" and "secure nsb"
  obtains "srv st' = srv st" and "keys_of st' = keys_of st"
  | encMsg k where "reply = Reply encMsg"
      and "FullName (env_api E) encMsg = FullName (env_api E) (NewEncryptedMessage (env_api E))"
      and "dec encMsg = Inr k"
      and "set (GetAllConnections (srv st')) \<subseteq> insert b (set (GetAllConnections (srv st)))"
      and "keys_of st' = (keys_of st)(b \<mapsto> (copy32 (ak_EncKey k), copy32 (ak_HmacKey k)))"
  using assms unfolding accept_connection_eq
  by (auto simp: adopt_eq AddConnection_lists split: if_splits peer_reply.splits sum.splits)

lemma accept_agreed:
  assumes "accept_connection E dec nsb b reply st = (oc, st')" and "secure nsb"
    and "\<And>a. a \<in> set (GetAllConnections (srv st)) \<Longrightarrow> agreed (env_api E) dec evs st a"
    and "Arrives b reply \<in> evs" and "a \<in> set (GetAllConnections (srv st'))"
  shows "agreed (env_api E) dec evs st' a"
  using assms(1,2)
proof (cases rule: accept_secure_cases)
  case 1
  with assms(3,5) show ?thesis by (simp add: agreed_def)
next
  case (2 encMsg k)
  show ?thesis
  proof (cases "a = b")
    case True
    with 2 assms(4) show ?thesis unfolding agreed_def by (metis fun_upd_same)
  next
    case False
    with 2(4,5) assms(3) [of a] assms(5) show ?thesis by (auto simp: agreed_def)
  qed
qed

lemma listening_agreed:
  assumes "startServerListening E dec nsb evs st = (oc, st')" and "secure nsb"
    and "\<And>a. a \<in> set (GetAllConnections (srv st)) \<Longrightarrow> agreed (env_api E) dec evs0 st a"
    and "set evs \<subseteq> evs0" and "a \<in> set (GetAllConnections (srv st'))"
  shows "agreed (env_api E) dec evs0 st' a"
  using assms
proof (induction E dec nsb evs st rule: startServerListening.induct)
  case (3 E dec nsb b reply evs st)
  obtain oc1 st1 where one: "accept_connection E dec nsb b reply st = (oc1, st1)" by fastforce
  have keep: "agreed (env_api E) dec evs0 st1 c" if "c \<in> set (GetAllConnections (srv st1))" for c
    using accept_agreed [OF one 3(3,4) _ that] 3(5) by simp
  with 3(1) [OF one [symmetric]] 3(2,3,5,6) one show ?case by (cases oc1) auto
next
  case (4 E dec nsb evs st)
  show ?case
  proof (cases "purgeLogic_round IsClosed (srv st) (srv st)")
    case None
    with 4 show ?thesis by simp
  next
    case (Some s)
    from purge_round(2) [OF Some] 4(5)
    have "\<And>a. a \<in> set (GetAllConnections s) \<Longrightarrow> agreed (env_api E) dec evs0 (st\<lparr>srv := s\<rparr>) a"
      by (auto simp: agreed_def)
    with 4(2) [OF Some] 4(3,4,6,7) Some show ?thesis by simp
  qed
next
  case (5 E dec nsb b evs st)
  let ?st = "st\<lparr>srv := (srv st)\<lparr>heap := (heap (srv st))(b := close_exec (heap (srv st) b))\<rparr>\<rparr>"
  have "\<And>a. a \<in> set (GetAllConnections (srv ?st)) \<Longrightarrow> agreed (env_api E) dec evs0 ?st a"
    using 5(4) by (simp add: agreed_def)
  with 5 show ?case by simp
qed auto

text \<open>
  C22. A secure server lists only connections whose handshake succeeded: for each of them a
  message of the right type arrived, the RSA decryption of that message succeeded, and the
  wrapper was made with the two keys in it. Both are 32 bytes long; a key of another length is
  padded with zeros or cut, not refused.
\<close>

theorem secure_server_lists_only_keyed:
  assumes "startServerListening E dec nsb evs st = (oc, st')" and "secure nsb"
    and "GetAllConnections (srv st) = []" and "a \<in> set (GetAllConnections (srv st'))"
  shows "\<exists>encMsg k ek hk. Arrives a (Reply encMsg) \<in> set evs
    \<and> FullName (env_api E) encMsg = FullName (env_api E) (NewEncryptedMessage (env_api E))
    \<and> dec encMsg = Inr k \<and> keys_of st' a = Some (ek, hk)
    \<and> ek = take 32 (ak_EncKey k) @ replicate (32 - length (ak_EncKey k)) 0
    \<and> hk = take 32 (ak_HmacKey k) @ replicate (32 - length (ak_HmacKey k)) 0
    \<and> is_key ek \<and> is_key hk"
proof -
  have "agreed (env_api E) dec (set evs) st' a"
    by (rule listening_agreed [OF assms(1,2) _ subset_refl assms(4)]) (simp add: assms(3))
  with copy32_key show ?thesis by (force simp: agreed_def copy32_def)
qed

theorem secure_server_lists_only_keyed_witness:
  "\<exists>st. startServerListening demo_env demo_decrypt (demo_builder True)
      [Arrives 7 (Reply (demo_encrypted [1])), PurgeTick] demo_accept = (Listening, st)
    \<and> GetAllConnections (srv st) = [7] \<and> keys_of st 7 = Some (1 # replicate 31 0, replicate 32 0)"
  (is "\<exists>st. ?run = _ \<and> _")
proof -
  obtain st where st: "?run = (Listening, st)" and all: "GetAllConnections (srv st) = [7]"
    by (simp add: accept_connection_eq adopt_eq demo_encrypted_def demo_decrypt_def purgeLogic_round_def)
      (simp add: demo_server_def IsShutdown_def AddConnection_def GetAllConnections_def writeConnListElement_def
        purge_values IsClosed_def)
  from secure_server_lists_only_keyed [OF st, of 7] all
  have "keys_of st 7 = Some (1 # replicate 31 0, replicate 32 0)"
    by (auto simp: demo_encrypted_def demo_decrypt_def)
  with st all show ?thesis by blast
qed

text \<open>
  A handshake that fails on the server, because the message has the wrong type or cannot be
  decrypted, leaves the connection open: the server calls \<open>softClose\<close> and then \<open>Close\<close>, and the
  second call finds the wrapper closed and returns. The connection is not listed either, so
  nobody closes it later, and the loop goes on.
\<close>

lemma failed_handshake_leaks:
  assumes "secure nsb" and "0 \<le> receiveBuffer nsb" and "0 \<le> sendBuffer nsb"
    and "ActiveConnectionsCount (srv st) \<noteq> maxServerConnections nsb"
    and "FullName (env_api E) encMsg \<noteq> FullName (env_api E) (NewEncryptedMessage (env_api E))
      \<or> dec encMsg = Inl err"
  shows "accept_connection E dec nsb a (Reply encMsg) st = (Listening, st\<lparr>left_open := left_open st @ [a]\<rparr>)"
  using assms by (auto simp: accept_connection_eq refused_def)

section \<open>Building a server\<close>

text \<open>
  What \<open>buildTcpServer\<close> returns. If the server cannot be published over mDNS the call panics,
  although it recovers from panics: the recovery reads the name of a server that is still nil. If
  the port cannot be listened on, the result is that error and no server. Otherwise it is a
  server without connections, and the builder's maximum has become positive.
\<close>

lemma buildTcpServer_result:
  "case buildTcpServer mdns listen h nsb of (res, nsb') \<Rightarrow>
     if serviceDiscovery nsb \<and> (\<exists>e. mdns = Ret (Some e) \<or> mdns = Panic (PanicErr e))
     then res = Panic nil_deref \<and> nsb' = nsb
     else if serviceDiscovery nsb \<and> mdns \<noteq> Ret None then True
     else nsb' = nsb\<lparr>maxServerConnections := if maxServerConnections nsb \<le> 0 then 50 else maxServerConnections nsb\<rparr>
       \<and> 0 < maxServerConnections nsb'
       \<and> (case listen of
            Some e \<Rightarrow> res = Ret (None, Some e)
          | None \<Rightarrow> (case res of
              Ret (Some s, err) \<Rightarrow> err = None \<and> \<not> IsShutdown s \<and> listener s = Some True
                \<and> GetAllConnections s = [] \<and> ActiveConnectionsCount s = 0
                \<and> Server_GetServiceName s = ServiceName (ns nsb)
            | _ \<Rightarrow> False))"
proof (cases "serviceDiscovery nsb \<and> mdns \<noteq> Ret None")
  case True
  then show ?thesis
    by (cases mdns)
      (auto simp: buildTcpServer_def buildTcpServer_body_def act_bind_def checkError_def split: panic_value.splits option.splits)
next
  case False
  then show ?thesis
    by (cases listen)
      (auto simp: buildTcpServer_def buildTcpServer_body_def act_bind_def new_server_def defaultMaxConnections_def
        IsShutdown_def GetAllConnections_def ActiveConnectionsCount_def Server_GetServiceName_def dumpConnListToSlice_def)
qed

end
