(* ===== verification/Nan0_Handshake.thy ===== *)
theory Nan0_Handshake
  imports Nan0_Link Nan0_Handover Nan0_Listener_Claims
begin

text \<open>
  The security handshake on the wire: \<open>buildTcpClient\<close> and \<open>startServerListening\<close> at the two ends of
  one connection, each with its temporary wrapper and that wrapper's goroutines. A state is the two
  wrappers, the frames under way in both directions, and where the two functions are. The network is
  that of \<open>Nan0_Link\<close>; a write that fails writes nothing.

  The theory shows that what the one function takes is what the other one made, so that both arrive
  at the same keys, and how the client's closing of its wrapper can lose the keys.
\<close>

section \<open>The two functions\<close>

text \<open>What goprocrypt does, the server's public key, and the keys that the client has made.\<close>

record 'm handshake_env =
  rsa_encrypt :: "api_key \<Rightarrow> 'm \<Rightarrow> go_error + 'm"
  rsa_decrypt :: "'m \<Rightarrow> go_error + api_key"
  rsa_pub :: 'm
  own_keys :: api_key

text \<open>
  Where \<open>buildTcpClient\<close> is: waiting for the public key, putting the message with the keys in the
  channel, closing the temporary wrapper, done, or in its deferred recovery, which closes the
  connection.
\<close>

datatype 'm client_pc = CWait | CSend 'm | CSoft | CReady | CFailed panic_value

text \<open>Where the iteration of the accept loop is; the last two are its ends.\<close>

datatype 'm server_pc = SvSend | SvWait | SvSoft 'm | SvCheck 'm | SvReady bytes bytes | SvDropped go_error

definition client_reply :: "'m proto_api \<Rightarrow> 'm handshake_env \<Rightarrow> 'm \<Rightarrow> 'm client_pc" where
  "client_reply P X serverKey =
     (if FullName P serverKey \<noteq> FullName P (NewPublicKey P)
      then CFailed (PanicErr (ErrRuntime ''interface conversion''))
      else case rsa_encrypt X (own_keys X) serverKey of
             Inl err \<Rightarrow> CFailed (PanicErr err)
           | Inr encMsg \<Rightarrow> CSend encMsg)"

definition server_keys :: "'m proto_api \<Rightarrow> 'm handshake_env \<Rightarrow> 'm \<Rightarrow> go_error + bytes \<times> bytes" where
  "server_keys P X encMsg =
     (if FullName P encMsg \<noteq> FullName P (NewEncryptedMessage P) then Inl wrong_format_error
      else case rsa_decrypt X encMsg of
             Inl err \<Rightarrow> Inl err
           | Inr k \<Rightarrow> Inr (copy32 (ak_EncKey k), copy32 (ak_HmacKey k)))"

text \<open>Taking a message from a wrapper's receive channel.\<close>

inductive takes :: "('m, 'r) conn_cfg \<Rightarrow> 'm \<Rightarrow> 'm conn_state \<Rightarrow> 'm conn_state \<Rightarrow> bool"
  for C :: "('m, 'r) conn_cfg" and m :: 'm where
  t_buffered: "recv_q s = m # ms \<Longrightarrow> takes C m s (s\<lparr>recv_q := ms, taken := taken s @ [m]\<rparr>)"
| t_direct: "cfg_recvCap C = 0 \<Longrightarrow> reader s = RDeliver m \<Longrightarrow>
     takes C m s (s\<lparr>reader := RStamp, taken := taken s @ [m]\<rparr>)"

text \<open>The wrapper's own goroutines, and time.\<close>

inductive goroutine_step :: "('m, 'r) conn_cfg \<Rightarrow> 'm conn_state \<Rightarrow> 'm conn_state \<Rightarrow> bool"
  for C :: "('m, 'r) conn_cfg" where
  gr_own: "own_step C s t \<Longrightarrow> out t = out s \<or> length (sent t) \<noteq> length (sent s) \<Longrightarrow> goroutine_step C s t"
| gr_time: "0 \<le> d \<Longrightarrow> goroutine_step C s (s\<lparr>now := now s + d\<rparr>)"

record 'm handshake =
  hs_client :: "'m conn_state"
  hs_server :: "'m conn_state"
  to_server :: "bytes list"
  to_client :: "bytes list"
  client_at :: "'m client_pc"
  server_at :: "'m server_pc"

text \<open>The steps of the two functions, each on its own end.\<close>

inductive client_main ::
    "('m, 'r) conn_cfg \<Rightarrow> 'm handshake_env \<Rightarrow> 'm client_pc \<Rightarrow> 'm conn_state \<Rightarrow> 'm client_pc \<Rightarrow> 'm conn_state \<Rightarrow> bool"
  for C :: "('m, 'r) conn_cfg" and X :: "'m handshake_env" where
  cm_take: "takes C m a a' \<Longrightarrow> client_main C X CWait a (client_reply (cfg_api C) X m) a'"
| cm_send: "put_sender C (Some encMsg) a a' \<Longrightarrow> client_main C X (CSend encMsg) a CSoft a'"
| cm_soft: "softClose (wrapper a) = Ret n \<Longrightarrow> client_main C X CSoft a CReady (a\<lparr>wrapper := n\<rparr>)"

inductive server_main ::
    "('m, 'r) conn_cfg \<Rightarrow> 'm handshake_env \<Rightarrow> 'm server_pc \<Rightarrow> 'm conn_state \<Rightarrow> 'm server_pc \<Rightarrow> 'm conn_state \<Rightarrow> bool"
  for C :: "('m, 'r) conn_cfg" and X :: "'m handshake_env" where
  sm_send: "put_sender C (Some (rsa_pub X)) b b' \<Longrightarrow> server_main C X SvSend b SvWait b'"
| sm_take: "takes C m b b' \<Longrightarrow> server_main C X SvWait b (SvSoft m) b'"
| sm_soft: "softClose (wrapper b) = Ret n \<Longrightarrow> server_main C X (SvSoft m) b (SvCheck m) (b\<lparr>wrapper := n\<rparr>)"
| sm_keys: "server_keys (cfg_api C) X m = Inr (ek, hk) \<Longrightarrow> server_main C X (SvCheck m) b (SvReady ek hk) b"
| sm_drop: "server_keys (cfg_api C) X m = Inl err \<Longrightarrow> Close (wrapper b) = Ret n \<Longrightarrow>
     server_main C X (SvCheck m) b (SvDropped err) (b\<lparr>wrapper := n\<rparr>)"

text \<open>A client that has failed has closed the connection: its goroutines do nothing on it any more.\<close>

inductive handshake_step ::
    "('m, 'r) conn_cfg \<Rightarrow> ('m, 'r) conn_cfg \<Rightarrow> 'm handshake_env \<Rightarrow> 'm handshake \<Rightarrow> 'm handshake \<Rightarrow> bool"
  for CA :: "('m, 'r) conn_cfg" and CB :: "('m, 'r) conn_cfg" and X :: "'m handshake_env" where
  hs_client_main: "client_main CA X (client_at h) (hs_client h) pc a \<Longrightarrow>
     handshake_step CA CB X h (h\<lparr>hs_client := a, client_at := pc\<rparr>)"
| hs_server_main: "server_main CB X (server_at h) (hs_server h) pc b \<Longrightarrow>
     handshake_step CA CB X h (h\<lparr>hs_server := b, server_at := pc\<rparr>)"
| hs_client_own: "goroutine_step CA (hs_client h) a \<Longrightarrow> \<forall>p. client_at h \<noteq> CFailed p \<Longrightarrow>
     handshake_step CA CB X h (h\<lparr>hs_client := a, to_server := to_server h @ written (hs_client h) a\<rparr>)"
| hs_server_own: "goroutine_step CB (hs_server h) b \<Longrightarrow>
     handshake_step CA CB X h (h\<lparr>hs_server := b, to_client := to_client h @ written (hs_server h) b\<rparr>)"
| hs_to_server: "to_server h = f # fs \<Longrightarrow>
     handshake_step CA CB X h
       (h\<lparr>hs_server := (hs_server h)\<lparr>arrived := arrived (hs_server h) @ [f]\<rparr>, to_server := fs\<rparr>)"
| hs_to_client: "to_client h = f # fs \<Longrightarrow>
     handshake_step CA CB X h
       (h\<lparr>hs_client := (hs_client h)\<lparr>arrived := arrived (hs_client h) @ [f]\<rparr>, to_client := fs\<rparr>)"

definition handshake_start :: "string \<Rightarrow> int \<Rightarrow> bytes \<Rightarrow> string \<Rightarrow> int \<Rightarrow> bytes \<Rightarrow> 'm handshake \<Rightarrow> bool" where
  "handshake_start name t0 tp name' t0' tp' h \<longleftrightarrow>
     h = \<lparr>hs_client = wrapped name t0 tp, hs_server = wrapped name' t0' tp', to_server = [], to_client = [],
          client_at = CWait, server_at = SvSend\<rparr>"

text \<open>The steps, put together, are the handshakes of \<open>Nan0_Listener\<close>.\<close>

lemma client_steps_are_handshake:
  "client_handshake P (rsa_encrypt X) (ak_EncKey (own_keys X)) (ak_HmacKey (own_keys X)) (Reply m) tmp =
     Some (case client_reply P X m of
       CFailed p \<Rightarrow> Panic p
     | CSend encMsg \<Rightarrow> go_bind (softClose tmp) (\<lambda>tmp. Ret (encMsg, tmp)))"
  by (cases "own_keys X") (simp add: client_handshake_def client_reply_def checked_def split: sum.split)

lemma server_steps_are_handshake:
  "server_handshake P (rsa_decrypt X) tmp m =
     go_bind (softClose tmp) (\<lambda>tmp.
       case server_keys P X m of
         Inl err \<Rightarrow> go_bind (Close tmp) (\<lambda>tmp. Ret (Inl err, tmp))
       | Inr keys \<Rightarrow> Ret (Inr keys, tmp))"
  by (auto simp: server_handshake_def server_keys_def intro!: arg_cong [where f = "go_bind (softClose tmp)"]
      split: sum.split)

section \<open>Each end alone, and each direction\<close>

lemma takes_user: "takes C m s t \<Longrightarrow> user_step C s t"
  by (auto elim!: takes.cases intro: user_step.intros)

lemma takes_fields:
  assumes "takes C m s t"
  shows "taken t = taken s @ [m]" "queued t = queued s" "sent t = sent s" "out t = out s" "arrived t = arrived s"
    "wrapper t = wrapper s" "reader t = RStamp \<or> reader t = reader s"
  using assms by (auto elim!: takes.cases)

lemma put_sender_fields:
  assumes "put_sender C x s t"
  shows "queued t = queued s @ [x]" "taken t = taken s" "sent t = sent s" "out t = out s" "arrived t = arrived s"
    "wrapper t = wrapper s" "reader t = reader s"
  using assms by (auto elim!: put_sender_cases)

lemma closing_steps:
  "softClose (wrapper s) = Ret n \<Longrightarrow> conn_step C s (s\<lparr>wrapper := n\<rparr>)"
  "Close (wrapper s) = Ret n \<Longrightarrow> conn_step C s (s\<lparr>wrapper := n\<rparr>)"
  by (rule c_user [OF u_close [where meth = MSoftClose]], simp) (rule c_user [OF u_close [where meth = MClose]], simp)

lemma client_main_conn: "client_main C X pc a pc' a' \<Longrightarrow> conn_step C a a' \<and> out a' = out a \<and> sent a' = sent a \<and> arrived a' = arrived a"
  by (erule client_main.cases)
    (auto simp: takes_fields put_sender_fields intro: c_user takes_user u_send closing_steps)

lemma server_main_conn:
  "server_main C X pc b pc' b' \<Longrightarrow>
     (conn_step C b b' \<or> b' = b) \<and> out b' = out b \<and> sent b' = sent b \<and> arrived b' = arrived b"
  by (erule server_main.cases)
    (auto simp: takes_fields put_sender_fields intro: c_user takes_user u_send closing_steps)

lemma goroutine_conn:
  "goroutine_step C s t \<Longrightarrow> conn_step C s t \<and> (out t = out s \<or> length (sent t) \<noteq> length (sent s))"
  by (erule goroutine_step.cases) (auto dest: own_conn_step intro: c_net n_time)

lemma receive_takes_segments: "receive C c = (r, b) \<Longrightarrow> length (segments (rd b)) \<le> length (segments c)"
  using getMessage_takes_segments [of "cfg_api C" "cfg_width C" "cfg_identMap C" "cfg_encKey C" "cfg_hmacKey C"
      "bufio_NewReader c"]
  by (simp add: receive_def bufio_NewReader_def)

lemma reader_step_arrived: "reader_step C s t \<Longrightarrow> length (arrived t) \<le> length (arrived s)"
proof (induction rule: reader_step.induct)
  case (r_read s e k newMsg err b)
  from receive_takes_segments [OF r_read(3)] show ?case by (auto simp: conn_view_def)
qed (auto elim: put_sender_cases)

lemma own_step_arrived: "goroutine_step C s t \<Longrightarrow> length (arrived t) \<le> length (arrived s)"
  by (auto elim!: goroutine_step.cases own_step.cases sender_step.cases signaler_step.cases idle_step.cases
      dest: reader_step_arrived)

text \<open>A direction of the handshake: a link whose failed writes write nothing, or whose ends rest.\<close>

definition clean_link_step ::
    "('m, 'r) conn_cfg \<Rightarrow> ('m, 'r) conn_cfg \<Rightarrow> 'm link \<Rightarrow> 'm link \<Rightarrow> bool" where
  "clean_link_step CA CB s t \<longleftrightarrow>
     s = t \<or> link_step CA CB s t \<and> (out (fst t) = out (fst s) \<or> length (sent (fst t)) \<noteq> length (sent (fst s)))"

definition over_to_server :: "'m handshake \<Rightarrow> 'm link" where
  "over_to_server h = (hs_client h, hs_server h, to_server h)"

definition over_to_client :: "'m handshake \<Rightarrow> 'm link" where
  "over_to_client h = (hs_server h, hs_client h, to_client h)"

lemma l_first_same:
  "conn_step CA a a' \<Longrightarrow> out a' = out a \<Longrightarrow> link_step CA CB (a, b, fl) (a', b, fl)"
  using l_first [of CA a a' CB b fl] by (simp add: written_def)

lemma handshake_to_server:
  assumes "handshake_step CA CB X h h'"
  shows "clean_link_step CA CB (over_to_server h) (over_to_server h')"
  using assms
proof (cases rule: handshake_step.cases)
  case (hs_client_main pc a)
  with client_main_conn [OF hs_client_main(2)] show ?thesis
    by (auto simp: clean_link_step_def over_to_server_def intro: l_first_same)
next
  case (hs_server_main pc b)
  with server_main_conn [OF hs_server_main(2)] show ?thesis
    by (auto simp: clean_link_step_def over_to_server_def intro: l_second)
next
  case (hs_client_own a)
  with goroutine_conn [OF hs_client_own(2)] show ?thesis
    by (auto simp: clean_link_step_def over_to_server_def intro: l_first)
next
  case (hs_server_own b)
  with goroutine_conn [OF hs_server_own(2)] own_step_arrived [OF hs_server_own(2)] show ?thesis
    by (auto simp: clean_link_step_def over_to_server_def intro: l_second)
next
  case (hs_to_server f fs)
  then show ?thesis by (auto simp: clean_link_step_def over_to_server_def intro: l_deliver)
next
  case (hs_to_client f fs)
  then show ?thesis
    by (auto simp: clean_link_step_def over_to_server_def intro!: l_first_same c_net n_arrive)
qed

lemma handshake_to_client:
  assumes "handshake_step CA CB X h h'"
  shows "clean_link_step CB CA (over_to_client h) (over_to_client h')"
  using assms
proof (cases rule: handshake_step.cases)
  case (hs_client_main pc a)
  with client_main_conn [OF hs_client_main(2)] show ?thesis
    by (auto simp: clean_link_step_def over_to_client_def intro: l_second)
next
  case (hs_server_main pc b)
  with server_main_conn [OF hs_server_main(2)] show ?thesis
    by (auto simp: clean_link_step_def over_to_client_def intro: l_first_same)
next
  case (hs_client_own a)
  with goroutine_conn [OF hs_client_own(2)] own_step_arrived [OF hs_client_own(2)] show ?thesis
    by (auto simp: clean_link_step_def over_to_client_def intro: l_second)
next
  case (hs_server_own b)
  with goroutine_conn [OF hs_server_own(2)] show ?thesis
    by (auto simp: clean_link_step_def over_to_client_def intro: l_first)
next
  case (hs_to_server f fs)
  then show ?thesis
    by (auto simp: clean_link_step_def over_to_client_def intro!: l_first_same c_net n_arrive)
next
  case (hs_to_client f fs)
  then show ?thesis by (auto simp: clean_link_step_def over_to_client_def intro: l_deliver)
qed

text \<open>As long as all that was sent can be carried, what was received is the first part of it.\<close>

fun carried_over :: "('m, 'r) conn_cfg \<Rightarrow> ('m, 'r) conn_cfg \<Rightarrow> ('m, 'r) baseBuilder \<Rightarrow> 'm link \<Rightarrow> bool" where
  "carried_over CA CB bb (a, b, fl) \<longleftrightarrow>
     ((\<forall>m. Some m \<in> set (sent a) \<longrightarrow> carried (cfg_api CA) bb m) \<longrightarrow>
       (\<exists>ms. sent a = map Some (got b @ ms) \<and> list_all2 (received_as CB) ms (arrived b @ fl)))"

lemma carried_over_step:
  assumes "ends_agree CA CB ba bb" and "cfg_encKey CA = None" and "clean_link_step CA CB s t"
    and "carried_over CA CB bb s"
  shows "carried_over CA CB bb t"
proof (cases "s = t")
  case True
  with assms(4) show ?thesis by simp
next
  case False
  with assms(3) have "link_step CA CB s t" and clean: "out (fst t) = out (fst s) \<or> length (sent (fst t)) \<noteq> length (sent (fst s))"
    by (auto simp: clean_link_step_def)
  from this(1) show ?thesis
  proof (cases rule: link_step.cases)
    case (l_first a a' b fl)
    from conn_step_sent [OF l_first(3)] clean l_first(1,2) consider
        (same) "sent a' = sent a" "out a' = out a"
      | (put) m where "sent a' = sent a @ [Some m]"
          "putMessageInConnection write_all (cfg_api CA) (cfg_width CA) (Some m) (cfg_inverseMap CA)
            (cfg_encKey CA) (cfg_hmacKey CA) (tape a, out a) = (None, (tape a', out a'))"
      by auto
    then show ?thesis
    proof cases
      case same
      with l_first assms(4) show ?thesis by (simp add: written_def)
    next
      case put
      show ?thesis
        unfolding l_first(2) carried_over.simps
      proof
        assume c: "\<forall>m. Some m \<in> set (sent a') \<longrightarrow> carried (cfg_api CA) bb m"
        then obtain f where f: "out a' = out a @ f" "f \<noteq> []" "received_as CB m f"
          using put_carried [OF assms(1) _ put(2)] put(1) assms(2) by auto
        from c put(1) assms(4) l_first(1) obtain ms where
          "sent a = map Some (got b @ ms)" "list_all2 (received_as CB) ms (arrived b @ fl)" by auto
        with put(1) f show "\<exists>ms. sent a' = map Some (got b @ ms) \<and>
            list_all2 (received_as CB) ms (arrived b @ fl @ written a a')"
          by (intro exI [of _ "ms @ [m]"]) (simp add: written_def list_all2_appendI flip: append_assoc)
      qed
    qed
  next
    case (l_second b b' a fl)
    show ?thesis
      unfolding l_second(2) carried_over.simps
    proof
      assume "\<forall>m. Some m \<in> set (sent a) \<longrightarrow> carried (cfg_api CA) bb m"
      with assms(4) obtain ms where ms: "sent a = map Some (got b @ ms)" "list_all2 (received_as CB) ms (arrived b @ fl)"
        by (auto simp: l_second(1))
      from receiving_frames [OF l_second(3,4) ms(2)] ms
      show "\<exists>ms. sent a = map Some (got b' @ ms) \<and> list_all2 (received_as CB) ms (arrived b' @ fl)"
        by (elim disjE exE conjE) (auto intro: exI [of _ ms])
    qed
  next
    case (l_deliver a b f fl)
    with assms(4) show ?thesis by simp
  qed
qed

section \<open>Invariants of the handshake\<close>

definition not_routing :: "'m conn_state \<Rightarrow> bool" where
  "not_routing s \<longleftrightarrow> (\<forall>xs p. reader s \<noteq> RExec xs p)"

text \<open>What each function has put in its wrapper's sender channel and taken from its receive channel.\<close>

fun client_inv :: "'m proto_api \<Rightarrow> 'm handshake_env \<Rightarrow> 'm client_pc \<Rightarrow> 'm conn_state \<Rightarrow> bool" where
  "client_inv P X CWait a \<longleftrightarrow> queued a = [] \<and> taken a = []"
| "client_inv P X (CSend e) a \<longleftrightarrow> queued a = [] \<and> (\<exists>m. taken a = [m] \<and> client_reply P X m = CSend e)"
| "client_inv P X (CFailed p) a \<longleftrightarrow> queued a = [] \<and> (\<exists>m. taken a = [m] \<and> client_reply P X m = CFailed p)"
| "client_inv P X _ a \<longleftrightarrow> (\<exists>m e. queued a = [Some e] \<and> taken a = [m] \<and> client_reply P X m = CSend e)"

fun accept_inv :: "'m proto_api \<Rightarrow> 'm handshake_env \<Rightarrow> 'm server_pc \<Rightarrow> 'm conn_state \<Rightarrow> bool" where
  "accept_inv P X SvSend b \<longleftrightarrow> queued b = [] \<and> taken b = []"
| "accept_inv P X SvWait b \<longleftrightarrow> queued b = [Some (rsa_pub X)] \<and> taken b = []"
| "accept_inv P X (SvSoft m) b \<longleftrightarrow> queued b = [Some (rsa_pub X)] \<and> taken b = [m]"
| "accept_inv P X (SvCheck m) b \<longleftrightarrow> queued b = [Some (rsa_pub X)] \<and> taken b = [m]"
| "accept_inv P X (SvReady ek hk) b \<longleftrightarrow>
     queued b = [Some (rsa_pub X)] \<and> (\<exists>m. taken b = [m] \<and> server_keys P X m = Inr (ek, hk))"
| "accept_inv P X (SvDropped err) b \<longleftrightarrow>
     queued b = [Some (rsa_pub X)] \<and> (\<exists>m. taken b = [m] \<and> server_keys P X m = Inl err)"

lemma client_inv_cong:
  "queued a' = queued a \<Longrightarrow> taken a' = taken a \<Longrightarrow> client_inv P X pc a' = client_inv P X pc a"
  by (cases pc) simp_all

lemma accept_inv_cong:
  "queued b' = queued b \<Longrightarrow> taken b' = taken b \<Longrightarrow> accept_inv P X pc b' = accept_inv P X pc b"
  by (cases pc) simp_all

lemma unrouted_runs_nothing: "(\<And>m. unrouted C m) \<Longrightarrow> after_receive C r \<noteq> RExec xs p"
  by (auto simp: after_receive_def unrouted_def split: prod.splits option.splits if_splits)

lemma goroutine_records:
  assumes "goroutine_step C s t" and "\<And>m. unrouted C m" and "not_routing s"
  shows "not_routing t \<and> queued t = queued s \<and> taken t = taken s"
proof -
  have "not_routing t \<and> queued t = queued s \<and> taken t = taken s" if "reader_step C s t"
    using that assms(3) by cases (auto simp: not_routing_def unrouted_runs_nothing [OF assms(2)])
  with assms(1,3) show ?thesis
    by (auto elim!: goroutine_step.cases own_step.cases sender_step.cases signaler_step.cases
        idle_step.cases simp: not_routing_def)
qed

lemma mains_keep_not_routing:
  "takes C m s t \<Longrightarrow> not_routing s \<Longrightarrow> not_routing t" "put_sender C x s t \<Longrightarrow> not_routing s \<Longrightarrow> not_routing t"
  by (auto simp: not_routing_def elim!: takes.cases put_sender_cases)

lemma client_main_inv:
  "client_main C X pc a pc' a' \<Longrightarrow> client_inv (cfg_api C) X pc a \<and> not_routing a \<Longrightarrow>
     client_inv (cfg_api C) X pc' a' \<and> not_routing a'"
proof (induction rule: client_main.induct)
  case (cm_take m a a')
  have "\<exists>e p. client_reply (cfg_api C) X m = CSend e \<or> client_reply (cfg_api C) X m = CFailed p"
    by (auto simp: client_reply_def split: sum.split)
  with cm_take takes_fields(1,2) [OF cm_take(1)] mains_keep_not_routing(1) [OF cm_take(1)] show ?case by auto
next
  case (cm_send e a a')
  with cm_send put_sender_fields(1,2) [OF cm_send(1)] mains_keep_not_routing(2) [OF cm_send(1)] show ?case by auto
qed (auto simp: not_routing_def)

lemma server_main_inv:
  "server_main C X pc b pc' b' \<Longrightarrow> accept_inv (cfg_api C) X pc b \<and> not_routing b \<Longrightarrow>
     accept_inv (cfg_api C) X pc' b' \<and> not_routing b'"
proof (induction rule: server_main.induct)
  case (sm_send b b')
  with sm_send put_sender_fields(1,2) [OF sm_send(1)] mains_keep_not_routing(2) [OF sm_send(1)] show ?case by auto
next
  case (sm_take m b b')
  with sm_take takes_fields(1,2) [OF sm_take(1)] mains_keep_not_routing(1) [OF sm_take(1)] show ?case by auto
qed (auto simp: not_routing_def)

definition mains_inv :: "('m, 'r) conn_cfg \<Rightarrow> ('m, 'r) conn_cfg \<Rightarrow> 'm handshake_env \<Rightarrow> 'm handshake \<Rightarrow> bool" where
  "mains_inv CA CB X h \<longleftrightarrow>
     client_inv (cfg_api CA) X (client_at h) (hs_client h) \<and> not_routing (hs_client h) \<and>
     accept_inv (cfg_api CB) X (server_at h) (hs_server h) \<and> not_routing (hs_server h)"

lemma mains_inv_step:
  assumes "handshake_step CA CB X h h'" and "\<And>m. unrouted CA m" and "\<And>m. unrouted CB m" and "mains_inv CA CB X h"
  shows "mains_inv CA CB X h'"
  using assms(1)
proof (cases rule: handshake_step.cases)
  case (hs_client_main pc a)
  with client_main_inv [OF hs_client_main(2)] assms(4) show ?thesis by (simp add: mains_inv_def)
next
  case (hs_server_main pc b)
  with server_main_inv [OF hs_server_main(2)] assms(4) show ?thesis by (simp add: mains_inv_def)
next
  case (hs_client_own a)
  with goroutine_records [OF hs_client_own(2) assms(2)] assms(4) client_inv_cong [of a "hs_client h"] show ?thesis
    by (auto simp: mains_inv_def)
next
  case (hs_server_own b)
  with goroutine_records [OF hs_server_own(2) assms(3)] assms(4) accept_inv_cong [of b "hs_server h"] show ?thesis
    by (auto simp: mains_inv_def)
next
  case (hs_to_server f fs)
  with assms(4) accept_inv_cong [of "(hs_server h)\<lparr>arrived := arrived (hs_server h) @ [f]\<rparr>" "hs_server h"] show ?thesis
    by (auto simp: mains_inv_def not_routing_def)
next
  case (hs_to_client f fs)
  with assms(4) client_inv_cong [of "(hs_client h)\<lparr>arrived := arrived (hs_client h) @ [f]\<rparr>" "hs_client h"] show ?thesis
    by (auto simp: mains_inv_def not_routing_def)
qed

interpretation handshake_mains: machine_invariant "handshake_start name t0 tp name' t0' tp'" "handshake_step CA CB X"
    "\<lambda>h. (\<forall>m. unrouted CA m) \<and> (\<forall>m. unrouted CB m) \<longrightarrow> mains_inv CA CB X h"
  for name t0 tp name' t0' tp' CA CB X
  by unfold_locales
    (simp add: handshake_start_def mains_inv_def wrapped_def not_routing_def, blast intro: mains_inv_step)

interpretation handshake_out: machine_invariant "handshake_start name t0 tp name' t0' tp'" "handshake_step CA CB X"
    "\<lambda>h. ends_agree CA CB ba bb \<and> cfg_encKey CA = None \<longrightarrow> carried_over CA CB bb (over_to_server h)"
  for name t0 tp name' t0' tp' CA CB X ba bb
  by unfold_locales
    (simp add: handshake_start_def wrapped_def over_to_server_def, blast intro: carried_over_step handshake_to_server)

interpretation handshake_back: machine_invariant "handshake_start name t0 tp name' t0' tp'" "handshake_step CA CB X"
    "\<lambda>h. ends_agree CB CA bb ba \<and> cfg_encKey CB = None \<longrightarrow> carried_over CB CA ba (over_to_client h)"
  for name t0 tp name' t0' tp' CA CB X ba bb
  by unfold_locales
    (simp add: handshake_start_def wrapped_def over_to_client_def, blast intro: carried_over_step handshake_to_client)

lemma handshake_ends:
  "reach (handshake_start name t0 tp name' t0' tp') (handshake_step CA CB X) h \<Longrightarrow>
     reach (conn_start name t0 tp) (conn_step CA) (hs_client h) \<and>
     reach (conn_start name' t0' tp') (conn_step CB) (hs_server h)"
proof -
  assume "reach (handshake_start name t0 tp name' t0' tp') (handshake_step CA CB X) h"
  then have "reach (link_start name t0 tp name' t0' tp') (link_step CA CB) (over_to_server h)"
  proof (induction rule: reach.induct)
    case (reach_start h)
    then show ?case by (auto simp: handshake_start_def link_start_def over_to_server_def intro: reach.reach_start)
  next
    case (reach_step h h')
    with handshake_to_server [OF reach_step(2)] show ?case
      by (auto simp: clean_link_step_def intro: reach.reach_step)
  qed
  from link_ends [OF this] show ?thesis by (simp add: over_to_server_def)
qed

text \<open>What one function has taken, the other one has put in its channel.\<close>

lemma taken_was_queued:
  assumes "carried_over CA CB bb (a, b, fl)" and "send_inv CA a" and "recv_inv CB b" and "\<And>m. unrouted CB m"
    and "\<And>m. Some m \<in> set (queued a) \<Longrightarrow> carried (cfg_api CA) bb m"
    and "m \<in> set (taken b)"
  shows "Some m \<in> set (sent a) \<and> Some m \<in> set (queued a)"
proof -
  have sub: "set (sent a) \<subseteq> set (queued a)" using assms(2) by (auto simp: send_inv_def)
  with assms(1,5) obtain ms where ms: "sent a = map Some (got b @ ms)" by fastforce
  have "got b = taken b @ recv_q b @ delivering (reader b)" using assms(3,4) by (simp add: recv_inv_def)
  with ms assms(6) have "Some m \<in> set (sent a)" by simp
  with sub show ?thesis by blast
qed

section \<open>Both ends arrive at the same keys\<close>


text \<open>
  Two temporary wrappers without keys or routes, whose builders fit and know the messages of the
  handshake, which fit into one buffer.
\<close>

definition handshake_fits ::
    "('m, 'r) conn_cfg \<Rightarrow> ('m, 'r) conn_cfg \<Rightarrow> ('m, 'r) baseBuilder \<Rightarrow> ('m, 'r) baseBuilder \<Rightarrow> 'm handshake_env \<Rightarrow> bool" where
  "handshake_fits CA CB ba bb X \<longleftrightarrow>
     ends_agree CA CB ba bb \<and> ends_agree CB CA bb ba \<and> cfg_encKey CA = None \<and>
     (\<forall>m. unrouted CA m) \<and> (\<forall>m. unrouted CB m) \<and>
     FullName (cfg_api CA) (rsa_pub X) = FullName (cfg_api CA) (NewPublicKey (cfg_api CA)) \<and>
     carried (cfg_api CA) ba (rsa_pub X) \<and>
     (\<forall>e. rsa_encrypt X (own_keys X) (rsa_pub X) = Inr e \<longrightarrow> carried (cfg_api CA) bb e)"

lemma handshake_fitsD:
  assumes "handshake_fits CA CB ba bb X"
  shows "cfg_api CB = cfg_api CA" "unrouted CA m" "unrouted CB m" "carried (cfg_api CA) ba (rsa_pub X)"
    "FullName (cfg_api CA) (rsa_pub X) = FullName (cfg_api CA) (NewPublicKey (cfg_api CA))"
    "rsa_encrypt X (own_keys X) (rsa_pub X) = Inr e \<Longrightarrow> carried (cfg_api CA) bb e"
  using assms unfolding handshake_fits_def ends_agree_def by blast+

lemma handshake_invs:
  assumes "handshake_fits CA CB ba bb X"
    and "reach (handshake_start name t0 tp name' t0' tp') (handshake_step CA CB X) h"
  shows "mains_inv CA CB X h" "carried_over CA CB bb (over_to_server h)" "carried_over CB CA ba (over_to_client h)"
    "send_inv CA (hs_client h)" "recv_inv CA (hs_client h)" "send_inv CB (hs_server h)" "recv_inv CB (hs_server h)"
    "flags_inv (hs_client h)"
proof -
  have fits: "ends_agree CA CB ba bb" "ends_agree CB CA bb ba" "cfg_encKey CA = None" "\<forall>m. unrouted CA m" "\<forall>m. unrouted CB m"
    using assms(1) unfolding handshake_fits_def by blast+
  then have keys: "cfg_encKey CB = None" unfolding ends_agree_def by metis
  show "mains_inv CA CB X h" using handshake_mains.reach_inv [OF assms(2)] fits(4,5) by blast
  show "carried_over CA CB bb (over_to_server h)" using handshake_out.reach_inv [OF assms(2)] fits(1,3) by blast
  show "carried_over CB CA ba (over_to_client h)" using handshake_back.reach_inv [OF assms(2)] fits(2) keys by blast
  note ends = handshake_ends [OF assms(2), THEN conjunct1] handshake_ends [OF assms(2), THEN conjunct2]
  show "send_inv CA (hs_client h)" "recv_inv CA (hs_client h)" "send_inv CB (hs_server h)" "recv_inv CB (hs_server h)"
    "flags_inv (hs_client h)"
    using conn_send.reach_inv [OF ends(1)] conn_recv.reach_inv [OF ends(1)] conn_send.reach_inv [OF ends(2)]
      conn_recv.reach_inv [OF ends(2)] conn_flags.reach_inv [OF ends(1)] by simp_all
qed

text \<open>The client takes nothing but the server's public key, the server nothing but the client's message.\<close>

lemma client_takes_public_key:
  assumes "handshake_fits CA CB ba bb X"
    and "reach (handshake_start name t0 tp name' t0' tp') (handshake_step CA CB X) h"
    and "m \<in> set (taken (hs_client h))"
  shows "m = rsa_pub X"
proof -
  note inv = handshake_invs [OF assms(1,2)] and fits = handshake_fitsD [OF assms(1)]
  have q: "set (queued (hs_server h)) \<subseteq> {Some (rsa_pub X)}"
    using inv(1) by (cases "server_at h") (auto simp: mains_inv_def)
  have "carried (cfg_api CB) ba m'" if "Some m' \<in> set (queued (hs_server h))" for m'
    using that q fits(1,4) by auto
  with taken_was_queued [OF inv(3) [unfolded over_to_client_def] inv(6,5) fits(2) _ assms(3)]
  have "Some m \<in> set (queued (hs_server h))" by blast
  with q show ?thesis by auto
qed

lemma server_takes_keys:
  assumes "handshake_fits CA CB ba bb X"
    and "reach (handshake_start name t0 tp name' t0' tp') (handshake_step CA CB X) h"
    and "m \<in> set (taken (hs_server h))"
  shows "rsa_encrypt X (own_keys X) (rsa_pub X) = Inr m \<and> client_at h \<in> {CSoft, CReady}
    \<and> Some m \<in> set (sent (hs_client h))"
proof -
  note inv = handshake_invs [OF assms(1,2)] and fits = handshake_fitsD [OF assms(1)]
  have made: "rsa_encrypt X (own_keys X) (rsa_pub X) = Inr e \<and> client_at h \<in> {CSoft, CReady}"
    if e: "Some e \<in> set (queued (hs_client h))" for e
  proof -
    obtain p where p: "taken (hs_client h) = [p]" "client_reply (cfg_api CA) X p = CSend e" "client_at h \<in> {CSoft, CReady}"
      using inv(1) e by (cases "client_at h") (auto simp: mains_inv_def)
    have "p = rsa_pub X" using client_takes_public_key [OF assms(1,2)] p(1) by simp
    with p(2,3) fits(5) show ?thesis
      by (cases "rsa_encrypt X (own_keys X) (rsa_pub X)") (simp_all add: client_reply_def)
  qed
  have "carried (cfg_api CA) bb m'" if "Some m' \<in> set (queued (hs_client h))" for m'
    using made [OF that] fits(6) by blast
  with taken_was_queued [OF inv(2) [unfolded over_to_server_def] inv(4,7) fits(3) _ assms(3)]
  have "Some m \<in> set (sent (hs_client h)) \<and> Some m \<in> set (queued (hs_client h))" by blast
  with made show ?thesis by blast
qed


section \<open>Runs\<close>

fun takes_exec :: "('m, 'r) conn_cfg \<Rightarrow> 'm conn_state \<Rightarrow> ('m \<times> 'm conn_state) option" where
  "takes_exec C s =
     (case recv_q s of
        m # ms \<Rightarrow> Some (m, s\<lparr>recv_q := ms, taken := taken s @ [m]\<rparr>)
      | [] \<Rightarrow>
          if cfg_recvCap C = 0
          then (case reader s of RDeliver m \<Rightarrow> Some (m, s\<lparr>reader := RStamp, taken := taken s @ [m]\<rparr>) | _ \<Rightarrow> None)
          else None)"

fun client_exec ::
    "('m, 'r) conn_cfg \<Rightarrow> 'm handshake_env \<Rightarrow> 'm client_pc \<Rightarrow> 'm conn_state \<Rightarrow> ('m client_pc \<times> 'm conn_state) option" where
  "client_exec C X CWait a = map_option (\<lambda>(m, a'). (client_reply (cfg_api C) X m, a')) (takes_exec C a)"
| "client_exec C X (CSend e) a = map_option (\<lambda>a'. (CSoft, a')) (put_sender_exec C (Some e) a)"
| "client_exec C X CSoft a = (case softClose (wrapper a) of Ret n \<Rightarrow> Some (CReady, a\<lparr>wrapper := n\<rparr>) | Panic p \<Rightarrow> None)"
| "client_exec C X _ a = None"

fun server_exec ::
    "('m, 'r) conn_cfg \<Rightarrow> 'm handshake_env \<Rightarrow> 'm server_pc \<Rightarrow> 'm conn_state \<Rightarrow> ('m server_pc \<times> 'm conn_state) option" where
  "server_exec C X SvSend b = map_option (\<lambda>b'. (SvWait, b')) (put_sender_exec C (Some (rsa_pub X)) b)"
| "server_exec C X SvWait b = map_option (\<lambda>(m, b'). (SvSoft m, b')) (takes_exec C b)"
| "server_exec C X (SvSoft m) b =
     (case softClose (wrapper b) of Ret n \<Rightarrow> Some (SvCheck m, b\<lparr>wrapper := n\<rparr>) | Panic p \<Rightarrow> None)"
| "server_exec C X (SvCheck m) b =
     (case server_keys (cfg_api C) X m of
        Inr (ek, hk) \<Rightarrow> Some (SvReady ek hk, b)
      | Inl err \<Rightarrow> Some (SvDropped err, b\<lparr>wrapper := close_exec (wrapper b)\<rparr>))"
| "server_exec C X _ b = None"

datatype wrapper_part = PartReader | PartSender | PartSignaler

fun part_exec :: "('m, 'r) conn_cfg \<Rightarrow> wrapper_part \<Rightarrow> 'm conn_state \<Rightarrow> 'm conn_state option" where
  "part_exec C PartReader s = reader_exec C EOF s"
| "part_exec C PartSender s = sender_exec C s"
| "part_exec C PartSignaler s = signaler_exec s"

definition goroutine_exec :: "('m, 'r) conn_cfg \<Rightarrow> wrapper_part \<Rightarrow> 'm conn_state \<Rightarrow> 'm conn_state option" where
  "goroutine_exec C x s =
     (case part_exec C x s of
        None \<Rightarrow> None
      | Some t \<Rightarrow> if out t = out s \<or> length (sent t) \<noteq> length (sent s) then Some t else None)"

datatype handshake_action =
  ClientMain | ServerMain | ClientPart wrapper_part | ServerPart wrapper_part | FrameToServer | FrameToClient

fun handshake_exec ::
    "('m, 'r) conn_cfg \<Rightarrow> ('m, 'r) conn_cfg \<Rightarrow> 'm handshake_env \<Rightarrow> handshake_action \<Rightarrow> 'm handshake \<Rightarrow> 'm handshake option" where
  "handshake_exec CA CB X ClientMain h =
     map_option (\<lambda>(pc, a). h\<lparr>hs_client := a, client_at := pc\<rparr>) (client_exec CA X (client_at h) (hs_client h))"
| "handshake_exec CA CB X ServerMain h =
     map_option (\<lambda>(pc, b). h\<lparr>hs_server := b, server_at := pc\<rparr>) (server_exec CB X (server_at h) (hs_server h))"
| "handshake_exec CA CB X (ClientPart x) h =
     (case client_at h of
        CFailed p \<Rightarrow> None
      | _ \<Rightarrow> map_option (\<lambda>a. h\<lparr>hs_client := a, to_server := to_server h @ written (hs_client h) a\<rparr>)
               (goroutine_exec CA x (hs_client h)))"
| "handshake_exec CA CB X (ServerPart x) h =
     map_option (\<lambda>b. h\<lparr>hs_server := b, to_client := to_client h @ written (hs_server h) b\<rparr>)
       (goroutine_exec CB x (hs_server h))"
| "handshake_exec CA CB X FrameToServer h =
     (case to_server h of
        [] \<Rightarrow> None
      | f # fs \<Rightarrow> Some (h\<lparr>hs_server := (hs_server h)\<lparr>arrived := arrived (hs_server h) @ [f]\<rparr>, to_server := fs\<rparr>))"
| "handshake_exec CA CB X FrameToClient h =
     (case to_client h of
        [] \<Rightarrow> None
      | f # fs \<Rightarrow> Some (h\<lparr>hs_client := (hs_client h)\<lparr>arrived := arrived (hs_client h) @ [f]\<rparr>, to_client := fs\<rparr>))"

fun handshake_run ::
    "('m, 'r) conn_cfg \<Rightarrow> ('m, 'r) conn_cfg \<Rightarrow> 'm handshake_env \<Rightarrow> handshake_action list \<Rightarrow> 'm handshake \<Rightarrow> 'm handshake option" where
  "handshake_run CA CB X [] h = Some h"
| "handshake_run CA CB X (x # xs) h =
     (case handshake_exec CA CB X x h of None \<Rightarrow> None | Some h' \<Rightarrow> handshake_run CA CB X xs h')"

lemma takes_exec_sound: "takes_exec C s = Some (m, t) \<Longrightarrow> takes C m s t"
  by (auto split: list.splits if_splits reader_pc.splits intro: takes.intros)

lemma client_exec_sound:
  assumes "client_exec C X pc a = Some (pc', a')" shows "client_main C X pc a pc' a'"
  using assms
  by (cases pc) (auto simp del: takes_exec.simps intro: client_main.intros
      dest: takes_exec_sound put_sender_exec_sound split: go.splits)

lemma server_exec_sound:
  assumes "server_exec C X pc b = Some (pc', b')" shows "server_main C X pc b pc' b'"
  using assms
  by (cases pc) (auto simp del: takes_exec.simps intro: server_main.intros close_exec_Ret
      dest: takes_exec_sound put_sender_exec_sound split: go.splits sum.splits)

lemma goroutine_exec_sound:
  assumes "goroutine_exec C x s = Some t" shows "goroutine_step C s t"
proof -
  from assms have t: "part_exec C x s = Some t" "out t = out s \<or> length (sent t) \<noteq> length (sent s)"
    by (auto simp: goroutine_exec_def split: option.splits if_splits)
  from t(1) have "own_step C s t"
    by (cases x) (auto simp del: reader_exec.simps sender_exec.simps signaler_exec.simps
        intro: o_reader o_sender o_signaler reader_exec_sound sender_exec_sound signaler_exec_sound)
  with t(2) show ?thesis by (auto intro: gr_own)
qed

lemma handshake_exec_sound:
  assumes "handshake_exec CA CB X x h = Some h'" shows "handshake_step CA CB X h h'"
proof (cases x)
  case (ClientPart y)
  with assms obtain a where "\<forall>p. client_at h \<noteq> CFailed p" "goroutine_exec CA y (hs_client h) = Some a"
    "h' = h\<lparr>hs_client := a, to_server := to_server h @ written (hs_client h) a\<rparr>"
    by (cases "client_at h") auto
  then show ?thesis by (auto intro: hs_client_own goroutine_exec_sound)
qed (use assms in \<open>auto simp del: client_exec.simps server_exec.simps split: list.splits
    intro: handshake_step.intros client_exec_sound server_exec_sound goroutine_exec_sound\<close>)

lemma handshake_run_steps: "handshake_run CA CB X xs h = Some h' \<Longrightarrow> (handshake_step CA CB X)\<^sup>*\<^sup>* h h'"
proof (induction xs arbitrary: h)
  case (Cons x xs)
  from Cons(2) obtain u where u: "handshake_exec CA CB X x h = Some u" "handshake_run CA CB X xs u = Some h'"
    by (auto simp del: handshake_exec.simps split: option.splits)
  from converse_rtranclp_into_rtranclp [OF handshake_exec_sound [OF u(1)] Cons(1) [OF u(2)]] show ?case .
qed simp

text \<open>A builder with the two messages of the handshake, an RSA of the identity, two keys.\<close>

definition handshake_builder :: "(raw_message, unit) baseBuilder" where
  "handshake_builder =
     AddMessageIdentity raw_api (Some (NewEncryptedMessage raw_api)) (one_type_builder (NewPublicKey raw_api))"

lemma handshake_builder_sound: "registry_sound raw_api handshake_builder"
proof -
  have "hashString ''goprocrypt.PublicKey'' \<noteq> hashString ''goprocrypt.EncryptedMessage''"
    by (simp add: hashString_def bytes_of_string_def)
  then show ?thesis
    using one_type_builder_inv [of "NewPublicKey raw_api"]
    by (auto simp: registry_sound_def collision_free_def handshake_builder_def one_type_builder_def option_defs
        NewNanoBuilder_def initialize_def inverseIdentMap_addSingleIdentity
        intro!: registry_inv_addSingleIdentity registry_inv_initialize [unfolded initialize_def])
qed

lemma handshake_builder_registered:
  "inverseIdentMap handshake_builder ''goprocrypt.PublicKey'' \<noteq> None"
  "inverseIdentMap handshake_builder ''goprocrypt.EncryptedMessage'' \<noteq> None"
  by (simp_all add: handshake_builder_def one_type_builder_def option_defs inverseIdentMap_addSingleIdentity)

definition handshake_cfg :: "nat \<Rightarrow> (raw_message, unit) conn_cfg" where
  "handshake_cfg cap =
     (demo_cfg None None)\<lparr>cfg_identMap := messageIdentMap handshake_builder,
        cfg_inverseMap := inverseIdentMap handshake_builder, cfg_sendCap := cap\<rparr>"

definition demo_encrypt :: "api_key \<Rightarrow> raw_message \<Rightarrow> go_error + raw_message" where
  "demo_encrypt k pub =
     (if is_key (ak_EncKey k) then Inr (demo_encrypted (ak_EncKey k @ ak_HmacKey k)) else Inl EOF)"



definition demo_handshake_env :: "raw_message handshake_env" where
  "demo_handshake_env =
     \<lparr>rsa_encrypt = demo_encrypt, rsa_decrypt = demo_decrypt,
      rsa_pub = RawMessage CHR ''g'' ''oprocrypt.PublicKey'' [7],
      own_keys = \<lparr>ak_EncKey = replicate 32 1, ak_HmacKey = replicate 32 2\<rparr>\<rparr>"

lemma demo_handshake_fits:
  "handshake_fits (handshake_cfg k) (handshake_cfg k) handshake_builder handshake_builder demo_handshake_env"
proof -
  let ?C = "handshake_cfg k" and ?b = handshake_builder
  have sound: "registry_sound raw_api ?b" "registry_inv raw_api ?b"
    using handshake_builder_sound by (simp_all add: registry_sound_def)
  have "ends_agree ?C ?C ?b ?b"
    using raw_api_laws sound by (simp add: ends_agree_def handshake_cfg_def demo_cfg_def Let_def)
  moreover have "unrouted ?C m" for m by (simp add: unrouted_def route_for_def handshake_cfg_def demo_cfg_def Let_def)
  ultimately show ?thesis
    using handshake_builder_registered
    by (auto simp: handshake_fits_def carried_def demo_handshake_env_def demo_encrypt_def demo_encrypted_def
        handshake_cfg_def demo_cfg_def Let_def)
qed

text \<open>A handshake from the first step to the keys; the second one stops before the client's \<open>softClose\<close>.\<close>

definition demo_handshake :: "nat \<Rightarrow> handshake_action list \<Rightarrow> raw_message handshake option" where
  "demo_handshake cap xs =
     handshake_run (handshake_cfg cap) (handshake_cfg cap) demo_handshake_env
       ([ServerPart PartSender, ServerMain] @ replicate 2 (ServerPart PartSender) @ [FrameToClient]
        @ replicate 4 (ClientPart PartReader) @ [ClientPart PartReader, ClientMain] @ xs)
       \<lparr>hs_client = wrapped ''client'' 0 [], hs_server = wrapped ''server'' 0 [], to_server = [], to_client = [],
        client_at = CWait, server_at = SvSend\<rparr>"


definition demo_unsent :: "raw_message handshake option" where
  "demo_unsent = demo_handshake 1 [ClientPart PartSender, ClientMain]"

lemma demo_handshake_reach:
  "demo_handshake k xs = Some h \<Longrightarrow>
     reach (handshake_start ''client'' 0 [] ''server'' 0 []) (handshake_step (handshake_cfg k) (handshake_cfg k) demo_handshake_env) h"
  unfolding demo_handshake_def
  by (drule handshake_run_steps, rule reach_steps [OF reach_start]) (simp add: handshake_start_def, assumption)


lemma demo_unsent_eval:
  "case demo_unsent of None \<Rightarrow> False | Some h \<Rightarrow>
     client_at h = CSoft \<and> \<not> closed (wrapper (hs_client h)) \<and> sender (hs_client h) = SLoop \<and> sent (hs_client h) = []"
  unfolding demo_unsent_def demo_handshake_def by code_simp


text \<open>Without a buffer the message cannot get lost in the channel: it is sent, or the sender holds it.\<close>

lemma unbuffered_keys_are_on_their_way:
  assumes "handshake_fits CA CB ba bb X"
    and "reach (handshake_start name t0 tp name' t0' tp') (handshake_step CA CB X) h"
    and "cfg_sendCap CA = 0" and "client_at h = CSoft \<or> client_at h = CReady" and "sender_alive (sender (hs_client h))"
  obtains e where "sent (hs_client h) = [Some e] \<or> sender (hs_client h) = SPut (Some e)"
proof -
  from handshake_invs(1) [OF assms(1,2)] assms(4) obtain e where e: "queued (hs_client h) = [Some e]"
    by (auto simp: mains_inv_def)
  have "queued (hs_client h) = sent (hs_client h) @ putting (sender (hs_client h))"
    using handshake_invs(4) [OF assms(1,2)] assms(3,5) by (auto simp: send_inv_def)
  with e that show thesis by (cases "sender (hs_client h)") (auto simp: append_eq_Cons_conv)
qed

section \<open>The keys can be lost\<close>

text \<open>
  A sender that has ended without sending anything never sends; what a server has taken was sent.
\<close>

definition muted :: "'m conn_state \<Rightarrow> bool" where
  "muted a \<longleftrightarrow> (sender a = SExit \<or> sender a = SDone) \<and> sent a = []"

lemma muted_step:
  assumes "goroutine_step C a a'" and "muted a"
  shows "muted a'"
proof -
  have "sender t = sender s \<and> sent t = sent s" if "reader_step C s t" "sender s = SExit \<or> sender s = SDone" for s t
    using that by (cases rule: reader_step.cases) (auto elim!: put_sender_cases simp: put_sender_receiving)
  with assms show ?thesis
    by (auto elim!: goroutine_step.cases own_step.cases sender_step.cases signaler_step.cases
        idle_step.cases simp: muted_def)
qed

lemma muted_stays:
  assumes "(handshake_step CA CB X)\<^sup>*\<^sup>* h h'" and "muted (hs_client h)" and "client_at h = CReady"
  shows "muted (hs_client h') \<and> client_at h' = CReady"
  using assms
proof (induction rule: rtranclp_induct)
  case (step u v)
  then have u: "muted (hs_client u)" "client_at u = CReady" by simp_all
  from step(2) show ?case
  proof (cases rule: handshake_step.cases)
    case (hs_client_main pc a)
    with u show ?thesis by (auto elim: client_main.cases)
  next
    case (hs_client_own a)
    with u muted_step show ?thesis by auto
  next
    case (hs_to_client f fs)
    with u show ?thesis by (simp add: muted_def)
  qed (use u in auto)
qed simp

lemma server_waits_for_sent:
  assumes "handshake_fits CA CB ba bb X"
    and "reach (handshake_start name t0 tp name' t0' tp') (handshake_step CA CB X) h" and "sent (hs_client h) = []"
  shows "server_at h \<in> {SvSend, SvWait}"
proof -
  have inv: "accept_inv (cfg_api CB) X (server_at h) (hs_server h)"
    using handshake_invs(1) [OF assms(1,2)] by (simp add: mains_inv_def)
  have "taken (hs_server h) = []" using server_takes_keys [OF assms(1,2)] assms(3) by (cases "taken (hs_server h)") auto
  with inv show ?thesis by (cases "server_at h") auto
qed

text \<open>The client's goroutines, after \<open>softClose\<close>, with steps that write nothing.\<close>

lemma client_parts:
  assumes "goroutine_step CA (hs_client h) a" and "out a = out (hs_client h)" and "client_at h = CReady"
  shows "handshake_step CA CB X h (h\<lparr>hs_client := a\<rparr>)"
  using hs_client_own [OF assms(1), of CB X] assms(2,3) by (simp add: written_def)

lemma closed_sender_can_end:
  assumes "flags_inv a" and "\<not> closed (wrapper a)" and "sender a = SStart \<or> sender a = SLoop"
    and "softClose (wrapper a) = Ret n"
  shows "\<exists>a'. (\<lambda>s t. goroutine_step C s t \<and> out t = out s)\<^sup>*\<^sup>* (a\<lparr>wrapper := n\<rparr>) a' \<and> sender a' = SExit \<and> sent a' = sent a"
    (is "\<exists>a'. ?quiet\<^sup>*\<^sup>* _ a' \<and> _ \<and> _")
  using assms(3)
proof
  have quiet: "?quiet s t" if "own_step C s t" "out t = out s" for s t
    using that by (auto intro: gr_own)
  have n: "closed n" "signaler n = SigDeadline" "readerShutdown n = 0" "writerShutdown n = 0"
    using assms(1,2,4) by (auto simp: softClose_Ret flags_inv_def wrapper_inv_def)
  let ?a = "a\<lparr>wrapper := n\<rparr>"
  {
    assume "sender a = SStart"
    with n(1) s_start [of ?a C] have "own_step C ?a (?a\<lparr>sender := SExit\<rparr>)"
      by (intro o_sender) (simp add: IsClosed_def)
    from quiet [OF this] show ?thesis by (intro exI [of _ "?a\<lparr>sender := SExit\<rparr>"]) auto
  next
    assume loop: "sender a = SLoop"
    let ?b = "?a\<lparr>wrapper := (wrapper ?a)\<lparr>signaler := SigReader,
        readDeadline := if connOpen (wrapper ?a) then PastDeadline else readDeadline (wrapper ?a)\<rparr>\<rparr>"
    let ?c = "?b\<lparr>wrapper := (wrapper ?b)\<lparr>signaler := SigWriter, readerShutdown := readerShutdown (wrapper ?b) + 1\<rparr>\<rparr>"
    let ?d = "?c\<lparr>wrapper := (wrapper ?c)\<lparr>signaler := SigDone, writerShutdown := writerShutdown (wrapper ?c) + 1\<rparr>\<rparr>"
    let ?e = "?d\<lparr>sender := SExit, wrapper := (wrapper ?d)\<lparr>writerShutdown := writerShutdown (wrapper ?d) - 1\<rparr>\<rparr>"
    have "own_step C ?a ?b" using n by (intro o_signaler g_deadline) simp
    then have 1: "?quiet ?a ?b" by (rule quiet) simp
    have "own_step C ?b ?c" using n by (intro o_signaler g_reader) simp_all
    then have 2: "?quiet ?b ?c" by (rule quiet) simp
    have "own_step C ?c ?d" using n by (intro o_signaler g_writer) simp_all
    then have 3: "?quiet ?c ?d" by (rule quiet) simp
    have "own_step C ?d ?e" using n loop by (intro o_sender s_shutdown) simp_all
    then have 4: "?quiet ?d ?e" by (rule quiet) simp
    have "?quiet\<^sup>*\<^sup>* ?a ?e"
      by (intro converse_rtranclp_into_rtranclp [of ?quiet, OF 1] converse_rtranclp_into_rtranclp [of ?quiet, OF 2]
          converse_rtranclp_into_rtranclp [of ?quiet, OF 3] converse_rtranclp_into_rtranclp [of ?quiet, OF 4] rtranclp.rtrancl_refl)
    then show ?thesis by (intro exI [of _ ?e]) simp
  }
qed

text \<open>
  C36. The client can lose the keys. When the client's function has put the message with the keys in
  the buffer of its sender channel and the sender has not taken it yet, the \<open>softClose\<close> that follows
  can make the sender end first. Then the client's function goes on with its keys, and whatever
  happens after that, the message is never sent and the server's function waits for it for ever, and
  with it the accept loop.
\<close>

theorem softClose_can_lose_keys:
  assumes "handshake_fits CA CB ba bb X"
    and "reach (handshake_start name t0 tp name' t0' tp') (handshake_step CA CB X) h"
    and "client_at h = CSoft" and "\<not> closed (wrapper (hs_client h))"
    and "sender (hs_client h) = SStart \<or> sender (hs_client h) = SLoop" and "sent (hs_client h) = []"
  shows "\<exists>h'. (handshake_step CA CB X)\<^sup>*\<^sup>* h h' \<and> client_at h' = CReady \<and>
    (\<forall>h''. (handshake_step CA CB X)\<^sup>*\<^sup>* h' h'' \<longrightarrow> sent (hs_client h'') = [] \<and> server_at h'' \<in> {SvSend, SvWait})"
proof -
  let ?S = "handshake_step CA CB X"
  obtain n where n: "softClose (wrapper (hs_client h)) = Ret n" by (simp add: softClose_Ret)
  define h1 where "h1 = h\<lparr>hs_client := (hs_client h)\<lparr>wrapper := n\<rparr>, client_at := CReady\<rparr>"
  have 1: "?S h h1" unfolding h1_def by (rule hs_client_main) (use cm_soft [OF n] assms(3) in simp)
  from closed_sender_can_end [OF handshake_invs(8) [OF assms(1,2)] assms(4,5) n, of CA] obtain a' where
    a': "(\<lambda>s t. goroutine_step CA s t \<and> out t = out s)\<^sup>*\<^sup>* (hs_client h1) a'" "sender a' = SExit" "sent a' = []"
    using assms(6) by (auto simp: h1_def)
  from a'(1) have 2: "?S\<^sup>*\<^sup>* h1 (h1\<lparr>hs_client := a'\<rparr>)"
  proof (induction rule: rtranclp_induct)
    case (step u v)
    from step(2) have "?S (h1\<lparr>hs_client := u\<rparr>) (h1\<lparr>hs_client := u\<rparr>\<lparr>hs_client := v\<rparr>)"
      by (intro client_parts) (simp_all add: h1_def)
    with step(3) show ?case by simp
  qed simp
  let ?h = "h1\<lparr>hs_client := a'\<rparr>"
  have ready: "client_at ?h = CReady" "muted (hs_client ?h)" using a' by (simp_all add: h1_def muted_def)
  have run: "?S\<^sup>*\<^sup>* h ?h" using 1 2 by (rule converse_rtranclp_into_rtranclp)
  have "sent (hs_client h'') = [] \<and> server_at h'' \<in> {SvSend, SvWait}" if "?S\<^sup>*\<^sup>* ?h h''" for h''
  proof -
    have "sent (hs_client h'') = []" using muted_stays [OF that ready(2,1)] by (simp add: muted_def)
    moreover have "reach (handshake_start name t0 tp name' t0' tp') ?S h''"
      using assms(2) run that by (meson reach_steps)
    ultimately show ?thesis using server_waits_for_sent [OF assms(1)] by blast
  qed
  with run ready(1) show ?thesis by blast
qed

theorem softClose_can_lose_keys_witness:
  "\<exists>h h'. demo_unsent = Some h
     \<and> (handshake_step (handshake_cfg 1) (handshake_cfg 1) demo_handshake_env)\<^sup>*\<^sup>* h h' \<and> client_at h' = CReady
     \<and> (\<forall>ek hk. server_at h' \<noteq> SvReady ek hk)"
proof (cases demo_unsent)
  case None
  with demo_unsent_eval show ?thesis by simp
next
  case (Some h)
  let ?C = "handshake_cfg 1"
  have r: "reach (handshake_start ''client'' 0 [] ''server'' 0 []) (handshake_step ?C ?C demo_handshake_env) h"
    using Some unfolding demo_unsent_def by (rule demo_handshake_reach)
  from demo_unsent_eval [unfolded Some option.case]
  have f: "client_at h = CSoft" "\<not> closed (wrapper (hs_client h))" "sender (hs_client h) = SStart \<or> sender (hs_client h) = SLoop"
    "sent (hs_client h) = []" by blast+
  from softClose_can_lose_keys [OF demo_handshake_fits r f] Some show ?thesis by fastforce
qed

end
