(* ===== verification/Nan0_Secure_Link.thy ===== *)
theory Nan0_Secure_Link
  imports Nan0_Stream Nan0_Handover
begin

text \<open>
  A connection after the handshake, from end to end: each end is the pair of a temporary and a secure
  wrapper of \<open>Nan0_Handover\<close>, and the connection is a stream of bytes as in \<open>Nan0_Stream\<close>. What either
  wrapper of the first end writes goes on the wire; what arrives at the second end is there for
  whichever receiver reads first. When the temporary wrappers are done with the connection, the secure ones deliver as if they
  were alone on it.
\<close>

section \<open>Two ends with two wrappers each\<close>

type_synonym 'm two_wrappers = "'m conn_state \<times> 'm conn_state"

type_synonym 'm secure_link = "'m two_wrappers \<times> stream \<times> 'm two_wrappers"

inductive secure_link_step ::
    "('m, 'r) conn_cfg \<Rightarrow> ('m, 'r) conn_cfg \<Rightarrow> ('m, 'r) conn_cfg \<Rightarrow> ('m, 'r) conn_cfg \<Rightarrow>
     'm secure_link \<Rightarrow> 'm secure_link \<Rightarrow> bool"
  for CT :: "('m, 'r) conn_cfg" and CU :: "('m, 'r) conn_cfg" and CA :: "('m, 'r) conn_cfg" and CB :: "('m, 'r) conn_cfg" where
  sl_first: "handover_step CT CA (t, a) (t', a') \<Longrightarrow>
     secure_link_step CT CU CA CB ((t, a), c, e) ((t', a'), stream_write (written t t' @ written a a') c, e)"
| sl_second: "handover_step CU CB (u, b) (u', b') \<Longrightarrow> length (arrived b') \<le> length (arrived b) \<Longrightarrow>
     secure_link_step CT CU CA CB (e, c, (u, b)) (e, c, (u', b'))"
| sl_segment: "may_read c f \<Longrightarrow>
     secure_link_step CT CU CA CB (e, c, (u, b))
       (e, stream_read f c, (share (b\<lparr>arrived := arrived b @ [f]\<rparr>) u, b\<lparr>arrived := arrived b @ [f]\<rparr>))"

text \<open>A temporary wrapper that has nothing to send.\<close>

definition quiet :: "'m conn_state \<Rightarrow> bool" where
  "quiet t \<longleftrightarrow> send_q t = [] \<and> putting (sender t) = []"

text \<open>A harmless temporary wrapper with nothing to send writes nothing and stays so.\<close>

lemma quiet_step:
  assumes "own_step C t t'" and "harmless t" and "quiet t"
  shows "quiet t' \<and> written t t' = []"
  using assms(1)
proof (cases rule: own_step.cases)
  case o_reader
  then show ?thesis using assms(2,3) by cases (auto simp: harmless_def quiet_def written_def)
next
  case o_sender
  then show ?thesis using assms(3) by cases (auto simp: quiet_def written_def)
next
  case o_signaler
  then show ?thesis using assms(3) by cases (auto simp: quiet_def written_def)
next
  case o_idle
  then show ?thesis using assms(3) by cases (auto simp: quiet_def written_def)
qed

lemma quiet_share [simp]: "quiet (share s t) = quiet t" "written t (share s t) = []"
  by (simp_all add: quiet_def share_def written_def)

section \<open>The secure wrappers are a link\<close>

fun undisturbed :: "'m secure_link \<Rightarrow> bool" where
  "undisturbed ((t, a), c, (u, b)) \<longleftrightarrow>
     harmless t \<and> quiet t \<and> share t a = a \<and> harmless u \<and> share u b = b"

fun secure_part :: "'m secure_link \<Rightarrow> 'm tcp_link" where
  "secure_part ((t, a), c, (u, b)) = (a, c, b)"

lemma secure_link_is_link:
  assumes "secure_link_step CT CU CA CB x y" and "undisturbed x"
  shows "undisturbed y \<and> (secure_part y = secure_part x \<or> tcp_link_step CA CB (secure_part x) (secure_part y))"
  using assms(1)
proof (cases rule: secure_link_step.cases)
  case (sl_first t a t' a' c e)
  obtain u b where e: "e = (u, b)" by (cases e)
  from sl_first(3) show ?thesis
  proof (cases rule: handover_step.cases)
    case ho_temporary
    with assms(2) harmless_step [OF ho_temporary(2), of a] quiet_step [OF ho_temporary(2)] show ?thesis
      by (auto simp: sl_first(1,2) e written_def)
  next
    case ho_secure
    with assms(2) tl_first [OF ho_secure(2), of CB c b] show ?thesis
      by (auto simp: sl_first(1,2) e harmless_share)
  qed
next
  case (sl_second u b u' b' e c)
  obtain t a where e: "e = (t, a)" by (cases e)
  from sl_second(3) show ?thesis
  proof (cases rule: handover_step.cases)
    case ho_temporary
    with assms(2) harmless_step [OF ho_temporary(2), of b] show ?thesis by (auto simp: sl_second(1,2) e)
  next
    case ho_secure
    with assms(2) tl_second [OF ho_secure(2) sl_second(4), of CA a c] show ?thesis
      by (auto simp: sl_second(1,2) e harmless_share)
  qed
next
  case (sl_segment c f e u b)
  obtain t a where e: "e = (t, a)" by (cases e)
  with assms(2) tl_segment [OF sl_segment(3), of CA CB a b] show ?thesis
    by (auto simp: sl_segment(1,2) harmless_share)
qed

lemma secure_links_are_link:
  assumes "(secure_link_step CT CU CA CB)\<^sup>*\<^sup>* x y" and "undisturbed x"
  shows "undisturbed y \<and> (tcp_link_step CA CB)\<^sup>*\<^sup>* (secure_part x) (secure_part y)"
  using assms
proof (induction rule: rtranclp_induct)
  case (step y z)
  with secure_link_is_link [OF step(2)] show ?case by (auto intro: rtranclp.rtrancl_into_rtrancl)
qed simp

lemma link_steps_ends:
  "(link_step CA CB)\<^sup>*\<^sup>* x y \<Longrightarrow>
     (conn_step CA)\<^sup>*\<^sup>* (fst x) (fst y) \<and> (conn_step CB)\<^sup>*\<^sup>* (fst (snd x)) (fst (snd y))"
proof (induction rule: rtranclp_induct)
  case (step y z)
  from step(2) show ?case
  proof cases
    case (l_deliver a b f fl)
    with step(3) show ?thesis by (auto intro: rtranclp.rtrancl_into_rtrancl c_net n_arrive)
  qed (use step(3) in \<open>auto intro: rtranclp.rtrancl_into_rtrancl\<close>)
qed simp

text \<open>The channels' invariants are the secure wrapper's own: the temporary one does not touch them.\<close>

lemma channels_share [simp]:
  "send_inv C (share t s) = send_inv C s" "recv_inv C (share t s) = recv_inv C s"
  by (simp_all add: send_inv_def recv_inv_def share_def)

interpretation handover_channels: machine_invariant "handover_start CT name t0 tp tp'" "handover_step CT CS"
    "\<lambda>(t, s). send_inv CS s \<and> recv_inv CS s"
  for CT name t0 tp tp' CS
proof unfold_locales
  fix h :: "'a conn_state \<times> 'a conn_state"
  assume "handover_start CT name t0 tp tp' h"
  then show "case h of (t, s) \<Rightarrow> send_inv CS s \<and> recv_inv CS s"
    by (auto simp: handover_start_def) (auto simp: send_inv_def recv_inv_def wrapped_def)
next
  fix h h' :: "'a conn_state \<times> 'a conn_state"
  assume "handover_step CT CS h h'" and "case h of (t, s) \<Rightarrow> send_inv CS s \<and> recv_inv CS s"
  then show "case h' of (t, s) \<Rightarrow> send_inv CS s \<and> recv_inv CS s"
    by cases (auto intro: send_inv_step recv_inv_step)
qed

text \<open>
  C20. The secure session delivers once the handover is over and where TCP keeps frames apart. Both ends
  of a connection have handed it over from a temporary to a secure wrapper. Take states of the two ends
  in which the receivers of the temporary wrappers have left their loops and the read deadlines have
  been forced (before that they may read or cut off what is meant for the secure ones), the first
  end's temporary wrapper has nothing to send, and the secure wrappers have exchanged nothing yet.
  From there take any reachable state, whatever the wrappers' goroutines still do, in which every
  \<^verbatim>\<open>Read\<close> of the second end has returned exactly one frame (TCP does not promise it), the first secure
  wrapper's sender has not failed or run out of random bytes, what it has sent fits into one buffer
  (4017 marshalled bytes), and the second has no routes. In such a state the values put in the first
  secure wrapper's sender channel are, in order and each once, the messages that the second one's user
  has taken, those in its channel, the one being delivered, those under way, the one being sent, and
  those waiting to be sent.
\<close>

theorem secure_link_delivers_in_order:
  assumes "ends_agree CA CB ba bb" and "\<And>m. unrouted CB m"
    and "reach (handover_start CT name t0 tp tpa) (handover_step CT CA) (t, a)"
    and "reach (handover_start CU name' t0' tp' tpb) (handover_step CU CB) (u, b)"
    and "harmless t" and "quiet t" and "harmless u"
    and "sent a = []" and "got b = []" and "arrived b = []"
    and "(secure_link_step CT CU CA CB)\<^sup>*\<^sup>* ((t, a), no_bytes, (u, b)) ((t', a'), c, (u', b'))"
    and "kept_apart c" and "sending_well CA bb a'"
  shows "\<exists>ms. queued a' = map Some (taken b' @ recv_q b' @ delivering (reader b') @ ms) @ putting (sender a') @ send_q a'
    \<and> length ms = length (arrived b') + length (coming c)"
proof -
  have "undisturbed ((t, a), no_bytes, (u, b))"
    using handover_machine.reach_inv [OF assms(3)] handover_machine.reach_inv [OF assms(4)] assms(5-7) by simp
  with secure_links_are_link [OF assms(11)] have "(tcp_link_step CA CB)\<^sup>*\<^sup>* (a, no_bytes, b) (a', c, b')" by simp
  from tcp_links_are_link [OF this] assms(12)
  have run: "(link_step CA CB)\<^sup>*\<^sup>* (a, b, []) (a', b', coming c)" by simp
  have "link_inv CA CB bb (a, b, [])" using assms(8-10) by simp
  then have inv: "link_inv CA CB bb (a', b', coming c)"
    using link_machine.steps_inv [OF run, of ba bb] assms(1) by blast
  note ends = link_steps_ends [OF run, simplified]
  have send: "send_inv CA a'"
    using conn_send.steps_inv [of CA a a'] ends handover_channels.reach_inv [OF assms(3)] by simp
  have recv: "recv_inv CB b'"
    using conn_recv.steps_inv [of CB b b'] ends handover_channels.reach_inv [OF assms(4)] by simp
  from link_accounting [OF inv assms(13) send] obtain ms where
    "queued a' = map Some (got b' @ ms) @ putting (sender a') @ send_q a'" "length ms = length (arrived b') + length (coming c)" .
  with unrouted_received [OF recv assms(2)] show ?thesis by (intro exI [of _ ms]) simp
qed

section \<open>A run\<close>

datatype 'm secure_link_action = AtFirst "'m handover_action" | AtSecond "'m handover_action" | ToSecond nat

fun secure_link_exec ::
    "('m, 'r) conn_cfg \<Rightarrow> ('m, 'r) conn_cfg \<Rightarrow> ('m, 'r) conn_cfg \<Rightarrow> ('m, 'r) conn_cfg \<Rightarrow>
     'm secure_link_action \<Rightarrow> 'm secure_link \<Rightarrow> 'm secure_link option" where
  "secure_link_exec CT CU CA CB (AtFirst x) ((t, a), c, e) =
     map_option (\<lambda>(t', a'). ((t', a'), stream_write (written t t' @ written a a') c, e)) (handover_exec CT CA x (t, a))"
| "secure_link_exec CT CU CA CB (AtSecond x) (e, c, (u, b)) =
     (case handover_exec CU CB x (u, b) of
        None \<Rightarrow> None
      | Some (u', b') \<Rightarrow> if length (arrived b') \<le> length (arrived b) then Some (e, c, (u', b')) else None)"
| "secure_link_exec CT CU CA CB (ToSecond n) (e, c, (u, b)) =
     (let f = cut_segment n c; b' = b\<lparr>arrived := arrived b @ [f]\<rparr> in
      if may_read_exec c f then Some (e, stream_read f c, (share b' u, b')) else None)"

fun secure_link_run ::
    "('m, 'r) conn_cfg \<Rightarrow> ('m, 'r) conn_cfg \<Rightarrow> ('m, 'r) conn_cfg \<Rightarrow> ('m, 'r) conn_cfg \<Rightarrow>
     'm secure_link_action list \<Rightarrow> 'm secure_link \<Rightarrow> 'm secure_link option" where
  "secure_link_run CT CU CA CB [] x = Some x"
| "secure_link_run CT CU CA CB (y # ys) x =
     (case secure_link_exec CT CU CA CB y x of None \<Rightarrow> None | Some z \<Rightarrow> secure_link_run CT CU CA CB ys z)"

lemma secure_link_exec_sound: "secure_link_exec CT CU CA CB y x = Some z \<Longrightarrow> secure_link_step CT CU CA CB x z"
  by (induction CT CU CA CB y x rule: secure_link_exec.induct)
    (auto simp: Let_def simp del: handover_exec.simps split: option.splits if_splits
      intro: sl_first sl_segment sl_second [OF handover_exec_sound] handover_exec_sound may_read_exec)

lemma secure_link_run_steps:
  "secure_link_run CT CU CA CB ys x = Some z \<Longrightarrow> (secure_link_step CT CU CA CB)\<^sup>*\<^sup>* x z"
proof (induction ys arbitrary: x)
  case (Cons y ys)
  from Cons(2) obtain w where w: "secure_link_exec CT CU CA CB y x = Some w" "secure_link_run CT CU CA CB ys w = Some z"
    by (auto simp del: secure_link_exec.simps split: option.splits)
  from converse_rtranclp_into_rtranclp [OF secure_link_exec_sound [OF w(1)] Cons(1) [OF w(2)]] show ?case .
qed simp

text \<open>
  Both temporary wrappers have heard of their closing; the secure ones carry a message while the
  temporary goroutines end.
\<close>

definition demo_end :: "(raw_message conn_state \<times> raw_message conn_state) option" where
  "demo_end =
     Option.bind (begin_handover (demo_cfg None None) [ASender, AReader EOF] ''svc'' 0 [] (replicate 12 0))
       (handover_run (demo_cfg None None) (demo_cfg None None) [TSignaler, TSignaler, TReader])"

definition demo_secure :: "raw_message secure_link option" where
  "demo_secure =
     (case demo_end of
        None \<Rightarrow> None
      | Some e \<Rightarrow>
          secure_link_run (demo_cfg None None) (demo_cfg None None) (demo_cfg None None) (demo_cfg None None)
            ([AtFirst (AtSecure ASender), AtFirst TSignaler, AtFirst (AtSecure (USend (Some (RawMessage CHR ''a'' ''b'' [5])))),
              AtFirst TReader, AtFirst (AtSecure ASender), AtFirst (AtSecure ASender), AtFirst TSender, ToSecond 16, AtSecond TReader]
             @ replicate 5 (AtSecond (AtSecure (AReader EOF))) @ [AtSecond (AtSecure URecv), AtSecond TSignaler])
            (e, no_bytes, e))"

lemma demo_secure_eval:
  "case demo_end of None \<Rightarrow> False | Some (t, a) \<Rightarrow>
     closed (wrapper t) \<and> reader t = RExit \<and> signaler (wrapper t) = SigWriter \<and> send_q t = [] \<and> sender t = SLoop
     \<and> sent a = [] \<and> got a = [] \<and> arrived a = []"
  "case demo_secure of None \<Rightarrow> False | Some ((t, a), c, (u, b)) \<Rightarrow>
     queued a = [Some (RawMessage CHR ''a'' ''b'' [5])] \<and> sent a = queued a \<and> sender a = SLoop \<and> send_q a = []
     \<and> tape a = replicate 12 0 \<and> recv_q b = [] \<and> length (taken b) = 1 \<and> sender t = SExit
     \<and> wire_segs c = wire_frames c"
  unfolding demo_secure_def demo_end_def by code_simp+

theorem secure_link_delivers_in_order_witness:
  "\<exists>t a c u b. demo_secure = Some ((t, a), c, (u, b)) \<and> taken b = [RawMessage CHR ''a'' ''b'' [5]]"
proof -
  let ?C = "demo_cfg None None" and ?bb = "one_type_builder (RawMessage CHR ''a'' ''b'' [])" and ?m = "RawMessage CHR ''a'' ''b'' [5]"
  from demo_secure_eval obtain t a t' a' c u' b' where e: "demo_end = Some (t, a)"
    and s: "demo_secure = Some ((t', a'), c, (u', b'))" by (cases demo_end; cases demo_secure) auto
  from e obtain h where h: "begin_handover ?C [ASender, AReader EOF] ''svc'' 0 [] (replicate 12 0) = Some h"
    "handover_run ?C ?C [TSignaler, TSignaler, TReader] h = Some (t, a)"
    unfolding demo_end_def by (auto simp: bind_eq_Some_conv simp del: handover_run.simps)
  have r: "reach (handover_start ?C ''svc'' 0 [] (replicate 12 0)) (handover_step ?C ?C) (t, a)"
    by (rule reach_steps [OF begin_handover_start [OF h(1)] handover_run_steps [OF h(2)]])
  have run: "(secure_link_step ?C ?C ?C ?C)\<^sup>*\<^sup>* ((t, a), no_bytes, (t, a)) ((t', a'), c, (u', b'))"
    using s unfolding demo_secure_def e option.case by (rule secure_link_run_steps)
  from demo_secure_eval(1) [unfolded e option.case prod.case]
  have start: "harmless t" "quiet t" "sent a = []" "got a = []" "arrived a = []"
    by (simp_all add: harmless_def quiet_def)
  from demo_secure_eval(2) [unfolded s option.case prod.case]
  have f: "queued a' = [Some ?m]" "sent a' = queued a'" "sender a' = SLoop" "send_q a' = []" "tape a' = replicate 12 0"
    "recv_q b' = []" "length (taken b') = 1" "wire_segs c = wire_frames c" by blast+
  have agree: "ends_agree ?C ?C ?bb ?bb"
    using raw_api_laws one_type_builder_inv one_type_builder_sound by (simp add: ends_agree_def demo_cfg_def Let_def)
  have well: "sending_well ?C ?bb a'"
    using f one_type_builder_registered [of "RawMessage CHR ''a'' ''b'' []"]
    by (auto simp: sending_well_def sender_alive_def carried_def demo_cfg_def Let_def)
  have free: "unrouted ?C m" for m by (simp add: unrouted_def route_for_def demo_cfg_def Let_def)
  have apart: "kept_apart c" using f(8) by (simp add: kept_apart_def)
  obtain ms where "queued a' = map Some (taken b' @ recv_q b' @ delivering (reader b') @ ms) @ putting (sender a') @ send_q a'"
    using secure_link_delivers_in_order [OF agree free r r start(1,2,1,3,4,5) run apart well] by blast
  with f(1,3,4,6,7) have "taken b' = [?m]" by (cases "taken b'") auto
  with s show ?thesis by blast
qed

end
