(* ===== verification/Nan0_Ws_Claims.thy ===== *)
theory Nan0_Ws_Claims
  imports Nan0_Ws Nan0_Messaging
begin

text \<open>What the websocket wrapper guarantees, and where it differs from the TCP one.\<close>

section \<open>Messages\<close>

text \<open>
  C25. Round trip on a websocket. A registered message whose marshalled form is shorter than
  4 GiB is written as one binary frame, and a peer that knows its type and has no colliding
  names receives that message from the frame, without an error: there is no limit of one
  buffer as on TCP, and the spare capacity behind the frame's payload plays no part.
\<close>

theorem ws_roundtrip:
  assumes "proto_laws P"
    and "registry_inv P bs" and "inverseIdentMap bs (FullName P m) \<noteq> None"
    and "registry_sound P br" and "inverseIdentMap br (FullName P m) \<noteq> None"
    and "Marshal P (Some m) = Inr v" and "length v < 2 ^ 32" and "\<And>bs. WriteMessage bs = None"
  shows "\<exists>frame.
      putMessageInConnectionWs WriteMessage P 4 (Some m) (inverseIdentMap bs) frames = (None, frames @ [frame])
    \<and> getMessageFromConnectionWs P 4 (messageIdentMap br) (BinaryMessage, frame, spare, None) = (Some m, None)"
proof -
  let ?i = "ident_of (FullName P m)"
  obtain tb sb where f: "plain_frame P 4 (Some m) ?i = Ret (ProtoPreamble @ tb @ sb @ v)"
      and tb: "SizeWriter 4 ?i = Ret tb" and sb: "SizeWriter 4 (int (length v)) = Ret sb"
    using plain_frame_Ret [OF assms(6), of 4] by auto
  have put: "putMessageInConnectionWs WriteMessage P 4 (Some m) (inverseIdentMap bs) frames
      = (None, frames @ [ProtoPreamble @ tb @ sb @ v])"
    by (rule putMessageWs_frame [where inverseMap = "inverseIdentMap bs", OF _ f])
      (use registered_ident [OF assms(2,3)] assms(8) in simp_all)
  obtain t where t: "Clone P (ident_lookup (messageIdentMap br) ?i) = Some t" "FullName P t = FullName P m"
    using registered_lookup [OF assms(1,4,5)] by blast
  have "SizeReader tb = Ret ?i" "SizeReader sb = Ret (int (length v))"
    using SizeReader_SizeWriter [OF _ ident_of_range tb] SizeReader_SizeWriter [OF _ _ sb] assms(7)
    by (simp_all add: u32_range_def)
  with getMessageWs_frame [OF SizeWriter_length [OF tb] SizeWriter_length [OF sb], of ?i v P "messageIdentMap br" m spare]
    proto_lawsD(4) [OF assms(1,6) t(2)] t(1) put show ?thesis by auto
qed

theorem ws_roundtrip_witness:
  "\<exists>frame.
      putMessageInConnectionWs (\<lambda>bs. None) raw_api 4 (Some (RawMessage CHR ''a'' ''b'' (replicate 5000 1)))
        (inverseIdentMap (one_type_builder (RawMessage CHR ''a'' ''b'' []))) [] = (None, [frame])
    \<and> getMessageFromConnectionWs raw_api 4
        (messageIdentMap (one_type_builder (RawMessage CHR ''a'' ''b'' [])))
        (BinaryMessage, frame, [0, 0], None) = (Some (RawMessage CHR ''a'' ''b'' (replicate 5000 1)), None)"
proof -
  let ?r = "inverseIdentMap (one_type_builder (RawMessage CHR ''a'' ''b'' []))"
  have "?r (FullName raw_api (RawMessage CHR ''a'' ''b'' (replicate 5000 1))) \<noteq> None"
    using one_type_builder_registered [of "RawMessage CHR ''a'' ''b'' []"] by simp
  from ws_roundtrip [OF raw_api_laws one_type_builder_inv this one_type_builder_sound this,
      of "replicate 5000 1" "\<lambda>bs. None" "[]" "[0, 0]"]
  show ?thesis by simp
qed

lemma getMessageWs_message:
  assumes "getMessageFromConnectionWs P w identMap (t, buffer, spare, err) = (Some m, e)"
  shows "t = BinaryMessage \<and> err = None \<and> e = None \<and>
    (\<exists>tb sb v i. buffer = ProtoPreamble @ tb @ sb @ v \<and> length tb = w \<and> length sb = w
      \<and> SizeReader tb = Ret i \<and> SizeReader sb = Ret (int (length v))
      \<and> Unmarshal P v (Clone P (ident_lookup identMap i)) = Ret (Inr (Some m)))"
proof -
  have "getMessageWs_body P w identMap (t, buffer, spare, err) = Ret (Some m, e)"
  proof (cases "getMessageWs_body P w identMap (t, buffer, spare, err)")
    case (Panic p)
    with assms show ?thesis by (cases p) (simp_all add: getMessageFromConnectionWs_def)
  qed (use assms in \<open>simp add: getMessageFromConnectionWs_def\<close>)
  from getMessageWs_Ret [OF this] show ?thesis by metis
qed

text \<open>
  C26. A message is received from a websocket only for a binary frame that was read without an
  error and is, from its first byte to its last, the preamble, the type field, the size field
  and a body of that size that unmarshals to the message. Trailing or missing bytes are refused.
\<close>

theorem ws_received_message_is_the_frame:
  assumes "getMessageFromConnectionWs P w identMap (t, buffer, spare, err) = (Some m, e)"
  shows "t = BinaryMessage \<and> err = None \<and> e = None \<and>
    (\<exists>tb sb v i. buffer = ProtoPreamble @ tb @ sb @ v \<and> length tb = w \<and> length sb = w
      \<and> SizeReader tb = Ret i \<and> SizeReader sb = Ret (int (length v))
      \<and> Unmarshal P v (Clone P (ident_lookup identMap i)) = Ret (Inr (Some m)))"
  by (rule getMessageWs_message [OF assms])

theorem ws_received_message_is_the_frame_witness:
  "\<exists>tb sb v i. ([1, 2, 3, 255, 3, 2, 1, 77, 37, 5, 202, 0, 0, 0, 1, 9] :: bytes) = ProtoPreamble @ tb @ sb @ v
     \<and> length tb = 4 \<and> length sb = 4 \<and> SizeReader tb = Ret i \<and> SizeReader sb = Ret (int (length v))
     \<and> Unmarshal raw_api v (Clone raw_api
         (ident_lookup (messageIdentMap (one_type_builder (RawMessage CHR ''a'' ''b'' []))) i))
       = Ret (Inr (Some (RawMessage CHR ''a'' ''b'' [9])))"
proof -
  have "getMessageFromConnectionWs raw_api 4 (messageIdentMap (one_type_builder (RawMessage CHR ''a'' ''b'' [])))
      (2, [1, 2, 3, 255, 3, 2, 1, 77, 37, 5, 202, 0, 0, 0, 1, 9], [], None)
      = (Some (RawMessage CHR ''a'' ''b'' [9]), None)" by code_simp
  from ws_received_message_is_the_frame [OF this] show ?thesis by blast
qed

lemma go_bind_Panic_iff: "go_bind m f = Panic p \<longleftrightarrow> m = Panic p \<or> (\<exists>x. m = Ret x \<and> f x = Panic p)"
  by (cases m) auto

lemma go_slice_length: "go_slice b spare lo hi = Ret bs \<Longrightarrow> length bs = hi - lo"
  by (auto simp: go_slice_def split: if_splits)

text \<open>A binary frame gives a message or an error, never neither.\<close>

lemma getMessageWs_binary:
  assumes "proto_laws P" and "4 \<le> w"
  shows "(\<exists>m. getMessageFromConnectionWs P w identMap (BinaryMessage, buffer, spare, err) = (Some m, None)) \<or>
    (\<exists>e. getMessageFromConnectionWs P w identMap (BinaryMessage, buffer, spare, err) = (None, Some e))"
proof -
  have size: "SizeReader b \<noteq> Panic p" if "length b = w" for b p
    using SizeReader_total [of b] that assms(2) by auto
  have unm: "(\<exists>e. p = PanicErr e)" if "Unmarshal P v mo = Panic p" for v mo p
    using that proto_lawsD(6) [OF assms(1), of v] proto_lawsD(7) [OF assms(1), of v]
    by (cases mo) (auto, metis go.distinct(1))
  have chk: "\<exists>e. p = PanicErr e" if "checked r = Panic p" for r :: "go_error + 'm option" and p
    using that by (cases r) auto
  have chkE: "\<exists>e. p = PanicErr e" if "checkError r = Panic p" for r p
    using that by (cases r) auto
  show ?thesis
  proof (cases "getMessageWs_body P w identMap (BinaryMessage, buffer, spare, err)")
    case (Ret r)
    then obtain v t m where r: "r = (m, None)" and u: "Unmarshal P v t = Ret (Inr m)"
      by (auto simp: getMessageWs_body_def Let_def go_bind_Ret_iff split: if_splits)
    have "\<exists>x. m = Some x"
    proof (cases t)
      case None
      with u proto_lawsD(6) [OF assms(1), of v] show ?thesis by auto
    next
      case (Some a)
      with u show ?thesis using proto_lawsD(5) [OF assms(1)] by blast
    qed
    with Ret r show ?thesis by (auto simp: getMessageFromConnectionWs_def)
  next
    case (Panic p)
    then have "\<exists>e. p = PanicErr e"
      by (auto simp: getMessageWs_body_def Let_def go_bind_Panic_iff size slice_panic_def go_slice_from_def
          dest!: go_slice_panic go_slice_length unm chk chkE split: if_splits)
    with Panic show ?thesis by (auto simp: getMessageFromConnectionWs_def)
  qed
qed

lemma getMessageWs_failed:
  "getMessageFromConnectionWs P w identMap (- 1, buffer, spare, err) = (None, None)"
  by (simp add: getMessageFromConnectionWs_def getMessageWs_body_def BinaryMessage_def CloseMessage_def)

text \<open>
  C37. What a websocket receive does with anything else. A close frame is an error; every other
  frame that is not binary gives neither a message nor an error, and so does every failed read
  (\<open>ReadMessage\<close> then reports the frame type -1): its error is dropped and the receiver goes on.
  A binary frame that failed to read, that is too short for its two fields, or whose type is not
  registered is an error.
\<close>

theorem ws_receive_refuses:
  assumes "proto_laws P" and "4 \<le> w"
  shows "getMessageFromConnectionWs P w identMap (CloseMessage, buffer, spare, err) = (None, Some client_closed_error)
    \<and> (t \<noteq> BinaryMessage \<and> t \<noteq> CloseMessage \<longrightarrow>
        getMessageFromConnectionWs P w identMap (t, buffer, spare, err) = (None, None))
    \<and> (err \<noteq> None \<or> length buffer < 7 + 2 * w \<or>
        (\<exists>i. SizeReader (take w (drop 7 buffer)) = Ret i \<and> ident_lookup identMap i = None) \<longrightarrow>
       (\<exists>e. getMessageFromConnectionWs P w identMap (BinaryMessage, buffer, spare, err) = (None, Some e)))"
proof (intro conjI impI)
  assume bad: "err \<noteq> None \<or> length buffer < 7 + 2 * w \<or>
        (\<exists>i. SizeReader (take w (drop 7 buffer)) = Ret i \<and> ident_lookup identMap i = None)"
  have False if "getMessageFromConnectionWs P w identMap (BinaryMessage, buffer, spare, err) = (Some m, None)" for m
  proof -
    have "getMessageWs_body P w identMap (BinaryMessage, buffer, spare, err) = Ret (Some m, None)"
    proof (cases "getMessageWs_body P w identMap (BinaryMessage, buffer, spare, err)")
      case (Panic p)
      with that show ?thesis by (cases p) (simp_all add: getMessageFromConnectionWs_def)
    qed (use that in \<open>simp add: getMessageFromConnectionWs_def\<close>)
    from getMessageWs_Ret [OF this] obtain tb sb v i where f: "err = None" "buffer = ProtoPreamble @ tb @ sb @ v"
      "length tb = w" "length sb = w" "SizeReader tb = Ret i"
      "Unmarshal P v (Clone P (ident_lookup identMap i)) = Ret (Inr (Some m))" by metis
    have "take w (drop 7 buffer) = tb" using f(2,3) by simp
    with bad f(1-5) have "ident_lookup identMap i = None" by auto
    with f(6) proto_lawsD(2,6) [OF assms(1)] show False by (metis go.distinct(1))
  qed
  with getMessageWs_binary [OF assms] show
    "\<exists>e. getMessageFromConnectionWs P w identMap (BinaryMessage, buffer, spare, err) = (None, Some e)" by blast
qed (auto simp: getMessageFromConnectionWs_def getMessageWs_body_def BinaryMessage_def CloseMessage_def)

theorem ws_receive_refuses_witness:
  "getMessageFromConnectionWs raw_api 4 Map.empty (- 1, [], [], Some (ErrNet 1)) = (None, None)
   \<and> (\<exists>e. getMessageFromConnectionWs raw_api 4 Map.empty (BinaryMessage, [1, 2, 3], replicate 509 0, None) = (None, Some e))"
  using ws_receive_refuses [OF raw_api_laws, of 4 Map.empty "[]" "[]" "Some (ErrNet 1)" "- 1"]
    ws_receive_refuses [OF raw_api_laws, of 4 Map.empty "[1, 2, 3]" "replicate 509 0" None "- 1"]
  by (simp add: BinaryMessage_def CloseMessage_def)

end
