(* ===== verification/Nan0_Ws_Conn.thy ===== *)
theory Nan0_Ws_Conn
  imports Nan0_Ws_Claims Nan0_Conn_Props
begin

text \<open>
  A websocket wrapper at work: the goroutines that \<open>wrapConnectionWs\<close> starts, as a step relation
  in the style of \<open>Nan0_Conn\<close>, with the same positions of the goroutines. The differences are the
  code's: one message of the library is one frame, the two methods stamp a copy of the wrapper,
  and a failed read is no error.

  The library's \<open>ReadMessage\<close> returns the next message, or a failure; a failure is permanent, as
  its documentation says (\<open>wc_broken\<close>), and may come with a part of a message. Asked again after a
  failure it may panic (\<open>wr_panic\<close>), which \<open>getMessageFromConnectionWs\<close> turns into an error.
\<close>

section \<open>State\<close>

record 'm ws_conn =
  wc_arrived :: "(int \<times> bytes) list"
  wc_broken :: bool
  wc_frames :: "bytes list"
  wc_wrapper :: ws_nan0
  wc_recv_q :: "'m list"
  wc_send_q :: "'m option list"
  wc_reader :: "'m reader_pc"
  wc_sender :: "'m sender_pc"
  wc_idle :: idle_pc
  wc_now :: int
  wc_got :: "'m list"
  wc_taken :: "'m list"
  wc_queued :: "'m option list"
  wc_sent :: "'m option list"

text \<open>The goroutines work with the builder's maps and flags and the wrapper's channels.\<close>

definition ws_cfg ::
    "'m proto_api \<Rightarrow> nat \<Rightarrow> ('r \<Rightarrow> 'm ExecutableRoute) \<Rightarrow>
     ('m, 'r) baseBuilder \<Rightarrow> ws_start \<Rightarrow> ('m, 'r) conn_cfg" where
  "ws_cfg P w execute bb st =
     \<lparr>cfg_api = P, cfg_width = w, cfg_rmap = routes bb, cfg_identMap = messageIdentMap bb,
      cfg_inverseMap = inverseIdentMap bb, cfg_writeDeadline = writeDeadlineActive bb,
      cfg_encKey = None, cfg_hmacKey = None, cfg_recvCap = ws_recvCap st, cfg_sendCap = ws_sendCap st,
      cfg_idle = ws_idleLimit st, cfg_execute = execute\<rparr>"

definition ws_running :: "ws_nan0 \<Rightarrow> int \<Rightarrow> 'm ws_conn" where
  "ws_running n t =
     \<lparr>wc_arrived = [], wc_broken = False, wc_frames = [], wc_wrapper = n, wc_recv_q = [], wc_send_q = [],
      wc_reader = RStart, wc_sender = SStart, wc_idle = IWatch, wc_now = t, wc_got = [], wc_taken = [],
      wc_queued = [], wc_sent = []\<rparr>"

section \<open>The receiver\<close>

inductive ws_ReadMessage :: "(int \<times> bytes) list \<times> bool \<Rightarrow> ws_read \<Rightarrow> (int \<times> bytes) list \<times> bool \<Rightarrow> bool" where
  rm_message: "ws_ReadMessage ((t, f) # q, False) (t, f, spare, None) (q, False)"
| rm_failed: "ws_ReadMessage (q, b) (- 1, [], [], Some e) (q, True)"
| rm_cut: "ws_ReadMessage ((t, f) # q, False) (t, part, spare, Some e) (q, True)"

definition ws_after_receive ::
    "('m, 'r) conn_cfg \<Rightarrow> 'm option \<times> go_error option \<Rightarrow> 'm reader_pc" where
  "ws_after_receive C r =
     (case r of
        (newMsg, Some e) \<Rightarrow> RExit
      | (None, None) \<Rightarrow> RLoop
      | (Some m, None) \<Rightarrow>
          (case route_for (cfg_rmap C) (getProtobufMessageName (cfg_api C) (Some m)) of
             Some exec \<Rightarrow> (case cfg_execute C exec m of (xs, p) \<Rightarrow> RExec xs p)
           | None \<Rightarrow> RDeliver m))"

inductive ws_put_sender :: "('m, 'r) conn_cfg \<Rightarrow> 'm option \<Rightarrow> 'm ws_conn \<Rightarrow> 'm ws_conn \<Rightarrow> bool"
  for C :: "('m, 'r) conn_cfg" and x :: "'m option" where
  wput_buffer: "length (wc_send_q s) < cfg_sendCap C \<Longrightarrow>
     ws_put_sender C x s (s\<lparr>wc_send_q := wc_send_q s @ [x], wc_queued := wc_queued s @ [x]\<rparr>)"
| wput_direct: "cfg_sendCap C = 0 \<Longrightarrow> wc_sender s = SLoop \<Longrightarrow>
     ws_put_sender C x s (s\<lparr>wc_sender := SPut x, wc_queued := wc_queued s @ [x]\<rparr>)"

inductive ws_reader_step :: "('m, 'r) conn_cfg \<Rightarrow> 'm ws_conn \<Rightarrow> 'm ws_conn \<Rightarrow> bool"
  for C :: "('m, 'r) conn_cfg" where
  wr_start: "wc_reader s = RStart \<Longrightarrow>
     ws_reader_step C s (s\<lparr>wc_reader := if Ws_IsClosed (wc_wrapper s) then RExit else RLoop\<rparr>)"
| wr_shutdown: "wc_reader s = RLoop \<Longrightarrow> 0 < ws_readerShutdown (wc_wrapper s) \<Longrightarrow>
     ws_reader_step C s (s\<lparr>wc_reader := RExit,
       wc_wrapper := (wc_wrapper s)\<lparr>ws_readerShutdown := ws_readerShutdown (wc_wrapper s) - 1\<rparr>\<rparr>)"
| wr_default: "wc_reader s = RLoop \<Longrightarrow> ws_readerShutdown (wc_wrapper s) = 0 \<Longrightarrow>
     ws_reader_step C s (s\<lparr>wc_reader := RArm\<rparr>)"
| wr_arm: "wc_reader s = RArm \<Longrightarrow>
     ws_reader_step C s (s\<lparr>wc_reader := if ws_connOpen (wc_wrapper s) then RRead else RExit\<rparr>)"
| wr_read: "wc_reader s = RRead \<Longrightarrow> ws_ReadMessage (wc_arrived s, wc_broken s) read (q, br) \<Longrightarrow>
     getMessageFromConnectionWs (cfg_api C) (cfg_width C) (cfg_identMap C) read = (newMsg, err) \<Longrightarrow>
     ws_reader_step C s (s\<lparr>wc_reader := ws_after_receive C (newMsg, err), wc_arrived := q, wc_broken := br,
       wc_got := wc_got s @ (case newMsg of None \<Rightarrow> [] | Some m \<Rightarrow> [m])\<rparr>)"
| wr_panic: "wc_reader s = RRead \<Longrightarrow> wc_broken s \<Longrightarrow> ws_reader_step C s (s\<lparr>wc_reader := RExit\<rparr>)"
| wr_exec: "wc_reader s = RExec (x # xs) p \<Longrightarrow> ws_put_sender C x s s' \<Longrightarrow>
     ws_reader_step C s (s'\<lparr>wc_reader := RExec xs p\<rparr>)"
| wr_exec_done: "wc_reader s = RExec [] p \<Longrightarrow>
     ws_reader_step C s (s\<lparr>wc_reader := if p = None then RStamp else RExit\<rparr>)"
| wr_deliver: "wc_reader s = RDeliver m \<Longrightarrow> length (wc_recv_q s) < cfg_recvCap C \<Longrightarrow>
     ws_reader_step C s (s\<lparr>wc_reader := RStamp, wc_recv_q := wc_recv_q s @ [m]\<rparr>)"
| wr_stamp: "wc_reader s = RStamp \<Longrightarrow> ws_reader_step C s (s\<lparr>wc_reader := RLoop\<rparr>)"
| wr_close: "wc_reader s = RExit \<Longrightarrow> Ws_Close (wc_wrapper s) = Ret n \<Longrightarrow>
     ws_reader_step C s (s\<lparr>wc_reader := RDone, wc_wrapper := n\<rparr>)"

section \<open>The sender\<close>

text \<open>One message: the write deadline, the type assertion, the send. A closed connection takes none.\<close>

definition ws_writer_ok :: "ws_nan0 \<Rightarrow> (bytes \<Rightarrow> go_error option) \<Rightarrow> bool" where
  "ws_writer_ok n WriteMessage \<longleftrightarrow> (\<not> ws_connOpen n \<longrightarrow> (\<forall>bs. WriteMessage bs \<noteq> None))"

definition ws_send_one ::
    "('m, 'r) conn_cfg \<Rightarrow> (bytes \<Rightarrow> go_error option) \<Rightarrow> ws_nan0 \<Rightarrow> 'm option \<Rightarrow> bytes list \<Rightarrow>
     go_error option \<times> bytes list" where
  "ws_send_one C WriteMessage n x frames =
     (if cfg_writeDeadline C \<and> \<not> ws_connOpen n then (Some closed_conn_error, frames)
      else case x of
        None \<Rightarrow> (Some (ErrRuntime ''interface conversion''), frames)
      | Some m \<Rightarrow> putMessageInConnectionWs WriteMessage (cfg_api C) (cfg_width C) (Some m) (cfg_inverseMap C) frames)"

inductive ws_sender_step :: "('m, 'r) conn_cfg \<Rightarrow> 'm ws_conn \<Rightarrow> 'm ws_conn \<Rightarrow> bool"
  for C :: "('m, 'r) conn_cfg" where
  wt_start: "wc_sender s = SStart \<Longrightarrow>
     ws_sender_step C s (s\<lparr>wc_sender := if Ws_IsClosed (wc_wrapper s) then SExit else SLoop\<rparr>)"
| wt_shutdown: "wc_sender s = SLoop \<Longrightarrow> 0 < ws_writerShutdown (wc_wrapper s) \<Longrightarrow>
     ws_sender_step C s (s\<lparr>wc_sender := SExit,
       wc_wrapper := (wc_wrapper s)\<lparr>ws_writerShutdown := ws_writerShutdown (wc_wrapper s) - 1\<rparr>\<rparr>)"
| wt_take: "wc_sender s = SLoop \<Longrightarrow> wc_send_q s = x # xs \<Longrightarrow>
     ws_sender_step C s (s\<lparr>wc_sender := SPut x, wc_send_q := xs\<rparr>)"
| wt_put: "wc_sender s = SPut x \<Longrightarrow> ws_writer_ok (wc_wrapper s) wm \<Longrightarrow>
     ws_send_one C wm (wc_wrapper s) x (wc_frames s) = (None, fs) \<Longrightarrow>
     ws_sender_step C s (s\<lparr>wc_sender := SLoop, wc_frames := fs, wc_sent := wc_sent s @ [x]\<rparr>)"
| wt_put_failed: "wc_sender s = SPut x \<Longrightarrow> ws_writer_ok (wc_wrapper s) wm \<Longrightarrow>
     ws_send_one C wm (wc_wrapper s) x (wc_frames s) = (Some e, fs) \<Longrightarrow>
     ws_sender_step C s (s\<lparr>wc_sender := SExit, wc_frames := fs\<rparr>)"
| wt_close: "wc_sender s = SExit \<Longrightarrow> Ws_Close (wc_wrapper s) = Ret n \<Longrightarrow>
     ws_sender_step C s (s\<lparr>wc_sender := SDone, wc_wrapper := n\<rparr>)"

section \<open>The closing goroutine, the idle watch, the user, the network\<close>

inductive ws_other_step :: "('m, 'r) conn_cfg \<Rightarrow> 'm ws_conn \<Rightarrow> 'm ws_conn \<Rightarrow> bool"
  for C :: "('m, 'r) conn_cfg" where
  wo_signals: "ws_signaler_iteration (wc_wrapper s) = Some n \<Longrightarrow> ws_other_step C s (s\<lparr>wc_wrapper := n\<rparr>)"
| wo_expired: "wc_idle s = IWatch \<Longrightarrow> \<not> wc_now s < Ws_LastComm (wc_wrapper s) + cfg_idle C \<Longrightarrow>
     ws_other_step C s (s\<lparr>wc_idle := IExit\<rparr>)"
| wo_close: "wc_idle s = IExit \<Longrightarrow> Ws_Close (wc_wrapper s) = Ret n \<Longrightarrow>
     ws_other_step C s (s\<lparr>wc_idle := IDone, wc_wrapper := n\<rparr>)"

inductive ws_user_step :: "('m, 'r) conn_cfg \<Rightarrow> 'm ws_conn \<Rightarrow> 'm ws_conn \<Rightarrow> bool"
  for C :: "('m, 'r) conn_cfg" where
  wu_recv: "wc_recv_q s = m # ms \<Longrightarrow>
     ws_user_step C s (s\<lparr>wc_recv_q := ms, wc_taken := wc_taken s @ [m]\<rparr>)"
| wu_recv_direct: "cfg_recvCap C = 0 \<Longrightarrow> wc_reader s = RDeliver m \<Longrightarrow>
     ws_user_step C s (s\<lparr>wc_reader := RStamp, wc_taken := wc_taken s @ [m]\<rparr>)"
| wu_send: "ws_put_sender C x s s' \<Longrightarrow> ws_user_step C s s'"
| wu_close: "Ws_Close (wc_wrapper s) = Ret n \<Longrightarrow> ws_user_step C s (s\<lparr>wc_wrapper := n\<rparr>)"

inductive ws_net_step :: "'m ws_conn \<Rightarrow> 'm ws_conn \<Rightarrow> bool" where
  wn_arrive: "ws_net_step s (s\<lparr>wc_arrived := wc_arrived s @ [f]\<rparr>)"
| wn_time: "0 \<le> d \<Longrightarrow> ws_net_step s (s\<lparr>wc_now := wc_now s + d\<rparr>)"

inductive ws_conn_step :: "('m, 'r) conn_cfg \<Rightarrow> 'm ws_conn \<Rightarrow> 'm ws_conn \<Rightarrow> bool"
  for C :: "('m, 'r) conn_cfg" where
  wc_reads: "ws_reader_step C s t \<Longrightarrow> ws_conn_step C s t"
| wc_sends: "ws_sender_step C s t \<Longrightarrow> ws_conn_step C s t"
| wc_others: "ws_other_step C s t \<Longrightarrow> ws_conn_step C s t"
| wc_uses: "ws_user_step C s t \<Longrightarrow> ws_conn_step C s t"
| wc_nets: "ws_net_step s t \<Longrightarrow> ws_conn_step C s t"

definition ws_conn_start :: "string \<Rightarrow> int \<Rightarrow> 'm ws_conn \<Rightarrow> bool" where
  "ws_conn_start name t0 s \<longleftrightarrow> s = ws_running (new_ws_nan0 name t0) t0"

end
