(* ===== verification/Nan0_Ws_Conn_Props.thy ===== *)
theory Nan0_Ws_Conn_Props
  imports Nan0_Ws_Conn
begin

text \<open>
  The websocket wrapper at work: invariants of \<open>ws_conn_step\<close>. \<open>ws_flags_inv\<close> is about the flags,
  the signals and the time of the last communication, \<open>ws_recv_inv\<close> and \<open>ws_send_inv\<close> account
  for every message that was received or queued, \<open>ws_wire_inv\<close> for every frame written.
\<close>

section \<open>Flags, signals, time\<close>

definition ws_wrapper_inv :: "int \<Rightarrow> ws_nan0 \<Rightarrow> bool" where
  "ws_wrapper_inv t0 n \<longleftrightarrow>
     Ws_LastComm n = t0 \<and>
     (ws_closed n \<longleftrightarrow> \<not> ws_connOpen n) \<and>
     (ws_signaler n = WsNotStarted \<longleftrightarrow> \<not> ws_closed n) \<and>
     (ws_signaler n \<in> {WsNotStarted, WsSigReader} \<longrightarrow> ws_readerShutdown n = 0) \<and>
     (ws_signaler n \<in> {WsNotStarted, WsSigReader, WsSigWriter} \<longrightarrow> ws_writerShutdown n = 0)"

definition ws_flags_inv :: "int \<Rightarrow> 'm ws_conn \<Rightarrow> bool" where
  "ws_flags_inv t0 s \<longleftrightarrow>
     ws_wrapper_inv t0 (wc_wrapper s) \<and>
     (wc_reader s = RDone \<or> wc_sender s = SDone \<or> wc_idle s = IDone \<longrightarrow> ws_closed (wc_wrapper s))"

lemma ws_wrapper_inv_signals:
  assumes "ws_wrapper_inv t0 n"
  shows "0 < ws_readerShutdown n \<Longrightarrow> ws_wrapper_inv t0 (n\<lparr>ws_readerShutdown := k\<rparr>)"
    and "0 < ws_writerShutdown n \<Longrightarrow> ws_wrapper_inv t0 (n\<lparr>ws_writerShutdown := k\<rparr>)"
    and "ws_signaler_iteration n = Some n' \<Longrightarrow> ws_wrapper_inv t0 n' \<and> ws_closed n' = ws_closed n"
    and "Ws_Close n = Ret n' \<Longrightarrow> ws_wrapper_inv t0 n' \<and> ws_closed n'"
proof -
  note d = Ws_LastComm_def ws_wrapper_inv_def
  from assms show "0 < ws_readerShutdown n \<Longrightarrow> ws_wrapper_inv t0 (n\<lparr>ws_readerShutdown := k\<rparr>)"
    by (cases "ws_signaler n") (auto simp: d)
  from assms show "0 < ws_writerShutdown n \<Longrightarrow> ws_wrapper_inv t0 (n\<lparr>ws_writerShutdown := k\<rparr>)"
    by (cases "ws_signaler n") (auto simp: d)
  from assms show "ws_signaler_iteration n = Some n' \<Longrightarrow> ws_wrapper_inv t0 n' \<and> ws_closed n' = ws_closed n"
    by (cases "ws_signaler n") (auto simp: ws_signaler_iteration_def d split: if_splits)
  from assms show "Ws_Close n = Ret n' \<Longrightarrow> ws_wrapper_inv t0 n' \<and> ws_closed n'"
    by (cases "ws_closed n") (auto simp: Ws_Close_Ret d)
qed

lemma ws_put_sender_cases:
  assumes "ws_put_sender C x s t"
  obtains "t = s\<lparr>wc_send_q := wc_send_q s @ [x], wc_queued := wc_queued s @ [x]\<rparr>"
      and "length (wc_send_q s) < cfg_sendCap C"
  | "t = s\<lparr>wc_sender := SPut x, wc_queued := wc_queued s @ [x]\<rparr>" and "cfg_sendCap C = 0" and "wc_sender s = SLoop"
  using assms by (cases rule: ws_put_sender.cases) auto

lemma ws_put_sender_rest:
  assumes "ws_put_sender C x s t"
  shows "wc_recv_q t = wc_recv_q s" and "wc_got t = wc_got s" and "wc_taken t = wc_taken s"
    and "wc_reader t = wc_reader s" and "wc_arrived t = wc_arrived s" and "wc_wrapper t = wc_wrapper s"
    and "wc_frames t = wc_frames s" and "wc_sent t = wc_sent s" and "wc_broken t = wc_broken s"
    and "wc_idle t = wc_idle s" and "sender_alive (wc_sender t) = sender_alive (wc_sender s)"
    and "wc_sender t = SDone \<longleftrightarrow> wc_sender s = SDone"
  using assms by (auto simp: sender_alive_def elim!: ws_put_sender_cases)

lemma ws_after_receive_not_done [simp]: "ws_after_receive C r \<noteq> RDone"
  by (auto simp: ws_after_receive_def split: prod.splits option.splits)

lemma ws_flags_inv_step: "ws_conn_step C s t \<Longrightarrow> ws_flags_inv t0 s \<Longrightarrow> ws_flags_inv t0 t"
proof (induction rule: ws_conn_step.induct)
  case (wc_reads s t)
  then show ?case
    by cases (auto simp: ws_flags_inv_def ws_put_sender_rest dest: ws_wrapper_inv_signals(1,4))
next
  case (wc_sends s t)
  then show ?case
    by cases (auto simp: ws_flags_inv_def dest: ws_wrapper_inv_signals(2,4))
next
  case (wc_others s t)
  then show ?case by cases (auto simp: ws_flags_inv_def dest: ws_wrapper_inv_signals(3,4))
next
  case (wc_uses s t)
  then show ?case by cases (auto simp: ws_flags_inv_def ws_put_sender_rest dest: ws_wrapper_inv_signals(4))
next
  case (wc_nets s t)
  then show ?case by cases (auto simp: ws_flags_inv_def)
qed

interpretation ws_flags: machine_invariant "ws_conn_start name t0" "ws_conn_step C" "ws_flags_inv t0"
  for name t0 C
  by unfold_locales (simp add: ws_conn_start_def ws_running_def ws_flags_inv_def ws_wrapper_inv_def
      new_ws_nan0_def Ws_LastComm_def, rule ws_flags_inv_step)

section \<open>The channels\<close>

definition ws_recv_inv :: "('m, 'r) conn_cfg \<Rightarrow> 'm ws_conn \<Rightarrow> bool" where
  "ws_recv_inv C s \<longleftrightarrow>
     length (wc_recv_q s) \<le> cfg_recvCap C \<and>
     filter (unrouted C) (wc_got s) = wc_taken s @ wc_recv_q s @ delivering (wc_reader s)"

definition ws_send_inv :: "('m, 'r) conn_cfg \<Rightarrow> 'm ws_conn \<Rightarrow> bool" where
  "ws_send_inv C s \<longleftrightarrow>
     length (wc_send_q s) \<le> cfg_sendCap C \<and>
     (\<exists>mid. wc_queued s = wc_sent s @ mid @ wc_send_q s \<and> length mid \<le> 1 \<and>
        (sender_alive (wc_sender s) \<longrightarrow> mid = putting (wc_sender s)))"

text \<open>A receive gives a message or an error, not both.\<close>

lemma getMessageWs_not_both:
  assumes "getMessageFromConnectionWs P w im read = (Some m, e)" shows "e = None"
proof -
  obtain t buffer spare err where "read = (t, buffer, spare, err)" by (metis prod.exhaust_sel)
  with getMessageWs_message [of P w im t buffer spare err m e] assms show ?thesis by simp
qed

lemma ws_after_receive_delivering:
  assumes "getMessageFromConnectionWs P w im read = (mo, err)"
  shows "delivering (ws_after_receive C (mo, err)) = filter (unrouted C) (case mo of None \<Rightarrow> [] | Some m \<Rightarrow> [m])"
  using getMessageWs_not_both [of P w im read _ err] assms
  by (cases mo; cases err) (auto simp: ws_after_receive_def unrouted_def split: option.splits prod.splits)

lemma ws_recv_inv_step: "ws_conn_step C s t \<Longrightarrow> ws_recv_inv C s \<Longrightarrow> ws_recv_inv C t"
proof (induction rule: ws_conn_step.induct)
  case (wc_reads s t)
  then show ?case
    by cases (auto simp: ws_recv_inv_def ws_put_sender_rest ws_after_receive_delivering)
next
  case (wc_sends s t)
  then show ?case by cases (auto simp: ws_recv_inv_def)
next
  case (wc_others s t)
  then show ?case by cases (auto simp: ws_recv_inv_def)
next
  case (wc_uses s t)
  then show ?case by cases (auto simp: ws_recv_inv_def ws_put_sender_rest)
next
  case (wc_nets s t)
  then show ?case by cases (auto simp: ws_recv_inv_def)
qed

lemma ws_send_inv_put: "ws_put_sender C x s t \<Longrightarrow> ws_send_inv C s \<Longrightarrow> ws_send_inv C t"
  by (erule ws_put_sender_cases) (auto simp: ws_send_inv_def sender_alive_def)

lemma ws_send_inv_step: "ws_conn_step C s t \<Longrightarrow> ws_send_inv C s \<Longrightarrow> ws_send_inv C t"
proof (induction rule: ws_conn_step.induct)
  case (wc_reads s t)
  then show ?case
  proof (cases rule: ws_reader_step.cases)
    case (wr_exec x xs p s')
    with wc_reads(2) ws_send_inv_put [of C x s s'] show ?thesis by (simp add: ws_send_inv_def)
  qed (auto simp: ws_send_inv_def)
next
  case (wc_sends s t)
  then show ?case by cases (auto simp: ws_send_inv_def sender_alive_def)
next
  case (wc_others s t)
  then show ?case by cases (auto simp: ws_send_inv_def)
next
  case (wc_uses s t)
  then show ?case
  proof (cases rule: ws_user_step.cases)
    case (wu_send x)
    with wc_uses(2) show ?thesis by (blast intro: ws_send_inv_put)
  qed (auto simp: ws_send_inv_def)
next
  case (wc_nets s t)
  then show ?case by cases (auto simp: ws_send_inv_def)
qed

interpretation ws_recv: machine_invariant "ws_conn_start name t0" "ws_conn_step C" "ws_recv_inv C"
  for name t0 C
  by unfold_locales (simp add: ws_conn_start_def ws_running_def ws_recv_inv_def, rule ws_recv_inv_step)

interpretation ws_send: machine_invariant "ws_conn_start name t0" "ws_conn_step C" "ws_send_inv C"
  for name t0 C
  by unfold_locales (simp add: ws_conn_start_def ws_running_def ws_send_inv_def, rule ws_send_inv_step)

section \<open>The frames\<close>

text \<open>The frame of a value that was sent.\<close>

definition ws_framed :: "('m, 'r) conn_cfg \<Rightarrow> 'm option \<Rightarrow> bytes \<Rightarrow> bool" where
  "ws_framed C x f \<longleftrightarrow>
     (\<exists>m i. x = Some m \<and> cfg_inverseMap C (getProtobufMessageName (cfg_api C) (Some m)) = Some i
        \<and> plain_frame (cfg_api C) (cfg_width C) (Some m) i = Ret f)"

definition ws_wire_inv :: "('m, 'r) conn_cfg \<Rightarrow> 'm ws_conn \<Rightarrow> bool" where
  "ws_wire_inv C s \<longleftrightarrow> list_all2 (ws_framed C) (wc_sent s) (wc_frames s)"

lemma putMessageWs_frames:
  assumes "putMessageInConnectionWs wm P w pb im fs = (r, fs')"
  shows "r \<noteq> None \<and> fs' = fs \<or>
    r = None \<and> (\<exists>i f. im (getProtobufMessageName P pb) = Some i \<and> plain_frame P w pb i = Ret f \<and> fs' = fs @ [f])"
proof (cases "im (getProtobufMessageName P pb)")
  case None
  with assms show ?thesis
    by (auto simp: putMessageInConnectionWs_def putMessageWs_body_def act_deferred_def ident_absent_error_def)
next
  case (Some i)
  show ?thesis
  proof (cases "plain_frame P w pb i")
    case (Panic p)
    with plain_frame_panic [OF Panic] Some assms show ?thesis
      by (auto simp: putMessageInConnectionWs_def putMessageWs_body_def act_deferred_def)
  next
    case (Ret f)
    with Some assms show ?thesis
      by (cases "wm f") (auto simp: putMessageInConnectionWs_def putMessageWs_body_def act_deferred_def dest: sym)
  qed
qed

lemma ws_send_one_frames:
  assumes "ws_send_one C wm n x fs = (r, fs')"
  shows "r \<noteq> None \<and> fs' = fs \<or> r = None \<and> (\<exists>f. ws_framed C x f \<and> fs' = fs @ [f])"
  using assms by (auto simp: ws_send_one_def ws_framed_def dest!: putMessageWs_frames split: if_splits option.splits)

lemma ws_sender_frames:
  assumes "ws_conn_step C s t"
  shows "wc_sent t = wc_sent s \<and> wc_frames t = wc_frames s \<or>
    (\<exists>x f. wc_sent t = wc_sent s @ [x] \<and> wc_frames t = wc_frames s @ [f] \<and> ws_framed C x f)"
  using assms
proof (cases rule: ws_conn_step.cases)
  case wc_reads
  then show ?thesis by cases (auto simp: ws_put_sender_rest)
next
  case wc_sends
  then show ?thesis by cases (auto dest: ws_send_one_frames)
next
  case wc_others
  then show ?thesis by cases auto
next
  case wc_uses
  then show ?thesis by cases (auto simp: ws_put_sender_rest)
next
  case wc_nets
  then show ?thesis by cases auto
qed

interpretation ws_wire: machine_invariant "ws_conn_start name t0" "ws_conn_step C" "ws_wire_inv C"
  for name t0 C
proof unfold_locales
  fix s t assume "ws_conn_step C s t" and "ws_wire_inv C s"
  with ws_sender_frames [of C s t] show "ws_wire_inv C t"
    by (auto simp: ws_wire_inv_def intro: list_all2_appendI)
qed (simp add: ws_conn_start_def ws_running_def ws_wire_inv_def)

end
