(* ===== verification/Nan0_Ws_Conn_Run.thy ===== *)
theory Nan0_Ws_Conn_Run
  imports Nan0_Ws_Conn_Props
begin

text \<open>
  Steps of a websocket wrapper as functions (\<open>ws_act_exec\<close>), sound for \<open>ws_conn_step\<close>, and what
  every reachable wrapper guarantees.
\<close>

section \<open>Executable steps\<close>

definition ws_put_sender_exec :: "('m, 'r) conn_cfg \<Rightarrow> 'm option \<Rightarrow> 'm ws_conn \<Rightarrow> 'm ws_conn option" where
  "ws_put_sender_exec C x s =
     (if length (wc_send_q s) < cfg_sendCap C
      then Some (s\<lparr>wc_send_q := wc_send_q s @ [x], wc_queued := wc_queued s @ [x]\<rparr>)
      else None)"

definition ws_close_exec :: "ws_nan0 \<Rightarrow> ws_nan0" where
  "ws_close_exec n = (case Ws_Close n of Ret n' \<Rightarrow> n' | Panic p \<Rightarrow> n)"

text \<open>What \<open>ReadMessage\<close> returns in these runs: the next message, or a failure.\<close>

definition ws_next_read :: "bool \<Rightarrow> 'm ws_conn \<Rightarrow> ws_read \<times> (int \<times> bytes) list \<times> bool" where
  "ws_next_read fails s =
     (case wc_arrived s of
        [] \<Rightarrow> ((- 1, [], [], Some (ErrNet 1)), [], True)
      | (t, f) # q \<Rightarrow>
          if fails \<or> wc_broken s then ((- 1, [], [], Some (ErrNet 1)), wc_arrived s, True)
          else ((t, f, [], None), q, False))"

fun ws_reader_exec :: "('m, 'r) conn_cfg \<Rightarrow> bool \<Rightarrow> 'm ws_conn \<Rightarrow> 'm ws_conn option" where
  "ws_reader_exec C fails s =
     (case wc_reader s of
        RStart \<Rightarrow> Some (s\<lparr>wc_reader := if Ws_IsClosed (wc_wrapper s) then RExit else RLoop\<rparr>)
      | RLoop \<Rightarrow> Some (if 0 < ws_readerShutdown (wc_wrapper s)
          then s\<lparr>wc_reader := RExit,
                 wc_wrapper := (wc_wrapper s)\<lparr>ws_readerShutdown := ws_readerShutdown (wc_wrapper s) - 1\<rparr>\<rparr>
          else s\<lparr>wc_reader := RArm\<rparr>)
      | RArm \<Rightarrow> Some (s\<lparr>wc_reader := if ws_connOpen (wc_wrapper s) then RRead else RExit\<rparr>)
      | RRead \<Rightarrow> (case ws_next_read fails s of (read, q, br) \<Rightarrow>
          (case getMessageFromConnectionWs (cfg_api C) (cfg_width C) (cfg_identMap C) read of (newMsg, err) \<Rightarrow>
             Some (s\<lparr>wc_reader := ws_after_receive C (newMsg, err), wc_arrived := q, wc_broken := br,
               wc_got := wc_got s @ (case newMsg of None \<Rightarrow> [] | Some m \<Rightarrow> [m])\<rparr>)))
      | RExec xs p \<Rightarrow>
          (case xs of
             [] \<Rightarrow> Some (s\<lparr>wc_reader := if p = None then RStamp else RExit\<rparr>)
           | x # ys \<Rightarrow> map_option (\<lambda>s'. s'\<lparr>wc_reader := RExec ys p\<rparr>) (ws_put_sender_exec C x s))
      | RDeliver m \<Rightarrow> if length (wc_recv_q s) < cfg_recvCap C
          then Some (s\<lparr>wc_reader := RStamp, wc_recv_q := wc_recv_q s @ [m]\<rparr>) else None
      | RStamp \<Rightarrow> Some (s\<lparr>wc_reader := RLoop\<rparr>)
      | RExit \<Rightarrow> Some (s\<lparr>wc_reader := RDone, wc_wrapper := ws_close_exec (wc_wrapper s)\<rparr>)
      | RDone \<Rightarrow> None)"

definition ws_exec_writer :: "ws_nan0 \<Rightarrow> bytes \<Rightarrow> go_error option" where
  "ws_exec_writer n bs = (if ws_connOpen n then None else Some closed_conn_error)"

fun ws_sender_exec :: "('m, 'r) conn_cfg \<Rightarrow> 'm ws_conn \<Rightarrow> 'm ws_conn option" where
  "ws_sender_exec C s =
     (case wc_sender s of
        SStart \<Rightarrow> Some (s\<lparr>wc_sender := if Ws_IsClosed (wc_wrapper s) then SExit else SLoop\<rparr>)
      | SLoop \<Rightarrow>
          if 0 < ws_writerShutdown (wc_wrapper s)
          then Some (s\<lparr>wc_sender := SExit,
                 wc_wrapper := (wc_wrapper s)\<lparr>ws_writerShutdown := ws_writerShutdown (wc_wrapper s) - 1\<rparr>\<rparr>)
          else (case wc_send_q s of [] \<Rightarrow> None | x # xs \<Rightarrow> Some (s\<lparr>wc_sender := SPut x, wc_send_q := xs\<rparr>))
      | SPut x \<Rightarrow>
          (case ws_send_one C (ws_exec_writer (wc_wrapper s)) (wc_wrapper s) x (wc_frames s) of
             (None, fs) \<Rightarrow> Some (s\<lparr>wc_sender := SLoop, wc_frames := fs, wc_sent := wc_sent s @ [x]\<rparr>)
           | (Some e, fs) \<Rightarrow> Some (s\<lparr>wc_sender := SExit, wc_frames := fs\<rparr>))
      | SExit \<Rightarrow> Some (s\<lparr>wc_sender := SDone, wc_wrapper := ws_close_exec (wc_wrapper s)\<rparr>)
      | SDone \<Rightarrow> None)"

datatype 'm ws_action = WReader bool | WSender | WSignals | WRecv | WSend "'m option" | WClose | WArrive int bytes

fun ws_act_exec :: "('m, 'r) conn_cfg \<Rightarrow> 'm ws_action \<Rightarrow> 'm ws_conn \<Rightarrow> 'm ws_conn option" where
  "ws_act_exec C (WReader fails) s = ws_reader_exec C fails s"
| "ws_act_exec C WSender s = ws_sender_exec C s"
| "ws_act_exec C WSignals s = map_option (\<lambda>n. s\<lparr>wc_wrapper := n\<rparr>) (ws_signaler_iteration (wc_wrapper s))"
| "ws_act_exec C WRecv s =
     (case wc_recv_q s of [] \<Rightarrow> None | m # ms \<Rightarrow> Some (s\<lparr>wc_recv_q := ms, wc_taken := wc_taken s @ [m]\<rparr>))"
| "ws_act_exec C (WSend x) s = ws_put_sender_exec C x s"
| "ws_act_exec C WClose s = Some (s\<lparr>wc_wrapper := ws_close_exec (wc_wrapper s)\<rparr>)"
| "ws_act_exec C (WArrive t f) s = Some (s\<lparr>wc_arrived := wc_arrived s @ [(t, f)]\<rparr>)"

fun ws_run :: "('m, 'r) conn_cfg \<Rightarrow> 'm ws_action list \<Rightarrow> 'm ws_conn \<Rightarrow> 'm ws_conn option" where
  "ws_run C [] s = Some s"
| "ws_run C (a # as) s = (case ws_act_exec C a s of None \<Rightarrow> None | Some t \<Rightarrow> ws_run C as t)"

section \<open>Soundness\<close>

lemma ws_close_exec_Ret: "Ws_Close n = Ret (ws_close_exec n)"
  by (simp add: ws_close_exec_def Ws_Close_Ret)

lemma ws_put_sender_exec_sound: "ws_put_sender_exec C x s = Some t \<Longrightarrow> ws_put_sender C x s t"
  by (auto simp: ws_put_sender_exec_def intro: wput_buffer split: if_splits)

lemma ws_exec_writer_ok: "ws_writer_ok n (ws_exec_writer n)"
  by (simp add: ws_writer_ok_def ws_exec_writer_def)

lemma ws_next_read_sound:
  "ws_next_read fails s = (read, q, br) \<Longrightarrow> ws_ReadMessage (wc_arrived s, wc_broken s) read (q, br)"
  by (auto simp: ws_next_read_def intro: ws_ReadMessage.intros split: list.splits prod.splits if_splits)

lemma ws_reader_exec_sound:
  assumes "ws_reader_exec C fails s = Some t" shows "ws_reader_step C s t"
proof (cases "wc_reader s")
  case RRead
  obtain read q br where r: "ws_next_read fails s = (read, q, br)" by (metis prod.exhaust_sel)
  obtain newMsg err where m:
    "getMessageFromConnectionWs (cfg_api C) (cfg_width C) (cfg_identMap C) read = (newMsg, err)"
    by (metis prod.exhaust_sel)
  from wr_read [OF RRead ws_next_read_sound [OF r] m] assms r m RRead show ?thesis by simp
next
  case (RExec xs p)
  with assms show ?thesis
    using wr_exec_done [of s p C] by (cases xs) (auto intro: wr_exec dest: ws_put_sender_exec_sound)
qed (use assms wr_start [of s C] wr_shutdown [of s C] wr_default [of s C] wr_arm [of s C]
       wr_deliver [of s _ C] wr_stamp [of s C] wr_close [OF _ ws_close_exec_Ret, of s C]
     in \<open>auto split: if_splits\<close>)

lemma ws_sender_exec_sound:
  assumes "ws_sender_exec C s = Some t" shows "ws_sender_step C s t"
proof (cases "wc_sender s")
  case (SPut x)
  obtain r fs where r: "ws_send_one C (ws_exec_writer (wc_wrapper s)) (wc_wrapper s) x (wc_frames s) = (r, fs)"
    by (metis prod.exhaust_sel)
  from wt_put [OF SPut ws_exec_writer_ok] wt_put_failed [OF SPut ws_exec_writer_ok] r assms SPut show ?thesis
    by (cases r) auto
qed (use assms wt_start [of s C] wt_shutdown [of s C] wt_take [of s _ _ C] wt_close [OF _ ws_close_exec_Ret, of s C]
     in \<open>auto split: if_splits list.splits\<close>)

lemma ws_act_exec_sound:
  assumes "ws_act_exec C a s = Some t" shows "ws_conn_step C s t"
proof (cases a)
  case (WReader fails)
  with assms show ?thesis by (auto intro: wc_reads ws_reader_exec_sound simp del: ws_reader_exec.simps)
next
  case WSender
  with assms show ?thesis by (auto intro: wc_sends ws_sender_exec_sound simp del: ws_sender_exec.simps)
next
  case WClose
  with assms wu_close [OF ws_close_exec_Ret, of C s] show ?thesis by (auto intro: wc_uses)
qed (use assms in \<open>auto intro: wc_uses wc_others wc_nets ws_user_step.intros ws_other_step.intros
       ws_net_step.intros dest: ws_put_sender_exec_sound split: list.splits\<close>)

lemma ws_run_sound: "ws_run C as s = Some t \<Longrightarrow> (ws_conn_step C)\<^sup>*\<^sup>* s t"
proof (induction as arbitrary: s)
  case (Cons a as)
  from Cons(2) obtain u where u: "ws_act_exec C a s = Some u" "ws_run C as u = Some t"
    by (auto simp del: ws_act_exec.simps split: option.splits)
  from converse_rtranclp_into_rtranclp [OF ws_act_exec_sound [OF u(1)] Cons(1) [OF u(2)]] show ?case .
qed simp

lemma ws_run_reach:
  assumes "ws_run C as (ws_running (new_ws_nan0 name t0) t0) = Some s"
  shows "reach (ws_conn_start name t0) (ws_conn_step C) s"
  by (rule reach_steps [OF reach_start ws_run_sound [OF assms]]) (simp add: ws_conn_start_def)

section \<open>What every wrapper guarantees\<close>

definition demo_ws_cfg :: "(raw_message, unit) conn_cfg" where
  "demo_ws_cfg =
     ws_cfg raw_api 4 (\<lambda>r m. ([], None)) (one_type_builder (RawMessage CHR ''a'' ''b'' []))
       \<lparr>ws_wrapper = new_ws_nan0 ''svc'' 0, ws_recvCap = 1, ws_sendCap = 1, ws_idleLimit = 300, ws_idleTicker = 300\<rparr>"

lemma one_type_builder_routes: "routes (one_type_builder m) = Map.empty"
  by (simp add: one_type_builder_def option_defs NewNanoBuilder_def initialize_def addSingleIdentity_def Let_def)

text \<open>
  C38. In every reachable state of a websocket wrapper \<open>LastComm\<close> is still the time at which it
  was made, whatever has been sent and received since: sender and receiver stamp a copy. So the
  idle watch closes a busy connection too. Moreover the wrapper is closed exactly when its
  connection is, it is closed when one of its goroutines has ended, and the goroutine that delivers
  its shutdown signals is not blocked.
\<close>

theorem ws_wrapper_life:
  assumes "reach (ws_conn_start name t0) (ws_conn_step C) s"
  shows "Ws_LastComm (wc_wrapper s) = t0
    \<and> (Ws_IsClosed (wc_wrapper s) \<longleftrightarrow> \<not> ws_connOpen (wc_wrapper s))
    \<and> (wc_reader s = RDone \<or> wc_sender s = SDone \<or> wc_idle s = IDone \<longrightarrow> Ws_IsClosed (wc_wrapper s))
    \<and> (Ws_IsClosed (wc_wrapper s) \<and> ws_signaler (wc_wrapper s) \<noteq> WsSigDone \<longrightarrow>
        ws_signaler_iteration (wc_wrapper s) \<noteq> None)"
  using ws_flags.reach_inv [OF assms]
  by (cases "ws_signaler (wc_wrapper s)")
    (auto simp: ws_flags_inv_def ws_wrapper_inv_def Ws_IsClosed_def ws_signaler_iteration_def)

definition demo_ws :: "raw_message ws_conn option" where
  "demo_ws =
     ws_run demo_ws_cfg
       ([WSender, WSend (Some (RawMessage CHR ''a'' ''b'' [5])), WSender, WSender, WArrive 8 [],
         WArrive 2 [1, 2, 3, 255, 3, 2, 1, 77, 37, 5, 202, 0, 0, 0, 1, 9]]
        @ replicate 5 (WReader False))
       (ws_running (new_ws_nan0 ''svc'' 7) 7)"

lemma demo_ws_eval:
  "case demo_ws of None \<Rightarrow> False | Some s \<Rightarrow>
     length (wc_frames s) = 1 \<and> wc_reader s = RDone \<and> ws_signaler (wc_wrapper s) = WsSigReader
     \<and> length (wc_arrived s) = 1"
  unfolding demo_ws_def by code_simp

theorem ws_wrapper_life_witness:
  "\<exists>s. demo_ws = Some s \<and> length (wc_frames s) = 1 \<and> Ws_LastComm (wc_wrapper s) = 7
     \<and> Ws_IsClosed (wc_wrapper s) \<and> \<not> ws_connOpen (wc_wrapper s) \<and> ws_signaler_iteration (wc_wrapper s) \<noteq> None"
proof (cases demo_ws)
  case None
  with demo_ws_eval show ?thesis by simp
next
  case (Some s)
  then have "reach (ws_conn_start ''svc'' 7) (ws_conn_step demo_ws_cfg) s"
    unfolding demo_ws_def by (rule ws_run_reach)
  from ws_wrapper_life [OF this] demo_ws_eval [unfolded Some option.case] Some show ?thesis
    by (intro exI [of _ s]) auto
qed

section \<open>After a failed read\<close>

definition polling :: "'m reader_pc \<Rightarrow> bool" where
  "polling pc \<longleftrightarrow> pc = RLoop \<or> pc = RArm \<or> pc = RRead"

lemma ws_broken_step:
  assumes "ws_conn_step C s t" and "wc_broken s"
  shows "wc_broken t \<and> wc_got t = wc_got s"
  using assms(1)
proof (cases rule: ws_conn_step.cases)
  case wc_reads
  then show ?thesis
  proof (cases rule: ws_reader_step.cases)
    case (wr_read read q br newMsg err)
    from wr_read(3) assms(2) wr_read(1,4) show ?thesis by cases (auto simp: getMessageWs_failed)
  qed (use assms(2) in \<open>auto simp: ws_put_sender_rest\<close>)
next
  case wc_sends
  then show ?thesis using assms(2) by cases auto
next
  case wc_others
  then show ?thesis using assms(2) by cases auto
next
  case wc_uses
  then show ?thesis using assms(2) by cases (auto simp: ws_put_sender_rest)
next
  case wc_nets
  then show ?thesis using assms(2) by cases auto
qed

text \<open>
  Steps in which the library's \<^verbatim>\<open>ReadMessage\<close> does not panic: a receiver leaves a read only by what
  the code makes of a result that \<^verbatim>\<open>ReadMessage\<close> returned.
\<close>

definition ws_read_returns :: "('m, 'r) conn_cfg \<Rightarrow> 'm ws_conn \<Rightarrow> 'm ws_conn \<Rightarrow> bool" where
  "ws_read_returns C s t \<longleftrightarrow>
     (\<exists>read q br. ws_ReadMessage (wc_arrived s, wc_broken s) read (q, br)
        \<and> wc_reader t = ws_after_receive C (getMessageFromConnectionWs (cfg_api C) (cfg_width C) (cfg_identMap C) read))"

definition ws_orderly_step :: "('m, 'r) conn_cfg \<Rightarrow> 'm ws_conn \<Rightarrow> 'm ws_conn \<Rightarrow> bool" where
  "ws_orderly_step C s t \<longleftrightarrow>
     ws_conn_step C s t \<and> (wc_reader s = RRead \<and> wc_reader t \<noteq> RRead \<longrightarrow> ws_read_returns C s t)"

lemma ws_orderly_conn: "(ws_orderly_step C)\<^sup>*\<^sup>* s t \<Longrightarrow> (ws_conn_step C)\<^sup>*\<^sup>* s t"
  by (erule mono_rtranclp [rule_format, rotated]) (simp add: ws_orderly_step_def)

lemma ws_act_exec_reads:
  assumes "ws_act_exec C a s = Some t" and "wc_reader s = RRead" and "wc_reader t \<noteq> RRead"
  shows "ws_read_returns C s t"
proof (cases a)
  case (WReader fails)
  obtain read q br where r: "ws_next_read fails s = (read, q, br)" by (metis prod.exhaust_sel)
  obtain newMsg err where m:
    "getMessageFromConnectionWs (cfg_api C) (cfg_width C) (cfg_identMap C) read = (newMsg, err)"
    by (metis prod.exhaust_sel)
  from assms(1,2) WReader r m have "wc_reader t = ws_after_receive C (newMsg, err)" by auto
  with ws_next_read_sound [OF r] m show ?thesis unfolding ws_read_returns_def by metis
next
  case WSender
  with assms(1) have "ws_sender_step C s t" by (auto intro: ws_sender_exec_sound simp del: ws_sender_exec.simps)
  then have "wc_reader t = wc_reader s" by cases auto
  with assms show ?thesis by simp
qed (use assms in \<open>auto simp: ws_put_sender_exec_def split: list.splits if_splits\<close>)

lemma ws_run_orderly: "ws_run C as s = Some t \<Longrightarrow> (ws_orderly_step C)\<^sup>*\<^sup>* s t"
proof (induction as arbitrary: s)
  case (Cons a as)
  from Cons(2) obtain u where u: "ws_act_exec C a s = Some u" "ws_run C as u = Some t"
    by (auto simp del: ws_act_exec.simps split: option.splits)
  have "ws_orderly_step C s u"
    using ws_act_exec_sound [OF u(1)] ws_act_exec_reads [OF u(1)] by (simp add: ws_orderly_step_def)
  from converse_rtranclp_into_rtranclp [OF this Cons(1) [OF u(2)]] show ?case .
qed simp

text \<open>A read that returns after a failure gives nothing, and the receiver goes round its loop.\<close>

lemma ws_broken_read:
  "ws_read_returns C s t \<Longrightarrow> wc_broken s \<Longrightarrow> wc_reader t = RLoop"
  unfolding ws_read_returns_def
  by (elim exE conjE ws_ReadMessage.cases) (auto simp: getMessageWs_failed ws_after_receive_def)

lemma ws_polling_step:
  assumes "ws_orderly_step C s t" and "ws_flags_inv t0 s" and "wc_broken s"
    and "ws_closed (wc_wrapper s) \<or> polling (wc_reader s)"
  shows "ws_closed (wc_wrapper t) \<or> polling (wc_reader t)"
proof (cases "wc_reader s = RRead \<and> wc_reader t \<noteq> RRead")
  case True
  with assms(1,3) ws_broken_read [of C s t] show ?thesis by (auto simp: ws_orderly_step_def polling_def)
next
  case False
  have inv: "ws_wrapper_inv t0 (wc_wrapper s)" using assms(2) by (simp add: ws_flags_inv_def)
  from assms(1) have "ws_conn_step C s t" by (simp add: ws_orderly_step_def)
  then show ?thesis
  proof (cases rule: ws_conn_step.cases)
    case wc_reads
    then show ?thesis
      using assms(4) False inv
      by cases (auto simp: ws_put_sender_rest polling_def ws_wrapper_inv_def Ws_Close_Ret split: if_splits)
  next
    case wc_sends
    then show ?thesis using assms(4) by cases (auto simp: Ws_Close_Ret)
  next
    case wc_others
    then show ?thesis
      using assms(2,4) by cases (auto simp: Ws_Close_Ret ws_flags_inv_def dest: ws_wrapper_inv_signals(3))
  next
    case wc_uses
    then show ?thesis using assms(4) by cases (auto simp: Ws_Close_Ret ws_put_sender_rest polling_def)
  next
    case wc_nets
    then show ?thesis using assms(4) by cases auto
  qed
qed

text \<open>And it can always go on: a poll of an open wrapper is never blocked.\<close>

lemma ws_polling_goes_on:
  assumes "ws_flags_inv t0 s" and "wc_broken s" and "polling (wc_reader s)" and "\<not> ws_closed (wc_wrapper s)"
  shows "\<exists>t. ws_orderly_step C s t \<and> polling (wc_reader t) \<and> wc_reader t \<noteq> wc_reader s \<and> \<not> ws_closed (wc_wrapper t)"
proof -
  have w: "ws_connOpen (wc_wrapper s)" "ws_readerShutdown (wc_wrapper s) = 0"
    using assms(1,4) by (auto simp: ws_flags_inv_def ws_wrapper_inv_def)
  from assms(3) consider "wc_reader s = RLoop" | "wc_reader s = RArm" | "wc_reader s = RRead"
    by (auto simp: polling_def)
  then show ?thesis
  proof cases
    case 1
    with wr_default [OF 1 w(2), of C] assms(4) show ?thesis
      by (intro exI [of _ "s\<lparr>wc_reader := RArm\<rparr>"]) (auto simp: ws_orderly_step_def polling_def intro: wc_reads)
  next
    case 2
    with wr_arm [OF 2, of C] w assms(4) show ?thesis
      by (intro exI [of _ "s\<lparr>wc_reader := RRead\<rparr>"]) (auto simp: ws_orderly_step_def polling_def intro: wc_reads)
  next
    case 3
    let ?t = "s\<lparr>wc_reader := RLoop, wc_arrived := wc_arrived s, wc_broken := True, wc_got := wc_got s @ []\<rparr>"
    have rm: "ws_ReadMessage (wc_arrived s, wc_broken s) (- 1, [], [], Some EOF) (wc_arrived s, True)"
      by (rule rm_failed)
    have "ws_reader_step C s ?t"
      using wr_read [OF 3 rm, of C None None] by (simp add: getMessageWs_failed ws_after_receive_def)
    moreover have "ws_read_returns C s ?t"
      using rm unfolding ws_read_returns_def
      by (intro exI [of _ "(- 1, [], [], Some EOF)"] exI [of _ "wc_arrived s"] exI [of _ True] conjI)
        (simp_all add: getMessageWs_failed ws_after_receive_def)
    ultimately show ?thesis
      using 3 assms(4) by (intro exI [of _ ?t]) (auto simp: ws_orderly_step_def polling_def intro: wc_reads)
  qed
qed

text \<open>
  C39. A failed read is final and is not reported. From a state in which a read of the websocket
  has failed (a deadline that passed is enough) the wrapper never receives a message again,
  whatever arrives. And as long as the library's \<^verbatim>\<open>ReadMessage\<close> does not itself panic, a receiver that
  was polling goes on polling, never leaving its loop and never blocked, a connection that can give it
  nothing, until the wrapper is closed; its own goroutine does not close it.
\<close>

theorem ws_failed_read_is_final:
  assumes "reach (ws_conn_start name t0) (ws_conn_step C) s" and "wc_broken s"
  shows "((ws_conn_step C)\<^sup>*\<^sup>* s t \<longrightarrow> wc_broken t \<and> wc_got t = wc_got s)
    \<and> ((ws_orderly_step C)\<^sup>*\<^sup>* s t \<and> polling (wc_reader s) \<longrightarrow>
        Ws_IsClosed (wc_wrapper t)
        \<or> polling (wc_reader t) \<and> (\<exists>u. ws_orderly_step C t u \<and> polling (wc_reader u) \<and> wc_reader u \<noteq> wc_reader t
             \<and> \<not> Ws_IsClosed (wc_wrapper u)))"
proof (intro conjI impI)
  have broken: "wc_broken t \<and> wc_got t = wc_got s" if "(ws_conn_step C)\<^sup>*\<^sup>* s t" for t
    using that assms(2) by (induction rule: rtranclp_induct) (auto dest: ws_broken_step)
  have flags: "ws_flags_inv t0 t" if "(ws_conn_step C)\<^sup>*\<^sup>* s t" for t
    by (rule ws_flags.reach_inv [OF reach_steps [OF assms(1) that]])
  show "wc_broken t" and "wc_got t = wc_got s" if "(ws_conn_step C)\<^sup>*\<^sup>* s t" using broken [OF that] by simp_all
  assume run: "(ws_orderly_step C)\<^sup>*\<^sup>* s t \<and> polling (wc_reader s)"
  then have "(ws_orderly_step C)\<^sup>*\<^sup>* s t" by simp
  then have "ws_closed (wc_wrapper t) \<or> polling (wc_reader t)"
  proof (induction rule: rtranclp_induct)
    case (step t u)
    from ws_orderly_conn [OF step(1)] have r: "(ws_conn_step C)\<^sup>*\<^sup>* s t" .
    from ws_polling_step [OF step(2) flags [OF r] _ step(3)] broken [OF r] show ?case by simp
  qed (use run in simp)
  then show "Ws_IsClosed (wc_wrapper t)
      \<or> polling (wc_reader t) \<and> (\<exists>u. ws_orderly_step C t u \<and> polling (wc_reader u) \<and> wc_reader u \<noteq> wc_reader t
           \<and> \<not> Ws_IsClosed (wc_wrapper u))"
    using ws_polling_goes_on [OF flags, of t C] broken [of t] ws_orderly_conn [of C s t] run
    unfolding Ws_IsClosed_def by blast
qed

definition demo_ws_broken :: "raw_message ws_conn option" where
  "demo_ws_broken =
     ws_run demo_ws_cfg ([WReader False, WReader False, WReader False, WReader True]) (ws_running (new_ws_nan0 ''svc'' 7) 7)"

definition demo_ws_deaf :: "raw_message ws_conn option" where
  "demo_ws_deaf =
     Option.bind demo_ws_broken (ws_run demo_ws_cfg
       ([WArrive 2 [1, 2, 3, 255, 3, 2, 1, 77, 37, 5, 202, 0, 0, 0, 1, 9]] @ replicate 5 (WReader False)))"

lemma demo_ws_deaf_eval:
  "case demo_ws_broken of None \<Rightarrow> False | Some s \<Rightarrow> wc_broken s \<and> wc_reader s = RLoop \<and> wc_got s = []"
  "case demo_ws_deaf of None \<Rightarrow> False | Some t \<Rightarrow>
     length (wc_arrived t) = 1 \<and> wc_reader t = RRead \<and> \<not> Ws_IsClosed (wc_wrapper t)"
  unfolding demo_ws_deaf_def demo_ws_broken_def by code_simp+

theorem ws_failed_read_is_final_witness:
  "\<exists>t u. demo_ws_deaf = Some t \<and> length (wc_arrived t) = 1 \<and> wc_got t = [] \<and> \<not> Ws_IsClosed (wc_wrapper t)
     \<and> ws_orderly_step demo_ws_cfg t u \<and> polling (wc_reader u) \<and> \<not> Ws_IsClosed (wc_wrapper u)"
proof -
  from demo_ws_deaf_eval obtain s t where s: "demo_ws_broken = Some s" and t: "demo_ws_deaf = Some t"
    by (cases demo_ws_broken; cases demo_ws_deaf) auto
  have r: "reach (ws_conn_start ''svc'' 7) (ws_conn_step demo_ws_cfg) s"
    using s unfolding demo_ws_broken_def by (rule ws_run_reach)
  have st: "(ws_orderly_step demo_ws_cfg)\<^sup>*\<^sup>* s t"
    using t unfolding demo_ws_deaf_def s Option.bind.simps by (rule ws_run_orderly)
  from demo_ws_deaf_eval(1) [unfolded s option.case] demo_ws_deaf_eval(2) [unfolded t option.case] have
    e: "wc_broken s" "wc_got s = []" "polling (wc_reader s)" "length (wc_arrived t) = 1" "\<not> Ws_IsClosed (wc_wrapper t)"
    by (auto simp: polling_def)
  from ws_failed_read_is_final [OF r e(1), of t] ws_orderly_conn [OF st] st e t show ?thesis by metis
qed

end
