(* ===== verification/Nan0_Ws_Link.thy ===== *)
theory Nan0_Ws_Link
  imports Nan0_Ws_Conn_Run
begin

text \<open>
  Two websocket wrappers at the ends of one connection, seen in one direction. The frames are the
  websocket library's: they arrive whole and in order, and may take any time.
\<close>

section \<open>The connection\<close>








section \<open>Delivery\<close>









section \<open>A run\<close>










end
