(* ===== verification/Nan0_Interface.thy ===== *)
theory Nan0_Interface
  imports Nan0_Server_Claims
begin

text \<open>
  \<open>NanoServiceWrapper\<close> of \<^verbatim>\<open>nan0Interfaces.go\<close>: a value of the interface is a TCP or a websocket
  wrapper, and a call goes to the method of its kind. The locale \<open>service_wrapper\<close> is the contract
  that the code around wrappers relies on; both kinds keep it, and so does any mixture.
\<close>

section \<open>The contract\<close>

locale service_wrapper = closer +
  fixes service_name :: "'a \<Rightarrow> string"
    and last_comm :: "'a \<Rightarrow> int"
    and equals :: "'a \<Rightarrow> 'a \<Rightarrow> bool"
  assumes close_keeps: "close x = Ret x' \<Longrightarrow> service_name x' = service_name x \<and> last_comm x' = last_comm x"
    and equals_iff: "equals x y \<longleftrightarrow> service_name x = service_name y"
begin

lemma equals_equiv: "equivp equals"
  by (intro equivpI reflpI sympI transpI) (auto simp: equals_iff)

lemma close_equals: "close x = Ret x' \<Longrightarrow> equals x' x"
  by (simp add: equals_iff close_keeps)

text \<open>Closing all wrappers of a list keeps every wrapper's identity.\<close>

lemma close_all_equals: "close_all close is_closed as h = Ret h' \<Longrightarrow> equals (h' a) (h a)"
proof (induction as arbitrary: h)
  case Nil
  then show ?case by (simp add: equals_iff)
next
  case (Cons b as)
  show ?case
  proof (cases "is_closed (h b)")
    case True
    with Cons show ?thesis by simp
  next
    case False
    with Cons(2) obtain x where x: "close (h b) = Ret x" "close_all close is_closed as (h(b := x)) = Ret h'"
      by (auto simp: go_bind_Ret_iff)
    from Cons(1) [OF x(2)] close_equals [OF x(1)] show ?thesis by (auto simp: equals_iff split: if_splits)
  qed
qed

end

interpretation nan0_wrapper: service_wrapper Close IsClosed GetServiceName LastComm nan0_Equals
  by unfold_locales
    (auto simp: Close_Ret GetServiceName_def LastComm_def nan0_Equals_def split: if_splits)

interpretation ws_wrapper: service_wrapper Ws_Close Ws_IsClosed Ws_GetServiceName Ws_LastComm Ws_Equals
  by unfold_locales
    (auto simp: Ws_Close_Ret Ws_GetServiceName_def Ws_LastComm_def Ws_Equals_def split: if_splits)

section \<open>Values of the interface\<close>

datatype NanoServiceWrapper = TcpWrapper nan0 | WsWrapper ws_nan0

fun Wrapper_Close :: "NanoServiceWrapper \<Rightarrow> NanoServiceWrapper go" where
  "Wrapper_Close (TcpWrapper n) = go_bind (Close n) (\<lambda>n. Ret (TcpWrapper n))"
| "Wrapper_Close (WsWrapper n) = go_bind (Ws_Close n) (\<lambda>n. Ret (WsWrapper n))"

fun Wrapper_softClose :: "NanoServiceWrapper \<Rightarrow> NanoServiceWrapper go" where
  "Wrapper_softClose (TcpWrapper n) = go_bind (softClose n) (\<lambda>n. Ret (TcpWrapper n))"
| "Wrapper_softClose (WsWrapper n) = go_bind (Ws_softClose n) (\<lambda>n. Ret (WsWrapper n))"

fun Wrapper_IsClosed :: "NanoServiceWrapper \<Rightarrow> bool" where
  "Wrapper_IsClosed (TcpWrapper n) = IsClosed n"
| "Wrapper_IsClosed (WsWrapper n) = Ws_IsClosed n"

fun Wrapper_LastComm :: "NanoServiceWrapper \<Rightarrow> int" where
  "Wrapper_LastComm (TcpWrapper n) = LastComm n"
| "Wrapper_LastComm (WsWrapper n) = Ws_LastComm n"

fun Wrapper_GetServiceName :: "NanoServiceWrapper \<Rightarrow> string" where
  "Wrapper_GetServiceName (TcpWrapper n) = GetServiceName n"
| "Wrapper_GetServiceName (WsWrapper n) = Ws_GetServiceName n"

text \<open>The argument of \<open>Equals\<close> is a wrapper of any kind.\<close>

fun Wrapper_Equals :: "NanoServiceWrapper \<Rightarrow> NanoServiceWrapper \<Rightarrow> bool" where
  "Wrapper_Equals (TcpWrapper n) other \<longleftrightarrow> GetServiceName n = Wrapper_GetServiceName other"
| "Wrapper_Equals (WsWrapper n) other \<longleftrightarrow> Ws_GetServiceName n = Wrapper_GetServiceName other"

interpretation any_wrapper:
  service_wrapper Wrapper_Close Wrapper_IsClosed Wrapper_GetServiceName Wrapper_LastComm Wrapper_Equals
proof unfold_locales
  fix x x' :: NanoServiceWrapper
  show "\<exists>x'. Wrapper_Close x = Ret x'" by (cases x) (simp_all add: Close_Ret Ws_Close_Ret)
  show "Wrapper_IsClosed x \<Longrightarrow> Wrapper_Close x = Ret x"
    by (cases x) (simp_all add: Close_Ret Ws_Close_Ret IsClosed_def Ws_IsClosed_def)
  assume "Wrapper_Close x = Ret x'"
  then show "Wrapper_IsClosed x'" and
    "Wrapper_GetServiceName x' = Wrapper_GetServiceName x \<and> Wrapper_LastComm x' = Wrapper_LastComm x"
    by (cases x; auto simp: Close_Ret Ws_Close_Ret IsClosed_def Ws_IsClosed_def GetServiceName_def LastComm_def
        Ws_GetServiceName_def Ws_LastComm_def split: if_splits)+
next
  fix x y
  show "Wrapper_Equals x y \<longleftrightarrow> Wrapper_GetServiceName x = Wrapper_GetServiceName y" by (cases x) simp_all
qed

text \<open>\<open>Equals\<close> of a wrapper of each kind, given a wrapper of its own kind, is the kind's method.\<close>

lemma Wrapper_Equals_same_kind:
  "Wrapper_Equals (TcpWrapper n) (TcpWrapper m) = nan0_Equals n m"
  "Wrapper_Equals (WsWrapper k) (WsWrapper l) = Ws_Equals k l"
  by (simp_all add: nan0_Equals_def Ws_Equals_def)

text \<open>
  C16. The contract of a wrapper, whatever its kind. \<open>Close\<close> returns, leaves the wrapper closed and
  keeps its name and the time of its last communication; on a closed wrapper it does nothing.
  \<open>Equals\<close> is an equivalence that looks at the service's name only: two connections of one service
  are equal even when one is TCP and the other a websocket, and a wrapper equals itself after
  closing. \<open>softClose\<close> panics exactly on websocket wrappers and otherwise keeps the contract too.
\<close>

theorem wrapper_contract:
  "(\<exists>x'. Wrapper_Close x = Ret x' \<and> Wrapper_IsClosed x' \<and> Wrapper_Equals x' x
      \<and> Wrapper_LastComm x' = Wrapper_LastComm x \<and> Wrapper_Close x' = Ret x')
   \<and> equivp Wrapper_Equals \<and> (Wrapper_Equals x y \<longleftrightarrow> Wrapper_GetServiceName x = Wrapper_GetServiceName y)
   \<and> (case Wrapper_softClose x of
        Panic p \<Rightarrow> (\<exists>n. x = WsWrapper n)
      | Ret x' \<Rightarrow> (\<exists>n. x = TcpWrapper n) \<and> Wrapper_IsClosed x' \<and> Wrapper_Equals x' x)"
proof (intro conjI)
  obtain x' where x': "Wrapper_Close x = Ret x'" using any_wrapper.close_total by blast
  then show "\<exists>x'. Wrapper_Close x = Ret x' \<and> Wrapper_IsClosed x' \<and> Wrapper_Equals x' x
      \<and> Wrapper_LastComm x' = Wrapper_LastComm x \<and> Wrapper_Close x' = Ret x'"
    using any_wrapper.close_closes any_wrapper.close_closed any_wrapper.close_keeps any_wrapper.close_equals by blast
  show "case Wrapper_softClose x of
     Panic p \<Rightarrow> (\<exists>n. x = WsWrapper n)
   | Ret x' \<Rightarrow> (\<exists>n. x = TcpWrapper n) \<and> Wrapper_IsClosed x' \<and> Wrapper_Equals x' x"
    by (cases x) (auto simp: softClose_Ret Ws_softClose_def IsClosed_def GetServiceName_def)
qed (rule any_wrapper.equals_equiv any_wrapper.equals_iff)+

end
