(* ===== verification/Nan0_Serving.thy ===== *)
theory Nan0_Serving
  imports Nan0_Interface
begin

text \<open>
  A server whose methods interleave: \<open>AddConnection\<close> and \<open>Shutdown\<close> of \<^verbatim>\<open>nan0Server.go\<close> in small
  steps, called by any number of goroutines, with new wrappers, the purge, the stream and the wrappers'
  own closing in between. One step is one locked section, one closing of a wrapper or, at the end of
  \<open>Shutdown\<close>, \<open>finish_shutdown\<close>; no lock is held across steps.
\<close>

section \<open>The machine\<close>

text \<open>Where a goroutine stands in \<open>AddConnection\<close>: past the test, or with the first list written.\<close>

datatype add_pc = AIdle | AFirst "nat option" | ASecond "nat option"

text \<open>
  Where a goroutine stands in \<open>Shutdown\<close>: closing the connections that \<open>GetAllConnections\<close>
  returned, about to clear the first list, the second, about to finish, returned, or panicking.
\<close>

datatype shutdown_pc = HIdle | HClosing "nat list" | HClear | HClearAll | HFinish | HDone | HPanicked

text \<open>\<open>present\<close> are the connections in the lists or once there; \<open>late\<close> those of them that were
  written after some goroutine had \<open>entered\<close> \<open>Shutdown\<close>.\<close>

record 'w serving =
  sv :: "'w nano_server"
  adders :: "nat \<Rightarrow> add_pc"
  shutters :: "nat \<Rightarrow> shutdown_pc"
  present :: "nat set"
  late :: "nat set"
  entered :: bool

definition put_element :: "nat option \<Rightarrow> 'w nano_server \<Rightarrow> 'w nano_server" where
  "put_element conn s =
     s\<lparr>connectionsList := writeConnListElement (nextElement s) conn (connectionsList s),
       nextElement := nextElement s + 1\<rparr>"

definition put_all_element :: "nat option \<Rightarrow> 'w nano_server \<Rightarrow> 'w nano_server" where
  "put_all_element conn s =
     s\<lparr>allConnectionsList := writeConnListElement (nextElement s) conn (allConnectionsList s),
       nextElement := nextElement s + 1\<rparr>"

text \<open>The calls that have begun, the purge, the stream, and the wrappers' own closing.\<close>

inductive working_step :: "('w \<Rightarrow> 'w go) \<Rightarrow> ('w \<Rightarrow> bool) \<Rightarrow> 'w serving \<Rightarrow> 'w serving \<Rightarrow> bool"
  for close :: "'w \<Rightarrow> 'w go" and is_closed :: "'w \<Rightarrow> bool" where
  a_first: "adders st i = AFirst conn \<Longrightarrow>
     working_step close is_closed st
       (st\<lparr>sv := put_element conn (sv st), adders := (adders st)(i := ASecond conn)\<rparr>)"
| a_second: "adders st i = ASecond conn \<Longrightarrow>
     working_step close is_closed st
       (st\<lparr>sv := put_all_element conn (sv st), adders := (adders st)(i := AIdle),
           present := present st \<union> set_option conn,
           late := if entered st then late st \<union> set_option conn else late st\<rparr>)"
| h_list: "shutters st i = HIdle \<Longrightarrow>
     working_step close is_closed st
       (st\<lparr>entered := True, shutters := (shutters st)(i := HClosing (GetAllConnections (sv st)))\<rparr>)"
| h_close: "shutters st i = HClosing (a # as) \<Longrightarrow>
     (if is_closed (heap (sv st) a) then x = heap (sv st) a else close (heap (sv st) a) = Ret x) \<Longrightarrow>
     working_step close is_closed st
       (st\<lparr>sv := (sv st)\<lparr>heap := (heap (sv st))(a := x)\<rparr>, shutters := (shutters st)(i := HClosing as)\<rparr>)"
| h_closed: "shutters st i = HClosing [] \<Longrightarrow>
     working_step close is_closed st (st\<lparr>shutters := (shutters st)(i := HClear)\<rparr>)"
| h_clear: "shutters st i = HClear \<Longrightarrow>
     working_step close is_closed st
       (st\<lparr>sv := (sv st)\<lparr>connectionsList := clearConnList (connectionsList (sv st))\<rparr>,
           shutters := (shutters st)(i := HClearAll)\<rparr>)"
| h_clear_all: "shutters st i = HClearAll \<Longrightarrow>
     working_step close is_closed st
       (st\<lparr>sv := (sv st)\<lparr>allConnectionsList := clearConnList (allConnectionsList (sv st))\<rparr>,
           shutters := (shutters st)(i := HFinish)\<rparr>)"
| h_finish: "shutters st i = HFinish \<Longrightarrow> finish_shutdown env (sv st) = (r, s') \<Longrightarrow>
     working_step close is_closed st
       (st\<lparr>sv := s', shutters := (shutters st)(i := case r of Ret u \<Rightarrow> HDone | Panic p \<Rightarrow> HPanicked)\<rparr>)"
| g_purge: "working_step close is_closed st
     (st\<lparr>sv := (sv st)\<lparr>allConnectionsList :=
        purgeClosedConnections is_closed (heap (sv st)) (allConnectionsList (sv st))\<rparr>\<rparr>)"
| g_stream: "stream_iteration (c, connectionsList (sv st)) = (v, c', cl) \<Longrightarrow>
     working_step close is_closed st (st\<lparr>sv := (sv st)\<lparr>connectionsList := cl\<rparr>\<rparr>)"
| g_closes: "close (heap (sv st) a) = Ret x \<Longrightarrow>
     working_step close is_closed st (st\<lparr>sv := (sv st)\<lparr>heap := (heap (sv st))(a := x)\<rparr>\<rparr>)"

text \<open>Besides, a goroutine calls \<open>AddConnection\<close> and passes its test, or a wrapper is made.\<close>

inductive serving_step :: "('w \<Rightarrow> 'w go) \<Rightarrow> ('w \<Rightarrow> bool) \<Rightarrow> 'w serving \<Rightarrow> 'w serving \<Rightarrow> bool"
  for close :: "'w \<Rightarrow> 'w go" and is_closed :: "'w \<Rightarrow> bool" where
  a_test: "adders st i = AIdle \<Longrightarrow> \<not> IsShutdown (sv st) \<Longrightarrow>
     serving_step close is_closed st (st\<lparr>adders := (adders st)(i := AFirst conn)\<rparr>)"
| g_new: "a \<notin> present st \<Longrightarrow>
     serving_step close is_closed st (st\<lparr>sv := (sv st)\<lparr>heap := (heap (sv st))(a := x)\<rparr>\<rparr>)"
| w_step: "working_step close is_closed st st' \<Longrightarrow> serving_step close is_closed st st'"

definition serving_start :: "'w serving \<Rightarrow> bool" where
  "serving_start st \<longleftrightarrow>
     connectionsList (sv st) = [] \<and> allConnectionsList (sv st) = [] \<and> \<not> IsShutdown (sv st)
     \<and> adders st = (\<lambda>i. AIdle) \<and> shutters st = (\<lambda>i. HIdle) \<and> present st = {} \<and> late st = {} \<and> \<not> entered st"

section \<open>The invariant\<close>

text \<open>What a goroutine in \<open>Shutdown\<close> knows of a connection that was there when it began.\<close>

fun settled :: "('w \<Rightarrow> bool) \<Rightarrow> 'w nano_server \<Rightarrow> nat \<Rightarrow> shutdown_pc \<Rightarrow> bool" where
  "settled is_closed s a HIdle \<longleftrightarrow> True"
| "settled is_closed s a (HClosing as) \<longleftrightarrow> is_closed (heap s a) \<or> a \<in> set as"
| "settled is_closed s a _ \<longleftrightarrow> is_closed (heap s a)"

definition serving_inv :: "('w \<Rightarrow> bool) \<Rightarrow> 'w serving \<Rightarrow> bool" where
  "serving_inv is_closed st \<longleftrightarrow>
     (\<forall>a \<in> present st - late st. (\<forall>i. settled is_closed (sv st) a (shutters st i)) \<and>
        (IsShutdown (sv st) \<longrightarrow> is_closed (heap (sv st) a)) \<and>
        (is_closed (heap (sv st) a) \<or> a \<in> set (values_of (allConnectionsList (sv st))))) \<and>
     (late st \<noteq> {} \<or> IsShutdown (sv st) \<or> (\<exists>i. shutters st i \<noteq> HIdle) \<longrightarrow> entered st) \<and>
     (\<forall>i. shutters st i = HDone \<longrightarrow> IsShutdown (sv st)) \<and>
     (\<forall>i j. shutters st i = HDone \<and> shutters st j = HDone \<longrightarrow> i = j)"

lemma finish_shutdown_keeps:
  assumes "finish_shutdown env s = (r, s')"
  shows "heap s' = heap s \<and> allConnectionsList s' = allConnectionsList s
    \<and> (case r of Ret u \<Rightarrow> srv_closed s' \<and> \<not> srv_closed s | Panic p \<Rightarrow> srv_closed s' = srv_closed s)"
  using assms
  by (auto simp: finish_shutdown_def act_bind_def act_lift_def split: option.splits if_splits prod.splits go.splits)

lemma serving_inv_entered: "serving_inv is_closed st \<Longrightarrow> shutters st i = pc \<Longrightarrow> pc \<noteq> HIdle \<Longrightarrow> entered st"
  by (auto simp: serving_inv_def)

lemma serving_invD:
  "serving_inv is_closed st \<Longrightarrow> a \<in> present st - late st \<Longrightarrow> shutters st i = pc \<Longrightarrow> settled is_closed (sv st) a pc"
  by (auto simp: serving_inv_def)

context closer
begin

lemma settled_closed: "is_closed (heap s a) \<Longrightarrow> settled is_closed s a pc"
  by (cases pc) simp_all

lemma settled_mono:
  "settled is_closed s a pc \<Longrightarrow> (is_closed (heap s a) \<Longrightarrow> is_closed (heap s' a)) \<Longrightarrow> settled is_closed s' a pc"
  by (cases pc) auto

text \<open>A step that leaves the goroutines alone, closes no list element's record and opens nothing.\<close>

lemma serving_inv_server:
  assumes "serving_inv is_closed st"
    and "\<And>a. is_closed (heap (sv st) a) \<Longrightarrow> is_closed (heap s' a)"
    and "IsShutdown s' = IsShutdown (sv st)"
    and "\<And>a. a \<in> set (values_of (allConnectionsList (sv st))) \<Longrightarrow>
      is_closed (heap s' a) \<or> a \<in> set (values_of (allConnectionsList s'))"
  shows "serving_inv is_closed (st\<lparr>sv := s'\<rparr>)"
  using assms settled_mono [of "sv st" _ _ s'] unfolding serving_inv_def by simp blast

text \<open>A step of one goroutine in \<open>Shutdown\<close> that leaves the server alone.\<close>

lemma serving_inv_shutter:
  assumes "serving_inv is_closed st" and "pc \<noteq> HIdle" and "pc \<noteq> HDone"
    and "\<And>a. a \<in> present st - late st \<Longrightarrow> settled is_closed (sv st) a pc"
    and "entered st"
  shows "serving_inv is_closed (st\<lparr>shutters := (shutters st)(i := pc)\<rparr>)"
  using assms unfolding serving_inv_def by simp blast

lemma working_inv_step:
  assumes "working_step close is_closed st st'" and inv: "serving_inv is_closed st"
  shows "serving_inv is_closed st'"
  using assms(1)
proof (cases rule: working_step.cases)
  case (a_second i conn)
  let ?s = "put_all_element conn (sv st)"
  have s: "heap ?s = heap (sv st)" "IsShutdown ?s = IsShutdown (sv st)"
    "set (values_of (allConnectionsList ?s)) = set (values_of (allConnectionsList (sv st))) \<union> set_option conn"
    by (cases conn; simp add: put_all_element_def writeConnListElement_def IsShutdown_def)+
  have st: "settled is_closed ?s a pc = settled is_closed (sv st) a pc" for a pc
    by (cases pc) (simp_all add: s)
  show ?thesis
  proof (cases "entered st")
    case True
    with inv show ?thesis unfolding a_second(1) serving_inv_def by (simp add: s st) blast
  next
    case False
    with inv have "shutters st j = HIdle" for j by (auto simp: serving_inv_def)
    with inv False show ?thesis unfolding a_second(1) serving_inv_def by (simp add: s st) blast
  qed
next
  case (h_list i)
  have e: "serving_inv is_closed (st\<lparr>entered := True\<rparr>)" (is "serving_inv _ ?st")
    using inv by (simp add: serving_inv_def)
  have "serving_inv is_closed (?st\<lparr>shutters := (shutters ?st)(i := HClosing (GetAllConnections (sv ?st)))\<rparr>)"
  proof (rule serving_inv_shutter [OF e])
    fix a assume "a \<in> present ?st - late ?st"
    with inv show "settled is_closed (sv ?st) a (HClosing (GetAllConnections (sv ?st)))"
      by (auto simp: serving_inv_def GetAllConnections_def)
  qed simp_all
  then show ?thesis by (simp add: h_list(1))
next
  case (h_close i a as x)
  have "is_closed x" using h_close(3) close_closes by (auto split: if_splits)
  then have s: "serving_inv is_closed (st\<lparr>sv := (sv st)\<lparr>heap := (heap (sv st))(a := x)\<rparr>\<rparr>)" (is "serving_inv _ ?st")
    by (intro serving_inv_server [OF inv]) (auto simp: IsShutdown_def)
  have "serving_inv is_closed (?st\<lparr>shutters := (shutters ?st)(i := HClosing as)\<rparr>)"
  proof (rule serving_inv_shutter [OF s])
    fix b assume "b \<in> present ?st - late ?st"
    then have "settled is_closed (sv st) b (HClosing (a # as))" using serving_invD [OF inv _ h_close(2)] by simp
    with \<open>is_closed x\<close> show "settled is_closed (sv ?st) b (HClosing as)" by auto
  qed (use serving_inv_entered [OF inv h_close(2)] in simp_all)
  then show ?thesis by (simp add: h_close(1))
next
  case (h_closed i)
  show ?thesis
    unfolding h_closed(1)
  proof (rule serving_inv_shutter [OF inv])
    fix a assume "a \<in> present st - late st"
    then have "settled is_closed (sv st) a (HClosing [])" by (rule serving_invD [OF inv _ h_closed(2)])
    then show "settled is_closed (sv st) a HClear" by simp
  qed (use serving_inv_entered [OF inv h_closed(2)] in simp_all)
next
  case (h_clear i)
  have s: "serving_inv is_closed (st\<lparr>sv := (sv st)\<lparr>connectionsList := clearConnList (connectionsList (sv st))\<rparr>\<rparr>)"
    (is "serving_inv _ ?st") by (rule serving_inv_server [OF inv]) (simp_all add: IsShutdown_def)
  have "serving_inv is_closed (?st\<lparr>shutters := (shutters ?st)(i := HClearAll)\<rparr>)"
  proof (rule serving_inv_shutter [OF s])
    fix a assume "a \<in> present ?st - late ?st"
    then have "settled is_closed (sv st) a HClear" using serving_invD [OF inv _ h_clear(2)] by simp
    then show "settled is_closed (sv ?st) a HClearAll" by simp
  qed (use serving_inv_entered [OF inv h_clear(2)] in simp_all)
  then show ?thesis by (simp add: h_clear(1))
next
  case (h_clear_all i)
  have closed: "is_closed (heap (sv st) a)" if "a \<in> present st - late st" for a
    using serving_invD [OF inv that h_clear_all(2)] by simp
  with inv serving_inv_entered [OF inv h_clear_all(2)] show ?thesis
    by (auto simp: h_clear_all(1) serving_inv_def IsShutdown_def intro: settled_closed)
next
  case (h_finish i env r s')
  have closed: "is_closed (heap (sv st) a)" if "a \<in> present st - late st" for a
    using serving_invD [OF inv that h_finish(2)] by simp
  from inv closed finish_shutdown_keeps [OF h_finish(3)] serving_inv_entered [OF inv h_finish(2)] show ?thesis
    by (cases r) (auto simp: h_finish(1) serving_inv_def IsShutdown_def intro: settled_closed)
next
  case g_purge
  show ?thesis
    unfolding g_purge by (rule serving_inv_server [OF inv]) (auto simp: IsShutdown_def purge_values)
next
  case (g_stream c v c' cl)
  show ?thesis unfolding g_stream(1) by (rule serving_inv_server [OF inv]) (simp_all add: IsShutdown_def)
next
  case (g_closes a x)
  from close_closes [OF g_closes(2)] show ?thesis
    unfolding g_closes(1) by (intro serving_inv_server [OF inv]) (auto simp: IsShutdown_def)
next
  case (a_first i conn)
  have s: "serving_inv is_closed (st\<lparr>sv := put_element conn (sv st)\<rparr>)"
    by (rule serving_inv_server [OF inv]) (simp_all add: IsShutdown_def put_element_def)
  then show ?thesis by (simp add: a_first(1) serving_inv_def)
qed

lemma serving_inv_step:
  assumes "serving_step close is_closed st st'" and inv: "serving_inv is_closed st"
  shows "serving_inv is_closed st'"
  using assms(1)
proof (cases rule: serving_step.cases)
  case (g_new a x)
  have "settled is_closed ((sv st)\<lparr>heap := (heap (sv st))(a := x)\<rparr>) b pc = settled is_closed (sv st) b pc"
    if "b \<noteq> a" for b pc
    using that by (cases pc) simp_all
  with inv g_new(2) show ?thesis by (auto simp: g_new(1) serving_inv_def IsShutdown_def)
next
  case (a_test i conn)
  from inv show ?thesis by (simp add: a_test(1) serving_inv_def)
next
  case w_step
  with inv show ?thesis by (rule working_inv_step [rotated])
qed

end

interpretation any_serving: machine_invariant serving_start "serving_step Wrapper_Close Wrapper_IsClosed"
    "serving_inv Wrapper_IsClosed"
  by unfold_locales (simp add: serving_start_def serving_inv_def, rule any_wrapper.serving_inv_step)

section \<open>Runs\<close>

text \<open>The steps of \<open>AddConnection\<close> and \<open>Shutdown\<close> as functions, for concrete runs.\<close>

datatype serving_action = XTest nat "nat option" | XAdd nat | XShut nat

definition close_or_same :: "NanoServiceWrapper \<Rightarrow> NanoServiceWrapper" where
  "close_or_same n = (case Wrapper_Close n of Ret x \<Rightarrow> x | Panic p \<Rightarrow> n)"

fun serving_exec :: "shutdown_errors \<Rightarrow> serving_action \<Rightarrow> NanoServiceWrapper serving \<Rightarrow> NanoServiceWrapper serving option" where
  "serving_exec env (XTest i conn) st =
     (case adders st i of
        AIdle \<Rightarrow> if IsShutdown (sv st) then None else Some (st\<lparr>adders := (adders st)(i := AFirst conn)\<rparr>)
      | _ \<Rightarrow> None)"
| "serving_exec env (XAdd i) st =
     (case adders st i of
        AIdle \<Rightarrow> None
      | AFirst conn \<Rightarrow> Some (st\<lparr>sv := put_element conn (sv st), adders := (adders st)(i := ASecond conn)\<rparr>)
      | ASecond conn \<Rightarrow> Some (st\<lparr>sv := put_all_element conn (sv st), adders := (adders st)(i := AIdle),
           present := present st \<union> set_option conn,
           late := if entered st then late st \<union> set_option conn else late st\<rparr>))"
| "serving_exec env (XShut i) st =
     (case shutters st i of
        HIdle \<Rightarrow> Some (st\<lparr>entered := True, shutters := (shutters st)(i := HClosing (GetAllConnections (sv st)))\<rparr>)
      | HClosing [] \<Rightarrow> Some (st\<lparr>shutters := (shutters st)(i := HClear)\<rparr>)
      | HClosing (a # as) \<Rightarrow> Some (st\<lparr>sv := (sv st)\<lparr>heap := (heap (sv st))(a :=
             if Wrapper_IsClosed (heap (sv st) a) then heap (sv st) a else close_or_same (heap (sv st) a))\<rparr>,
           shutters := (shutters st)(i := HClosing as)\<rparr>)
      | HClear \<Rightarrow> Some (st\<lparr>sv := (sv st)\<lparr>connectionsList := clearConnList (connectionsList (sv st))\<rparr>,
           shutters := (shutters st)(i := HClearAll)\<rparr>)
      | HClearAll \<Rightarrow> Some (st\<lparr>sv := (sv st)\<lparr>allConnectionsList := clearConnList (allConnectionsList (sv st))\<rparr>,
           shutters := (shutters st)(i := HFinish)\<rparr>)
      | HFinish \<Rightarrow> (case finish_shutdown env (sv st) of
           (r, s') \<Rightarrow> Some (st\<lparr>sv := s', shutters := (shutters st)(i := case r of Ret u \<Rightarrow> HDone | Panic p \<Rightarrow> HPanicked)\<rparr>))
      | _ \<Rightarrow> None)"

fun serving_run :: "shutdown_errors \<Rightarrow> serving_action list \<Rightarrow> NanoServiceWrapper serving \<Rightarrow> NanoServiceWrapper serving option" where
  "serving_run env [] st = Some st"
| "serving_run env (x # xs) st = (case serving_exec env x st of None \<Rightarrow> None | Some t \<Rightarrow> serving_run env xs t)"

lemma close_or_same_Ret: "Wrapper_Close n = Ret (close_or_same n)"
  using any_wrapper.close_total [of n] by (auto simp: close_or_same_def)

lemma working_exec_sound:
  assumes "serving_exec env x st = Some t" and "\<And>i conn. x \<noteq> XTest i conn"
  shows "working_step Wrapper_Close Wrapper_IsClosed st t"
proof (cases x)
  case (XAdd i)
  show ?thesis
  proof (cases "adders st i")
    case (ASecond conn)
    from a_second [OF ASecond, of Wrapper_Close Wrapper_IsClosed] assms XAdd ASecond show ?thesis by simp
  qed (use XAdd assms in \<open>auto intro: a_first\<close>)
next
  case (XShut i)
  show ?thesis
  proof (cases "shutters st i")
    case (HClosing as)
    with XShut assms show ?thesis
      by (cases as) (auto intro!: h_closed h_close [where st = st and i = i] close_or_same_Ret)
  next
    case HFinish
    obtain r s' where "finish_shutdown env (sv st) = (r, s')" by (metis prod.exhaust_sel)
    with XShut assms HFinish h_finish [OF HFinish this] show ?thesis by auto
  qed (use XShut assms in \<open>auto intro: h_list h_clear h_clear_all\<close>)
qed (use assms(2) in blast)

lemma serving_exec_sound:
  assumes "serving_exec env x st = Some t" shows "serving_step Wrapper_Close Wrapper_IsClosed st t"
proof (cases x)
  case (XTest i conn)
  with assms show ?thesis by (auto intro: a_test split: add_pc.splits if_splits)
qed (use assms in \<open>auto intro: w_step working_exec_sound simp del: serving_exec.simps\<close>)

lemma serving_run_reach:
  "serving_run env xs st = Some t \<Longrightarrow> reach start (serving_step Wrapper_Close Wrapper_IsClosed) st \<Longrightarrow>
     reach start (serving_step Wrapper_Close Wrapper_IsClosed) t"
proof (induction xs arbitrary: st)
  case (Cons x xs)
  from Cons(2) obtain u where u: "serving_exec env x st = Some u" "serving_run env xs u = Some t"
    by (auto simp del: serving_exec.simps split: option.splits)
  from Cons(1) [OF u(2) reach_step [OF Cons(3) serving_exec_sound [OF u(1)]]] show ?case .
qed simp

text \<open>
  C13. A server under concurrent use. Any number of goroutines call \<open>AddConnection\<close> and
  \<open>Shutdown\<close>, interleaved step by step, on wrappers of both kinds. In every reachable state: a
  connection that was in the lists before anybody entered \<open>Shutdown\<close> is closed or is still among
  those \<open>GetAllConnections\<close> returns, and it is closed once a goroutine is past the closing loop;
  only connections written later can stay open and be forgotten; and at most one call of
  \<open>Shutdown\<close> ever returns, whatever the number of callers.
\<close>

theorem concurrent_shutdown:
  assumes "reach serving_start (serving_step Wrapper_Close Wrapper_IsClosed) st"
  shows "(\<forall>a \<in> present st - late st.
        (Wrapper_IsClosed (heap (sv st) a) \<or> a \<in> set (GetAllConnections (sv st)))
      \<and> ((\<exists>i. shutters st i \<in> {HClear, HClearAll, HFinish, HDone}) \<longrightarrow> Wrapper_IsClosed (heap (sv st) a)))
    \<and> (\<not> entered st \<longrightarrow> late st = {} \<and> \<not> IsShutdown (sv st))
    \<and> (\<forall>i j. shutters st i = HDone \<and> shutters st j = HDone \<longrightarrow> i = j \<and> IsShutdown (sv st))"
proof -
  note inv = any_serving.reach_inv [OF assms]
  show ?thesis
  proof (intro conjI ballI impI)
    fix a assume a: "a \<in> present st - late st"
    show "Wrapper_IsClosed (heap (sv st) a) \<or> a \<in> set (GetAllConnections (sv st))"
      using inv a by (auto simp: serving_inv_def GetAllConnections_def)
    assume "\<exists>i. shutters st i \<in> {HClear, HClearAll, HFinish, HDone}"
    then obtain i where "shutters st i \<in> {HClear, HClearAll, HFinish, HDone}" ..
    with serving_invD [OF inv a, of i "shutters st i"] show "Wrapper_IsClosed (heap (sv st) a)" by auto
  qed (use inv in \<open>auto simp: serving_inv_def\<close>)
qed

text \<open>Connection 3 is listed when the server shuts down; 4 has passed the test by then.\<close>

definition demo_serving :: "NanoServiceWrapper serving option" where
  "demo_serving =
     serving_run no_errors
       [XTest 0 (Some 3), XAdd 0, XAdd 0, XTest 1 (Some 4), XShut 7, XShut 7, XShut 7, XShut 7, XShut 7,
        XAdd 1, XAdd 1, XShut 7]
       \<lparr>sv = \<lparr>srv_service = Service_zero, connectionStreamInit = False, connectionsList = [],
          allConnectionsList = [], nextElement = 0, srv_closed = False, listener = Some True,
          wsServer = False, mdnsServer = False,
          heap = (\<lambda>a. if a = 3 then TcpWrapper (new_nan0 ''svc'' 0) else WsWrapper (new_ws_nan0 ''svc'' 0))\<rparr>,
        adders = (\<lambda>i. AIdle), shutters = (\<lambda>i. HIdle), present = {}, late = {}, entered = False\<rparr>"

lemma demo_serving_eval:
  "case demo_serving of None \<Rightarrow> False | Some st \<Rightarrow>
     3 \<in> present st \<and> 3 \<notin> late st \<and> 4 \<in> late st \<and> shutters st 7 = HDone
     \<and> \<not> Wrapper_IsClosed (heap (sv st) 4) \<and> GetAllConnections (sv st) = []"
  unfolding demo_serving_def by code_simp

theorem concurrent_shutdown_witness:
  "\<exists>st. demo_serving = Some st \<and> Wrapper_IsClosed (heap (sv st) 3) \<and> IsShutdown (sv st)
     \<and> 4 \<in> late st \<and> \<not> Wrapper_IsClosed (heap (sv st) 4) \<and> GetAllConnections (sv st) = []"
proof (cases demo_serving)
  case None
  with demo_serving_eval show ?thesis by simp
next
  case (Some st)
  then have "reach serving_start (serving_step Wrapper_Close Wrapper_IsClosed) st"
    unfolding demo_serving_def by (rule serving_run_reach) (rule reach_start, simp add: serving_start_def IsShutdown_def)
  from concurrent_shutdown [OF this] demo_serving_eval [unfolded Some option.case] Some show ?thesis
    by (intro exI [of _ st]) blast
qed

end
