(* ===== verification/Nan0_Accepting.thy ===== *)
theory Nan0_Accepting
  imports Nan0_Serving
begin

text \<open>
  Where a server's wrappers are. A goroutine that accepts a connection makes a wrapper, or gets a nil
  one, and calls \<open>AddConnection\<close>: the accept loop of a TCP server does so one connection after another,
  and a websocket server has a goroutine for every request. The calls interleave with \<open>Shutdown\<close>, the
  purge, the stream and the wrappers' own closing as in \<open>Nan0_Serving\<close>; no lock is held across steps.
\<close>

section \<open>The machine\<close>

text \<open>
  \<open>calls\<close> says which goroutine is about to call \<open>AddConnection\<close>, and with what; \<open>made\<close> are the wrappers
  made so far, by address, and \<open>turned_away\<close> those whose call found the server shut down.
\<close>

record 'w accepting =
  site :: "'w serving"
  calls :: "nat \<Rightarrow> nat option option"
  made :: "nat set"
  turned_away :: "nat set"

text \<open>A wrapper that is new, at an address of its own; or none, for the call with nil.\<close>

definition make_wrapper :: "nat \<Rightarrow> nat \<Rightarrow> 'w \<Rightarrow> 'w accepting \<Rightarrow> 'w accepting" where
  "make_wrapper i a x s =
     s\<lparr>site := (site s)\<lparr>sv := (sv (site s))\<lparr>heap := (heap (sv (site s)))(a := x)\<rparr>\<rparr>,
       calls := (calls s)(i := Some (Some a)), made := insert a (made s)\<rparr>"

definition make_nil :: "nat \<Rightarrow> 'w accepting \<Rightarrow> 'w accepting" where
  "make_nil i s = s\<lparr>calls := (calls s)(i := Some None)\<rparr>"

definition at_rest :: "'w accepting \<Rightarrow> nat \<Rightarrow> bool" where
  "at_rest s i \<longleftrightarrow> calls s i = None \<and> adders (site s) i = AIdle"

text \<open>The steps after the making: \<open>AddConnection\<close> tests the server, and goes on or returns.\<close>

inductive calling_step :: "('w \<Rightarrow> 'w go) \<Rightarrow> ('w \<Rightarrow> bool) \<Rightarrow> 'w accepting \<Rightarrow> 'w accepting \<Rightarrow> bool"
  for close :: "'w \<Rightarrow> 'w go" and is_closed :: "'w \<Rightarrow> bool" where
  c_enter: "calls s i = Some conn \<Longrightarrow> adders (site s) i = AIdle \<Longrightarrow> \<not> IsShutdown (sv (site s)) \<Longrightarrow>
     calling_step close is_closed s
       (s\<lparr>site := (site s)\<lparr>adders := (adders (site s))(i := AFirst conn)\<rparr>, calls := (calls s)(i := None)\<rparr>)"
| c_refused: "calls s i = Some conn \<Longrightarrow> IsShutdown (sv (site s)) \<Longrightarrow>
     calling_step close is_closed s
       (s\<lparr>calls := (calls s)(i := None), turned_away := turned_away s \<union> set_option conn\<rparr>)"
| c_work: "working_step close is_closed (site s) t \<Longrightarrow> calling_step close is_closed s (s\<lparr>site := t\<rparr>)"

inductive accepting_step :: "('w \<Rightarrow> 'w go) \<Rightarrow> ('w \<Rightarrow> bool) \<Rightarrow> 'w accepting \<Rightarrow> 'w accepting \<Rightarrow> bool"
  for close :: "'w \<Rightarrow> 'w go" and is_closed :: "'w \<Rightarrow> bool" where
  c_made: "at_rest s i \<Longrightarrow> a \<notin> made s \<Longrightarrow> accepting_step close is_closed s (make_wrapper i a x s)"
| c_nil: "at_rest s i \<Longrightarrow> accepting_step close is_closed s (make_nil i s)"
| c_call: "calling_step close is_closed s t \<Longrightarrow> accepting_step close is_closed s t"

definition accepting_start :: "'w accepting \<Rightarrow> bool" where
  "accepting_start s \<longleftrightarrow> serving_start (site s) \<and> calls s = (\<lambda>i. None) \<and> made s = {} \<and> turned_away s = {}"

section \<open>The invariant\<close>

text \<open>The wrappers that goroutines are about to add, and those that they are adding.\<close>

fun asked_by :: "nat option option \<Rightarrow> nat set" where
  "asked_by None = {}"
| "asked_by (Some conn) = set_option conn"

fun added_by :: "add_pc \<Rightarrow> nat set" where
  "added_by AIdle = {}"
| "added_by (AFirst conn) = set_option conn"
| "added_by (ASecond conn) = set_option conn"

definition asked :: "'w accepting \<Rightarrow> nat set" where
  "asked s = (\<Union>i. asked_by (calls s i))"

definition adding :: "'w serving \<Rightarrow> nat set" where
  "adding t = (\<Union>i. added_by (adders t i))"

lemma UN_at: "(\<Union>j. F (f j)) = F (f i) \<union> (\<Union>j \<in> - {i}. F (f j))"
  by auto

lemma UN_upd: "(\<Union>j. F ((f(i := x)) j)) = F x \<union> (\<Union>j \<in> - {i}. F (f j))"
  by (auto split: if_splits)

definition accepting_inv :: "('w \<Rightarrow> bool) \<Rightarrow> 'w accepting \<Rightarrow> bool" where
  "accepting_inv is_closed s \<longleftrightarrow>
     serving_inv is_closed (site s)
   \<and> made s = asked s \<union> adding (site s) \<union> present (site s) \<union> turned_away s
   \<and> (turned_away s \<noteq> {} \<longrightarrow> IsShutdown (sv (site s)))
   \<and> set (values_of (allConnectionsList (sv (site s)))) \<subseteq> present (site s)"

text \<open>A call that has begun ends with its wrapper in the lists.\<close>

lemma working_adding:
  assumes "working_step close is_closed t t'"
  shows "adding t' \<union> present t' = adding t \<union> present t"
  using assms
proof (cases rule: working_step.cases)
  case (a_first i conn)
  then show ?thesis
    by (simp add: adding_def UN_upd [where F = added_by] UN_at [where F = added_by and f = "adders t" and i = i] del: fun_upd_apply)
next
  case (a_second i conn)
  then show ?thesis
    by (simp add: adding_def UN_upd [where F = added_by] UN_at [where F = added_by and f = "adders t" and i = i] ac_simps
        del: fun_upd_apply)
qed (auto simp: adding_def)

lemma working_lists:
  assumes "working_step close is_closed t t'"
    and "set (values_of (allConnectionsList (sv t))) \<subseteq> present t"
  shows "set (values_of (allConnectionsList (sv t'))) \<subseteq> present t'"
  using assms(1)
proof (cases rule: working_step.cases)
  case (a_second i conn)
  with assms(2) show ?thesis by (cases conn) (auto simp: put_all_element_def writeConnListElement_def)
next
  case (h_finish i env r s')
  with assms(2) finish_shutdown_keeps [OF h_finish(3)] show ?thesis by simp
qed (use assms(2) in \<open>auto simp: put_element_def purge_values clearConnList_def\<close>)

lemma working_shutdown:
  assumes "working_step close is_closed t t'" and "IsShutdown (sv t)" shows "IsShutdown (sv t')"
  using assms(1)
proof (cases rule: working_step.cases)
  case (h_finish i env r s')
  with assms(2) finish_shutdown_keeps [OF h_finish(3)] show ?thesis
    by (cases r) (auto simp: IsShutdown_def)
qed (use assms(2) in \<open>auto simp: put_element_def put_all_element_def IsShutdown_def\<close>)

lemma accepting_start_inv: "accepting_start s \<Longrightarrow> accepting_inv is_closed s"
  by (simp add: accepting_start_def accepting_inv_def serving_start_def serving_inv_def asked_def adding_def)

context closer
begin

lemma calling_inv_step:
  assumes "calling_step close is_closed s t" and inv: "accepting_inv is_closed s"
  shows "accepting_inv is_closed t"
  using assms(1)
proof (cases rule: calling_step.cases)
  case (c_enter i conn)
  have "serving_inv is_closed (site t)"
    using serving_inv_step [OF a_test [OF c_enter(3,4)]] inv c_enter(1) by (simp add: accepting_inv_def)
  moreover have "asked s \<union> adding (site s) = asked t \<union> adding (site t)"
    using c_enter
    by (simp add: asked_def adding_def UN_upd [where F = added_by] UN_upd [where F = asked_by] ac_simps
        UN_at [where F = asked_by and f = "calls s" and i = i]
        UN_at [where F = added_by and f = "adders (site s)" and i = i] del: fun_upd_apply)
  ultimately show ?thesis using inv c_enter by (auto simp: accepting_inv_def)
next
  case (c_refused i conn)
  have "asked s \<union> turned_away s = asked t \<union> turned_away t"
    using c_refused
    by (simp add: asked_def UN_upd [where F = asked_by] ac_simps
        UN_at [where F = asked_by and f = "calls s" and i = i] del: fun_upd_apply)
  with inv c_refused show ?thesis by (auto simp: accepting_inv_def)
next
  case (c_work t')
  with inv working_inv_step [OF c_work(2)] working_adding [OF c_work(2)] working_lists [OF c_work(2)]
    working_shutdown [OF c_work(2)]
  show ?thesis by (auto simp: accepting_inv_def asked_def)
qed

lemma make_wrapper_inv:
  assumes "at_rest s i" and "a \<notin> made s" and "accepting_inv is_closed s"
  shows "accepting_inv is_closed (make_wrapper i a x s)"
proof -
  have "a \<notin> present (site s)" using assms(2,3) by (auto simp: accepting_inv_def)
  from serving_inv_step [OF g_new [OF this]] assms(3)
  have "serving_inv is_closed (site (make_wrapper i a x s))" by (simp add: accepting_inv_def make_wrapper_def)
  moreover have "asked (make_wrapper i a x s) = insert a (asked s)"
    using assms(1)
    by (simp add: asked_def make_wrapper_def at_rest_def UN_upd [where F = asked_by]
        UN_at [where F = asked_by and f = "calls s" and i = i] del: fun_upd_apply)
  moreover have "adding (site (make_wrapper i a x s)) = adding (site s)"
    by (simp add: adding_def make_wrapper_def)
  ultimately show ?thesis using assms(3) by (auto simp: accepting_inv_def make_wrapper_def IsShutdown_def)
qed

lemma make_nil_inv:
  assumes "at_rest s i" and "accepting_inv is_closed s" shows "accepting_inv is_closed (make_nil i s)"
proof -
  have "asked (make_nil i s) = asked s"
    using assms(1)
    by (simp add: asked_def make_nil_def at_rest_def UN_upd [where F = asked_by]
        UN_at [where F = asked_by and f = "calls s" and i = i] del: fun_upd_apply)
  with assms(2) show ?thesis by (simp add: accepting_inv_def make_nil_def)
qed

lemma accepting_inv_step:
  "accepting_step close is_closed s t \<Longrightarrow> accepting_inv is_closed s \<Longrightarrow> accepting_inv is_closed t"
  by (induction rule: accepting_step.induct) (auto intro: make_wrapper_inv make_nil_inv calling_inv_step)

text \<open>Where an open wrapper is.\<close>

lemma accepting_places:
  assumes "accepting_inv is_closed s" and "a \<in> made s" and "\<not> is_closed (heap (sv (site s)) a)"
  shows "a \<in> asked s \<or> a \<in> adding (site s) \<or> a \<in> set (GetAllConnections (sv (site s)))
    \<or> entered (site s) \<and> (a \<in> late (site s) \<or> a \<in> turned_away s \<and> IsShutdown (sv (site s)))"
  using assms by (auto simp: accepting_inv_def serving_inv_def GetAllConnections_def)

end

interpretation any_accepting: machine_invariant accepting_start "accepting_step Wrapper_Close Wrapper_IsClosed"
    "accepting_inv Wrapper_IsClosed"
  by unfold_locales (simp add: accepting_start_inv, rule any_wrapper.accepting_inv_step)

section \<open>Runs\<close>

datatype accepting_action =
    CMake nat nat NanoServiceWrapper | CNil nat | CEnter nat | CRefused nat | CAdd nat | CShut nat

fun accepting_exec ::
    "shutdown_errors \<Rightarrow> accepting_action \<Rightarrow> NanoServiceWrapper accepting \<Rightarrow> NanoServiceWrapper accepting option" where
  "accepting_exec env (CMake i a x) s = (if at_rest s i \<and> a \<notin> made s then Some (make_wrapper i a x s) else None)"
| "accepting_exec env (CNil i) s = (if at_rest s i then Some (make_nil i s) else None)"
| "accepting_exec env (CEnter i) s =
     (case calls s i of
        Some conn \<Rightarrow>
          if adders (site s) i = AIdle \<and> \<not> IsShutdown (sv (site s))
          then Some (s\<lparr>site := (site s)\<lparr>adders := (adders (site s))(i := AFirst conn)\<rparr>, calls := (calls s)(i := None)\<rparr>)
          else None
      | None \<Rightarrow> None)"
| "accepting_exec env (CRefused i) s =
     (case calls s i of
        Some conn \<Rightarrow>
          if IsShutdown (sv (site s))
          then Some (s\<lparr>calls := (calls s)(i := None), turned_away := turned_away s \<union> set_option conn\<rparr>) else None
      | None \<Rightarrow> None)"
| "accepting_exec env (CAdd i) s = map_option (\<lambda>t. s\<lparr>site := t\<rparr>) (serving_exec env (XAdd i) (site s))"
| "accepting_exec env (CShut i) s = map_option (\<lambda>t. s\<lparr>site := t\<rparr>) (serving_exec env (XShut i) (site s))"

fun accepting_run ::
    "shutdown_errors \<Rightarrow> accepting_action list \<Rightarrow> NanoServiceWrapper accepting \<Rightarrow> NanoServiceWrapper accepting option" where
  "accepting_run env [] s = Some s"
| "accepting_run env (x # xs) s = (case accepting_exec env x s of None \<Rightarrow> None | Some t \<Rightarrow> accepting_run env xs t)"

lemma calling_exec_sound:
  assumes "accepting_exec env x s = Some t" and "\<And>i a w. x \<noteq> CMake i a w" and "\<And>i. x \<noteq> CNil i"
  shows "calling_step Wrapper_Close Wrapper_IsClosed s t"
proof (cases x)
  case (CAdd i)
  with assms(1) show ?thesis
    by (auto intro: c_work working_exec_sound [where env = env] simp del: serving_exec.simps)
next
  case (CShut i)
  with assms(1) show ?thesis
    by (auto intro: c_work working_exec_sound [where env = env] simp del: serving_exec.simps)
qed (use assms in \<open>auto intro: c_enter c_refused split: option.splits if_splits\<close>)

lemma accepting_exec_sound:
  assumes "accepting_exec env x s = Some t" shows "accepting_step Wrapper_Close Wrapper_IsClosed s t"
proof (cases x)
  case (CMake i a w)
  with assms show ?thesis by (auto intro: c_made split: if_splits)
next
  case (CNil i)
  with assms show ?thesis by (auto intro: c_nil split: if_splits)
qed (use assms in \<open>auto intro: c_call calling_exec_sound simp del: accepting_exec.simps\<close>)

lemma accepting_run_reach:
  "accepting_run env xs s = Some t \<Longrightarrow> reach start (accepting_step Wrapper_Close Wrapper_IsClosed) s \<Longrightarrow>
     reach start (accepting_step Wrapper_Close Wrapper_IsClosed) t"
proof (induction xs arbitrary: s)
  case (Cons x xs)
  from Cons(2) obtain u where u: "accepting_exec env x s = Some u" "accepting_run env xs u = Some t"
    by (auto simp del: accepting_exec.simps split: option.splits)
  from Cons(1) [OF u(2) reach_step [OF Cons(3) accepting_exec_sound [OF u(1)]]] show ?case .
qed simp

section \<open>Open connections\<close>

text \<open>
  C12. Where a server's open connections are. Goroutines make wrappers of both kinds and add them,
  while others shut the server down, purge, take connections from the stream and close wrappers, all
  interleaved step by step. In every reachable state, of every wrapper ever made: it is closed; or the
  goroutine that made it is about to call \<open>AddConnection\<close>, or in that call; or it is among the
  connections that \<open>GetAllConnections\<close> returns; or somebody has entered \<open>Shutdown\<close>, and the wrapper was
  written to the lists only after that (the race of \<open>concurrent_shutdown\<close>), or its call found the
  server shut down and left it open. So before anybody has entered \<open>Shutdown\<close> no open connection is
  forgotten. And nothing is listed that was not made.
\<close>

theorem open_connections_are_listed:
  assumes "reach accepting_start (accepting_step Wrapper_Close Wrapper_IsClosed) s"
  shows "(\<forall>a \<in> made s. Wrapper_IsClosed (heap (sv (site s)) a) \<or> a \<in> asked s \<or> a \<in> adding (site s)
        \<or> a \<in> set (GetAllConnections (sv (site s)))
        \<or> entered (site s) \<and> (a \<in> late (site s) \<or> a \<in> turned_away s \<and> IsShutdown (sv (site s))))
    \<and> set (GetAllConnections (sv (site s))) \<subseteq> made s
    \<and> (\<not> entered (site s) \<longrightarrow> late (site s) = {} \<and> turned_away s = {} \<and> \<not> IsShutdown (sv (site s)))"
proof (intro conjI ballI)
  note inv = any_accepting.reach_inv [OF assms]
  show "set (GetAllConnections (sv (site s))) \<subseteq> made s"
    using inv by (auto simp: accepting_inv_def GetAllConnections_def)
  show "\<not> entered (site s) \<longrightarrow> late (site s) = {} \<and> turned_away s = {} \<and> \<not> IsShutdown (sv (site s))"
    using inv by (auto simp: accepting_inv_def serving_inv_def)
  fix a assume "a \<in> made s"
  from any_wrapper.accepting_places [OF inv this]
  show "Wrapper_IsClosed (heap (sv (site s)) a) \<or> a \<in> asked s \<or> a \<in> adding (site s)
      \<or> a \<in> set (GetAllConnections (sv (site s)))
      \<or> entered (site s) \<and> (a \<in> late (site s) \<or> a \<in> turned_away s \<and> IsShutdown (sv (site s)))" by blast
qed

text \<open>
  Connection 3 is listed and 4 is between its two lists when the server is shut down; 5 comes too late.
\<close>

definition demo_empty_serving :: "NanoServiceWrapper serving" where
  "demo_empty_serving =
     \<lparr>sv = \<lparr>srv_service = Service_zero, connectionStreamInit = False, connectionsList = [],
        allConnectionsList = [], nextElement = 0, srv_closed = False, listener = Some True,
        wsServer = False, mdnsServer = False, heap = (\<lambda>a. TcpWrapper (new_nan0 ''svc'' 0))\<rparr>,
      adders = (\<lambda>i. AIdle), shutters = (\<lambda>i. HIdle), present = {}, late = {}, entered = False\<rparr>"

definition demo_accepting :: "accepting_action list \<Rightarrow> NanoServiceWrapper accepting option" where
  "demo_accepting xs =
     accepting_run no_errors
       ([CMake 0 3 (TcpWrapper (new_nan0 ''svc'' 0)), CEnter 0, CAdd 0, CAdd 0,
         CMake 1 4 (WsWrapper (new_ws_nan0 ''svc'' 0)), CEnter 1, CAdd 1, CMake 2 5 (TcpWrapper (new_nan0 ''svc'' 0))] @ xs)
       \<lparr>site = demo_empty_serving, calls = (\<lambda>i. None), made = {}, turned_away = {}\<rparr>"

definition demo_late_calls :: "accepting_action list" where
  "demo_late_calls = replicate 5 (CShut 7) @ [CAdd 1, CShut 7, CRefused 2]"

lemma demo_accepting_eval:
  "case demo_accepting [] of None \<Rightarrow> False | Some s \<Rightarrow>
     3 \<in> made s \<and> \<not> Wrapper_IsClosed (heap (sv (site s)) 3) \<and> GetAllConnections (sv (site s)) = [3] \<and> \<not> entered (site s)"
  "case demo_accepting demo_late_calls of None \<Rightarrow> False | Some s \<Rightarrow>
     4 \<in> made s \<and> \<not> Wrapper_IsClosed (heap (sv (site s)) 4) \<and> Wrapper_IsClosed (heap (sv (site s)) 3)
     \<and> IsShutdown (sv (site s)) \<and> GetAllConnections (sv (site s)) = []"
  unfolding demo_accepting_def demo_late_calls_def by code_simp+

lemma demo_accepting_reach:
  "demo_accepting xs = Some s \<Longrightarrow> reach accepting_start (accepting_step Wrapper_Close Wrapper_IsClosed) s"
  unfolding demo_accepting_def
  by (erule accepting_run_reach)
    (auto intro: reach_start simp: accepting_start_def serving_start_def demo_empty_serving_def IsShutdown_def)

theorem open_connections_are_listed_witness:
  "\<exists>s t. demo_accepting [] = Some s \<and> GetAllConnections (sv (site s)) = [3] \<and> turned_away s = {} \<and> late (site s) = {}
     \<and> demo_accepting demo_late_calls = Some t \<and> entered (site t) \<and> GetAllConnections (sv (site t)) = []
     \<and> \<not> Wrapper_IsClosed (heap (sv (site t)) 4) \<and> Wrapper_IsClosed (heap (sv (site t)) 3)"
proof -
  from demo_accepting_eval obtain s t where s: "demo_accepting [] = Some s" and t: "demo_accepting demo_late_calls = Some t"
    by (cases "demo_accepting []"; cases "demo_accepting demo_late_calls") auto
  note f = demo_accepting_eval(1) [unfolded s option.case] demo_accepting_eval(2) [unfolded t option.case]
  from open_connections_are_listed [OF demo_accepting_reach [OF s]] f(1) s
    open_connections_are_listed [OF demo_accepting_reach [OF t]] f(2) t
  show ?thesis by blast
qed

end
