(* ===== verification/Nan0_Signals.thy ===== *)
theory Nan0_Signals
  imports Go_Prelude
begin

text \<open>
  The helpers on signal channels and the polling loop of \<^verbatim>\<open>nan0Util.go\<close>:
  \<open>AwaitNSignals\<close>, \<open>DoAfterNSignals\<close>, \<open>DoAfterFirstSignal\<close>, \<open>CheckAndDoWithDuration\<close>.

  A signal channel is the number of signals that senders have ready and whether it is closed; a
  receive from a closed, empty channel returns at once. A call that would wait forever is
  \<open>None\<close>. The helpers record what they do, in order.
\<close>

section \<open>Signals\<close>

record signal_chan =
  ready :: nat
  chan_closed :: bool

datatype signal_event = Received | StartDrain | ClosedChan | RanAction | CrashedClose

fun receive_signals :: "nat \<Rightarrow> signal_chan \<Rightarrow> signal_chan option" where
  "receive_signals 0 c = Some c"
| "receive_signals (Suc n) c =
     (if 0 < ready c then receive_signals n (c\<lparr>ready := ready c - 1\<rparr>)
      else if chan_closed c then receive_signals n c
      else None)"

definition close_chan_event :: "signal_chan \<Rightarrow> signal_event list \<times> signal_chan" where
  "close_chan_event c =
     (if chan_closed c then ([CrashedClose], c) else ([ClosedChan], c\<lparr>chan_closed := True\<rparr>))"

text \<open>\<open>drainSignalChan\<close> starts a goroutine that takes every signal that is or becomes ready.\<close>

definition drainSignalChan :: "signal_chan \<Rightarrow> signal_event list \<times> signal_chan" where
  "drainSignalChan c = ([StartDrain], c\<lparr>ready := 0\<rparr>)"

text \<open>\<open>drainTxRxChan\<close>, which nothing calls, does the same to a channel of messages.\<close>

definition drainTxRxChan :: "'m option list \<Rightarrow> 'm option list" where
  "drainTxRxChan c = []"

definition AwaitNSignals :: "signal_chan \<Rightarrow> int \<Rightarrow> (signal_event list \<times> signal_chan) option" where
  "AwaitNSignals c n =
     (case receive_signals (nat n) c of
        None \<Rightarrow> None
      | Some c1 \<Rightarrow>
          (case drainSignalChan c1 of (d, c2) \<Rightarrow>
           (case close_chan_event c2 of (e, c3) \<Rightarrow>
              Some (replicate (nat n) Received @ d @ e, c3))))"

text \<open>The deferred action runs last, and runs when closing the channel has panicked, too.\<close>

definition DoAfterNSignals :: "signal_chan \<Rightarrow> int \<Rightarrow> (signal_event list \<times> signal_chan) option" where
  "DoAfterNSignals c n = map_option (\<lambda>(es, c'). (es @ [RanAction], c')) (AwaitNSignals c n)"

text \<open>Here the action is deferred after the closing of the channel, so it runs before it.\<close>

definition DoAfterFirstSignal :: "signal_chan \<Rightarrow> (signal_event list \<times> signal_chan) option" where
  "DoAfterFirstSignal c =
     (case receive_signals 1 c of
        None \<Rightarrow> None
      | Some c1 \<Rightarrow>
          (case drainSignalChan c1 of (d, c2) \<Rightarrow>
           (case close_chan_event c2 of (e, c3) \<Rightarrow> Some ([Received] @ d @ [RanAction] @ e, c3))))"

lemma receive_signals_open:
  "\<not> chan_closed c \<Longrightarrow> receive_signals n c = (if n \<le> ready c then Some (c\<lparr>ready := ready c - n\<rparr>) else None)"
  by (induction n c rule: receive_signals.induct) auto

section \<open>Polling\<close>

text \<open>
  \<open>CheckAndDoWithDuration\<close> checks its condition at once and then at every tick, and acts when it
  is first false. \<open>cond t\<close> is the condition as evaluated at time \<open>t\<close>; the result is the time of
  the action, \<open>None\<close> if the condition never becomes false. Times are nanoseconds; ticks are taken
  to be on time. \<open>NewTicker\<close> panics on a duration that is not positive.
\<close>

partial_function (option) check_loop :: "(int \<Rightarrow> bool) \<Rightarrow> int \<Rightarrow> int \<Rightarrow> int option" where
  "check_loop cond after t = (if cond t then check_loop cond after (t + after) else Some t)"

definition CheckAndDoWithDuration :: "(int \<Rightarrow> bool) \<Rightarrow> int \<Rightarrow> int \<Rightarrow> int option go" where
  "CheckAndDoWithDuration awaitedCondition after t0 =
     (let after = (if after = 0 then 333000 else after)
      in if after \<le> 0 then Panic (PanicErr (ErrText ''non-positive interval for NewTicker''))
         else Ret (check_loop awaitedCondition after t0))"

definition CheckAndDo :: "(int \<Rightarrow> bool) \<Rightarrow> int \<Rightarrow> int option go" where
  "CheckAndDo awaitedCondition t0 = CheckAndDoWithDuration awaitedCondition 0 t0"

text \<open>
  A loop whose condition fails from some time on ends, at a tick, after at most one tick beyond
  that time; and its condition held at every tick before.
\<close>

lemma check_loop_ends:
  assumes "0 < after" and "\<And>t. bound \<le> t \<Longrightarrow> \<not> cond t"
  shows "\<exists>k. check_loop cond after t = Some (t + int k * after) \<and> \<not> cond (t + int k * after)
    \<and> (\<forall>j < k. cond (t + int j * after))"
proof (induction "nat (bound - t)" arbitrary: t rule: less_induct)
  case less
  show ?case
  proof (cases "cond t")
    case False
    then show ?thesis by (intro exI [of _ 0]) (simp add: check_loop.simps)
  next
    case True
    with assms(2) have "t < bound" by (meson not_le)
    with assms(1) have "nat (bound - (t + after)) < nat (bound - t)" by simp
    from less [OF this] obtain k where k: "check_loop cond after (t + after) = Some (t + after + int k * after)"
      "\<not> cond (t + after + int k * after)" "\<forall>j < k. cond (t + after + int j * after)" by blast
    have "cond (t + int j * after)" if "j < Suc k" for j
    proof (cases j)
      case (Suc i)
      with that k(3) have "cond (t + after + int i * after)" by simp
      then show ?thesis by (simp add: Suc algebra_simps)
    qed (use True in simp)
    with True k show ?thesis
      by (intro exI [of _ "Suc k"]) (simp add: check_loop.simps [of cond after t] algebra_simps)
  qed
qed

text \<open>
  C32. The idle watch of a wrapper. Let \<open>lastComm t\<close> be the time of the last communication as
  known at time \<open>t\<close>, never later than \<open>t\<close> and never later than some \<open>L\<close>. With an idle duration
  \<open>d > 0\<close> the watch closes the wrapper, once it has been idle for at least \<open>d\<close>, and before it
  has been idle for \<open>2 d\<close> (or at once, if it was idle when the watch began). A negative duration
  is a panic.
\<close>

theorem idle_watch_fires:
  assumes "\<And>t. lastComm t \<le> L" and "\<And>t u. t \<le> u \<Longrightarrow> lastComm t \<le> lastComm u"
  shows "(0 < d \<longrightarrow> (\<exists>T. CheckAndDoWithDuration (\<lambda>t. t < lastComm t + d) d t0 = Ret (Some T) \<and> t0 \<le> T
            \<and> lastComm T + d \<le> T \<and> (T = t0 \<or> T < lastComm T + 2 * d)))
    \<and> (d < 0 \<longrightarrow> (\<exists>p. CheckAndDoWithDuration (\<lambda>t. t < lastComm t + d) d t0 = Panic p))"
proof (intro conjI impI)
  assume d: "0 < d"
  have "\<not> t < lastComm t + d" if "L + d \<le> t" for t
    using assms(1) [of t] that by linarith
  from check_loop_ends [OF d, of "L + d" "\<lambda>t. t < lastComm t + d", OF this] obtain k where
    k: "check_loop (\<lambda>t. t < lastComm t + d) d t0 = Some (t0 + int k * d)"
      "\<not> t0 + int k * d < lastComm (t0 + int k * d) + d"
      "\<forall>j < k. t0 + int j * d < lastComm (t0 + int j * d) + d" by blast
  have "k = 0 \<or> t0 + int k * d < lastComm (t0 + int k * d) + 2 * d"
  proof (cases k)
    case (Suc j)
    have "t0 + int j * d < lastComm (t0 + int j * d) + d" using k(3) Suc by simp
    moreover have "lastComm (t0 + int j * d) \<le> lastComm (t0 + int k * d)"
      using d by (intro assms(2)) (simp add: Suc algebra_simps)
    ultimately show ?thesis by (simp add: Suc algebra_simps)
  qed simp
  with k d show "\<exists>T. CheckAndDoWithDuration (\<lambda>t. t < lastComm t + d) d t0 = Ret (Some T) \<and> t0 \<le> T
      \<and> lastComm T + d \<le> T \<and> (T = t0 \<or> T < lastComm T + 2 * d)"
    by (intro exI [of _ "t0 + int k * d"]) (auto simp: CheckAndDoWithDuration_def)
qed (simp add: CheckAndDoWithDuration_def)

theorem idle_watch_fires_witness:
  "(\<exists>T. CheckAndDoWithDuration (\<lambda>t. t < (if t < 7 then 0 else 7) + 10) 10 0 = Ret (Some T) \<and> 17 \<le> T \<and> T < 27)
   \<and> (\<exists>p. CheckAndDoWithDuration (\<lambda>t. t < (if t < 7 then 0 else 7) + - 1) (- 1) 0 = Panic p)"
proof -
  let ?last = "\<lambda>t :: int. (if t < 7 then 0 else 7) :: int"
  have *: "(0 < d \<longrightarrow> (\<exists>T. CheckAndDoWithDuration (\<lambda>t. t < ?last t + d) d 0 = Ret (Some T) \<and> 0 \<le> T
            \<and> ?last T + d \<le> T \<and> (T = 0 \<or> T < ?last T + 2 * d)))
    \<and> (d < 0 \<longrightarrow> (\<exists>p. CheckAndDoWithDuration (\<lambda>t. t < ?last t + d) d 0 = Panic p))" for d
    by (rule idle_watch_fires [of ?last 7 d 0]) auto
  from * [of 10] obtain T where T: "CheckAndDoWithDuration (\<lambda>t. t < ?last t + 10) 10 0 = Ret (Some T)" "0 \<le> T"
      "?last T + 10 \<le> T" "T = 0 \<or> T < ?last T + 2 * 10" by auto
  then have "17 \<le> T" "T < 27" by (auto split: if_splits)
  with T(1) * [of "- 1"] show ?thesis by auto
qed

end
