(* ===== verification/Nan0_Discovery_Claims.thy ===== *)
theory Nan0_Discovery_Claims
  imports Nan0_Discovery Nan0_Messaging
begin

text \<open>What a client finds out about a server, and how discovery fails.\<close>

text \<open>
  C31. What the strict protocol check accepts, whatever order Go iterates over the builder's map in: a
  definition whose list is as long as the builder's types are many, the handshake's two message types
  aside, and names only types of the builder. So a definition that lists no type twice matches exactly
  when its types are those the builder has registered. One that lists a type twice may match as well
  (\<^verbatim>\<open>[a, a]\<close> for a builder with \<^verbatim>\<open>a\<close> and \<^verbatim>\<open>b\<close>), and when it does, some type of the builder is not supported.
\<close>

theorem protocols_match_iff_same_types:
  assumes "registry_inv P bb" and "lists_map (messageIdentMap bb) kvs"
  shows "(allProtocolsMatch P kvs d \<longleftrightarrow>
        length (md_SupportedMessageTypes d) = card (own_types P bb) \<and> set (md_SupportedMessageTypes d) \<subseteq> own_types P bb)
    \<and> (if distinct (md_SupportedMessageTypes d)
       then allProtocolsMatch P kvs d \<longleftrightarrow> set (md_SupportedMessageTypes d) = own_types P bb
       else allProtocolsMatch P kvs d \<longrightarrow> set (md_SupportedMessageTypes d) \<subset> own_types P bb)"
proof -
  let ?ts = "md_SupportedMessageTypes d" and ?own = "own_types P bb"
  note n = names_of_builder [OF assms(1,2)]
  have len: "length (getIdentityMessageNames P kvs) = card ?own"
    using n by (metis distinct_card)
  have fin: "finite ?own" using n by (metis List.finite_set)
  have *: "allProtocolsMatch P kvs d \<longleftrightarrow> length ?ts = card ?own \<and> set ?ts \<subseteq> ?own"
    using n len by (auto simp: allProtocolsMatch_def Let_def list_all_iff)
  moreover have "set ?ts \<noteq> ?own" if "\<not> distinct ?ts" "length ?ts = card ?own"
    using that by (metis card_distinct)
  moreover have "length ?ts = card ?own \<and> set ?ts \<subseteq> ?own \<longleftrightarrow> set ?ts = ?own" if "distinct ?ts"
    using distinct_card [OF that] card_subset_eq [OF fin, of "set ?ts"] by auto
  ultimately show ?thesis by auto
qed

definition shop_server :: "(raw_message, unit) baseBuilder" where
  "shop_server = AddMessageIdentities raw_api
     [Some (RawMessage CHR ''a'' '''' []), Some (RawMessage CHR ''b'' '''' [])]
     (NewNanoBuilder (Service_zero\<lparr>HostName := ''h'', Port := 80, Uri := ''/u''\<rparr>))"

definition shop_entries :: "(int \<times> raw_message option) list" where
  "shop_entries =
     [(uint (hashString ''b''), Some (RawMessage CHR ''b'' '''' [])),
      (uint (hashString ''a''), Some (RawMessage CHR ''a'' '''' []))]"

lemma shop_server_inv: "registry_inv raw_api shop_server"
  by (simp add: shop_server_def NewNanoBuilder_def registry_inv_AddMessageIdentities registry_inv_initialize)

lemma shop_names: "hashString ''a'' \<noteq> hashString ''b''"
  by code_simp

lemma shop_server_map:
  "messageIdentMap shop_server =
     [uint (hashString ''a'') \<mapsto> Some (RawMessage CHR ''a'' '''' []),
      uint (hashString ''b'') \<mapsto> Some (RawMessage CHR ''b'' '''' [])]"
  by (simp add: shop_server_def AddMessageIdentities_def addSingleIdentity_def NewNanoBuilder_def
      initialize_def zero_baseBuilder_def Let_def)

lemma shop_entries_lists: "lists_map (messageIdentMap shop_server) shop_entries"
  using shop_names
  by (auto simp: lists_map_def shop_entries_def shop_server_map fun_eq_iff dest: unsigned_word_eqI)

theorem protocols_match_iff_same_types_witness:
  "allProtocolsMatch raw_api shop_entries \<lparr>md_ConnectionInfo = None, md_SupportedMessageTypes = [''a'', ''b'']\<rparr>
   \<and> \<not> allProtocolsMatch raw_api shop_entries \<lparr>md_ConnectionInfo = None, md_SupportedMessageTypes = [''a'', ''c'']\<rparr>
   \<and> allProtocolsMatch raw_api shop_entries \<lparr>md_ConnectionInfo = None, md_SupportedMessageTypes = [''a'', ''a'']\<rparr>"
proof -
  have own: "own_types raw_api shop_server = {''a'', ''b''}"
    using set_names_own [OF shop_entries_lists, of raw_api]
    by (auto simp: getIdentityMessageNames_def shop_entries_def Let_def)
  show ?thesis
    using protocols_match_iff_same_types [OF shop_server_inv shop_entries_lists,
        of "\<lparr>md_ConnectionInfo = None, md_SupportedMessageTypes = [''a'', ''b'']\<rparr>"]
      protocols_match_iff_same_types [OF shop_server_inv shop_entries_lists,
        of "\<lparr>md_ConnectionInfo = None, md_SupportedMessageTypes = [''a'', ''c'']\<rparr>"]
      protocols_match_iff_same_types [OF shop_server_inv shop_entries_lists,
        of "\<lparr>md_ConnectionInfo = None, md_SupportedMessageTypes = [''a'', ''a'']\<rparr>"]
    by (simp add: own doubleton_eq_iff)
qed

text \<open>
  C30. What a server publishes, a client with the same message types finds: the text record of
  the published service decodes to the server's definition, which passes the strict check, and
  the client's service takes over the server's port and host name, and its URI when the server
  is a websocket server.
\<close>

theorem published_service_is_found:
  assumes "md_laws M"
    and "makeMdnsServer M newService newServer P kvs sb ws = Ret (published, err)"
    and "registry_inv P sb" and "lists_map (messageIdentMap sb) kvs"
    and "registry_inv P cb" and "lists_map (messageIdentMap cb) kvs'"
    and "own_types P cb = own_types P sb"
    and "InfoFields entry \<noteq> []" and "mdns_TXT published = [Info entry]"
  shows "\<exists>d. discover_entry M entry = Some d \<and>
    processMdef P kvs' s d strict =
      Ret (None, s\<lparr>Port := Port (ns sb), HostName := HostName (ns sb), Uri := if ws then Uri (ns sb) else Uri s\<rparr>)"
proof -
  let ?d = "mdnsDefinition P kvs (ns sb) ws"
  from assms(2) obtain bs where bs: "md_Marshal M ?d = Inr bs" and "mdns_TXT published = [b64_Encode bs]"
    by (auto simp: makeMdnsServer_def go_bind_Ret_iff Let_def)
  with assms(9) have info: "Info entry = b64_Encode bs" by simp
  have d: "discover_entry M entry = Some ?d"
    using assms(1,8) bs by (simp add: discover_entry_def info b64_roundtrip md_laws_def)
  note n = names_of_builder [OF assms(3,4)] names_of_builder [OF assms(5,6)]
  have "length (getIdentityMessageNames P kvs') = length (getIdentityMessageNames P kvs)"
    using n assms(7) by (metis distinct_card)
  then have m: "allProtocolsMatch P kvs' ?d"
    using n assms(7) by (simp add: allProtocolsMatch_def Let_def mdnsDefinition_def list_all_iff)
  have "processMdef P kvs' s ?d strict =
      Ret (None, s\<lparr>Port := Port (ns sb), HostName := HostName (ns sb), Uri := if ws then Uri (ns sb) else Uri s\<rparr>)"
    using m by (cases s) (simp add: processMdef_def populateServiceFromMDef_def mdnsDefinition_def Let_def)
  with d show ?thesis by blast
qed

theorem published_service_is_found_witness:
  "\<exists>M published entry d.
     makeMdnsServer M (\<lambda>x. None) (\<lambda>x. None) raw_api shop_entries shop_server True = Ret (published, None)
   \<and> mdns_TXT published = [Info entry] \<and> discover_entry M entry = Some d
   \<and> processMdef raw_api shop_entries Service_zero d True =
       Ret (None, Service_zero\<lparr>Port := 80, HostName := ''h'', Uri := ''/u''\<rparr>)"
proof -
  let ?d = "mdnsDefinition raw_api shop_entries (ns shop_server) True"
  let ?M = "\<lparr>md_Marshal = (\<lambda>d. if d = ?d then Inr [1, 2, 3, 4] else Inl EOF), md_Unmarshal = (\<lambda>bs. Inr ?d)\<rparr>"
  have laws: "md_laws ?M" by (simp add: md_laws_def)
  obtain p where p: "makeMdnsServer ?M (\<lambda>x. None) (\<lambda>x. None) raw_api shop_entries shop_server True = Ret (p, None)"
    and t: "mdns_TXT p = [b64_Encode [1, 2, 3, 4]]"
    by (simp add: makeMdnsServer_def Let_def)
  let ?e = "\<lparr>InfoFields = [''x''], Info = b64_Encode [1, 2, 3, 4]\<rparr>"
  have e: "InfoFields ?e \<noteq> []" "mdns_TXT p = [Info ?e]" using t by simp_all
  have f: "Port (ns shop_server) = 80" "HostName (ns shop_server) = ''h''" "Uri (ns shop_server) = ''/u''"
    by (simp_all add: shop_server_def NewNanoBuilder_def initialize_def)
  from published_service_is_found [OF laws p shop_server_inv shop_entries_lists shop_server_inv
      shop_entries_lists refl e, of Service_zero True]
  obtain d where d: "discover_entry ?M ?e = Some d" "processMdef raw_api shop_entries Service_zero d True =
      Ret (None, Service_zero\<lparr>Port := 80, HostName := ''h'', Uri := ''/u''\<rparr>)"
    unfolding f by auto
  show ?thesis
    by (rule exI [of _ ?M], rule exI [of _ p], rule exI [of _ ?e], rule exI [of _ d], intro conjI p e d)
qed

text \<open>
  Discovery never returns an error: when the context has ended, the channel is closed, the
  wait times out, the strict check fails or the definition has no connection information, the
  call of the factory panics, although it declares an error result and defers a recovery.
\<close>

lemma discovery_failures_panic:
  assumes "getNextClosed \<or> event = DnsClosed \<or> event = TimedOut \<or>
    (\<exists>d. event = Found d \<and> (strict \<and> \<not> allProtocolsMatch P kvs d \<or> md_ConnectionInfo d = None))"
  shows "\<exists>p. dns_factory P kvs getNextClosed event clientBuilder strict s = Panic p"
  using assms
  by (cases event)
    (auto simp: dns_factory_def check_processed_def processMdef_def populateServiceFromMDef_def)

end
