(* ===== verification/Nan0_WsServer.thy ===== *)
theory Nan0_WsServer
  imports Nan0_Ws_Claims Nan0_Accepting Nan0_Listener_Claims
begin

text \<open>
  Making websocket clients and servers: \<open>wrapWsClient\<close> and \<open>buildWebsocketServer\<close> of
  \<^verbatim>\<open>nan0WebsocketBuilder.go\<close>, with the handler that checks origins and adds connections.

  Dialling, upgrading a request and parsing a URL belong to other packages and are parameters.
  A request is what the handler reads of it: its header, and the host that it was sent to.
  Go's HTTP server takes the \<^verbatim>\<open>Host\<close> header out of \<^verbatim>\<open>Header\<close> and puts it in the field
  \<^verbatim>\<open>Host\<close> (documented for \<^verbatim>\<open>http.Request\<close>): \<open>served\<close> says so of a request.
\<close>

section \<open>The client\<close>

text \<open>
  The URL that is dialled; \<open>dial\<close> gets the TLS configuration too, if there is one. Taking
  \<^verbatim>\<open>&wsb.tls.Config\<close> of a builder without a configuration is a nil dereference. Nothing recovers
  the panic of \<open>checkError\<close> here.
\<close>

definition dial_url :: "string \<Rightarrow> service \<Rightarrow> url" where
  "dial_url scheme s =
     \<lparr>url_Scheme = scheme, url_Host = composeTcpAddress (HostName s) (Port s), url_Path = Uri s\<rparr>"

definition wrapWsClient ::
    "(tls_config option \<Rightarrow> url \<Rightarrow> go_error option) \<Rightarrow> int \<Rightarrow> ('m, 'r) websocketBuilder \<Rightarrow> ('m, 'r) baseBuilder \<Rightarrow>
     (ws_start option \<times> go_error option) go" where
  "wrapWsClient dial t0 wsb bb =
     go_bind (if secure bb then
                (case tls wsb of
                   None \<Rightarrow> Panic nil_deref
                 | Some config \<Rightarrow> Ret (dial (Some config) (dial_url ''wss'' (ns bb))))
              else Ret (dial None (dial_url ''ws'' (ns bb)))) (\<lambda>err.
     go_bind (checkError err) (\<lambda>_. Ret (wrapConnectionWs t0 bb)))"

definition BuildWebsocketClient ::
    "(string \<Rightarrow> go_error + url) \<Rightarrow> 'm proto_api \<Rightarrow> (tls_config option \<Rightarrow> url \<Rightarrow> go_error option) \<Rightarrow> int \<Rightarrow>
     ('m, 'r) build_arg list \<Rightarrow> ('m, 'r) websocketBuilder \<Rightarrow> (ws_start option \<times> go_error option) go" where
  "BuildWebsocketClient parse P dial t0 opts wsb =
     go_bind (ws_buildOpts parse P opts wsb) (\<lambda>wsb. wrapWsClient dial t0 wsb (base wsb))"

definition BuildWebsocketDNS ::
    "(string \<Rightarrow> go_error + url) \<Rightarrow> 'm proto_api \<Rightarrow> (('m, 'r) baseBuilder \<Rightarrow> (int \<times> 'm option) list) \<Rightarrow>
     (tls_config option \<Rightarrow> url \<Rightarrow> go_error option) \<Rightarrow> int \<Rightarrow> ('m, 'r) build_arg list \<Rightarrow> ('m, 'r) websocketBuilder \<Rightarrow>
     (bool \<Rightarrow> dns_event \<Rightarrow> bool \<Rightarrow> (ws_start option \<times> go_error option) go) go" where
  "BuildWebsocketDNS parse P entries dial t0 opts wsb =
     go_bind (ws_buildOpts parse P opts wsb) (\<lambda>wsb. Ret (buildDNS P entries (wrapWsClient dial t0 wsb) (base wsb)))"

section \<open>Origins\<close>

text \<open>
  A single origin set by hand is parsed, and what comes out is appended when there is an error:
  a nil URL. (A URL that parses is dropped; nothing in the package sets the field.)
\<close>

definition server_origins ::
    "(string \<Rightarrow> go_error + url) \<Rightarrow> ('m, 'r) websocketBuilder \<Rightarrow> url option list" where
  "server_origins parse wsb =
     map Some (origins wsb) @
     (if origin wsb \<noteq> '''' then (case parse (origin wsb) of Inl err \<Rightarrow> [None] | Inr u \<Rightarrow> []) else [])"

record ws_request =
  req_Header :: "string \<rightharpoonup> string"
  req_Host :: string

definition Header_Get :: "ws_request \<Rightarrow> string \<Rightarrow> string" where
  "Header_Get r k = (case req_Header r k of None \<Rightarrow> '''' | Some v \<Rightarrow> v)"

definition served :: "ws_request \<Rightarrow> bool" where
  "served r \<longleftrightarrow> req_Header r ''Host'' = None"

fun CheckOrigin :: "url option list \<Rightarrow> ws_request \<Rightarrow> bool go" where
  "CheckOrigin [] r = Ret False"
| "CheckOrigin (None # vs) r = Panic nil_deref"
| "CheckOrigin (Some v # vs) r = (if url_Host v = Header_Get r ''Host'' then Ret True else CheckOrigin vs r)"

section \<open>The server\<close>

text \<open>
  The handler, for a request that becomes the connection \<open>a\<close>: a connection that cannot be
  wrapped is added as a nil wrapper. Unlike the TCP accept loop it has no maximum.
\<close>

definition ws_handler ::
    "url option list \<Rightarrow> go_error option \<Rightarrow> int \<Rightarrow> ('m, 'r) baseBuilder \<Rightarrow> nat \<Rightarrow> ws_request \<Rightarrow>
     ws_nan0 nano_server \<Rightarrow> ws_nan0 nano_server go" where
  "ws_handler os upgradeErr t0 bb a r server =
     go_bind (CheckOrigin os r) (\<lambda>ok.
     if \<not> ok then Ret server
     else (case upgradeErr of
             Some err \<Rightarrow> Ret server
           | None \<Rightarrow>
               (case fst (wrapConnectionWs t0 bb) of
                  Some st \<Rightarrow> Ret (AddConnection (Some a) (server\<lparr>heap := (heap server)(a := ws_wrapper st)\<rparr>))
                | None \<Rightarrow> Ret (AddConnection None server))))"

text \<open>
  \<open>buildWebsocketServer\<close>: \<open>mdns\<close> is what publishing the server reports. The multiplexer refuses
  an empty pattern with a panic.
\<close>

definition makeMdnsServerWs ::
    "md_api \<Rightarrow> (mdns_service \<Rightarrow> go_error option) \<Rightarrow> (mdns_service \<Rightarrow> go_error option) \<Rightarrow>
     'm proto_api \<Rightarrow> (int \<times> 'm option) list \<Rightarrow> ('m, 'r) websocketBuilder \<Rightarrow> (mdns_service \<times> go_error option) go" where
  "makeMdnsServerWs M newService newServer P kvs wsb =
     makeMdnsServer M newService newServer P kvs (base wsb) (websocketFlag wsb)"

definition mux_Handle :: "string \<Rightarrow> unit go" where
  "mux_Handle pattern = (if pattern = '''' then Panic (PanicStr ''http: invalid pattern'') else Ret ())"

definition buildWebsocketServer_body ::
    "go_error option go \<Rightarrow> (nat \<Rightarrow> 'w) \<Rightarrow> ('m, 'r) websocketBuilder \<Rightarrow> ('w nano_server option, unit) act" where
  "buildWebsocketServer_body mdns h wsb =
     act_bind (act_lift (if serviceDiscovery (base wsb) then go_bind mdns checkError else Ret ())) (\<lambda>_.
     act_bind (\<lambda>server. (Ret (), Some (new_server h (base wsb)))) (\<lambda>_.
     act_bind (act_lift (mux_Handle (Service_GetUri (Some (ns (base wsb)))))) (\<lambda>_.
     (\<lambda>server. (Ret (), map_option (\<lambda>s. s\<lparr>wsServer := True\<rparr>) server)))))"

definition buildWebsocketServer ::
    "go_error option go \<Rightarrow> (nat \<Rightarrow> 'w) \<Rightarrow> ('m, 'r) websocketBuilder \<Rightarrow>
     ('w nano_server option \<times> go_error option) go" where
  "buildWebsocketServer mdns h wsb =
     (case buildWebsocketServer_body mdns h wsb None of
        (Ret u, server) \<Rightarrow> Ret (server, None)
      | (Panic p, server) \<Rightarrow>
          (case p of
             PanicOther v \<Rightarrow> Ret (server, None)
           | PanicErr e \<Rightarrow> if server = None then Panic nil_deref else Ret (None, Some e)
           | PanicStr s \<Rightarrow> if server = None then Panic nil_deref else Ret (None, Some (ErrText s))))"

text \<open>
  What the new server's goroutines do: the purge at its interval, as on TCP, and serving. Serving
  asks for TLS when there is a configuration, whatever \<open>secure\<close> says, and only logs its error.
\<close>

datatype serve_call = ListenAndServe | ListenAndServeTLS string string

definition serve_goroutine :: "('m, 'r) websocketBuilder \<Rightarrow> serve_call" where
  "serve_goroutine wsb =
     (case tls wsb of
        None \<Rightarrow> ListenAndServe
      | Some config \<Rightarrow> ListenAndServeTLS (CertFile config) (KeyFile config))"

definition BuildWebsocketServer ::
    "(string \<Rightarrow> go_error + url) \<Rightarrow> 'm proto_api \<Rightarrow> (('m, 'r) websocketBuilder \<Rightarrow> go_error option go) \<Rightarrow> (nat \<Rightarrow> 'w) \<Rightarrow>
     ('m, 'r) build_arg list \<Rightarrow> ('m, 'r) websocketBuilder \<Rightarrow> ('w nano_server option \<times> go_error option) go" where
  "BuildWebsocketServer parse P mdns h opts wsb =
     go_bind (ws_buildOpts parse P opts wsb) (\<lambda>wsb. buildWebsocketServer (mdns wsb) h wsb)"

section \<open>What the websocket server lets in\<close>

lemma CheckOrigin_served:
  "served r \<Longrightarrow> CheckOrigin (map Some us) r = Ret (\<exists>u \<in> set us. url_Host u = '''')"
  by (induction us) (auto simp: served_def Header_Get_def)

text \<open>
  C40. The origin check does not look at the request: the header it reads is never there. A server
  takes a connection exactly when one of the allowed origins is a URL without a host, and then
  takes it from everyone; with ordinary origins, or none, it takes no connection at all. There is
  no maximum: whatever number of connections is listed, the handler adds one more.
\<close>

theorem ws_server_lets_in:
  assumes "served r" and "origin wsb = ''''"
    and "0 \<le> receiveBuffer (base wsb)" and "0 \<le> sendBuffer (base wsb)" and "\<not> IsShutdown s"
  shows "case ws_handler (server_origins parse wsb) None t (base wsb) a r s of
      Ret s' \<Rightarrow>
        (if \<exists>u \<in> set (origins wsb). url_Host u = ''''
         then GetAllConnections s' = GetAllConnections s @ [a] \<and> \<not> Ws_IsClosed (heap s' a)
         else s' = s)
    | Panic p \<Rightarrow> False"
proof -
  have "\<exists>st. fst (wrapConnectionWs t (base wsb)) = Some st \<and> \<not> Ws_IsClosed (ws_wrapper st)"
    using assms(3,4) by (simp add: wrapConnectionWs_def makeReceiveChannelFromBuilder_def
        makeSendChannelFromBuilder_def make_chan_def new_ws_nan0_def Ws_IsClosed_def)
  with assms show ?thesis
    by (auto simp: ws_handler_def server_origins_def CheckOrigin_served AddConnection_def
        GetAllConnections_def IsShutdown_def writeConnListElement_def)
qed

definition shop_origin :: url where
  "shop_origin = \<lparr>url_Scheme = ''https'', url_Host = ''shop.example'', url_Path = ''''\<rparr>"

definition shop_ws :: "(raw_message, unit) websocketBuilder" where
  "shop_ws = AppendOrigins [shop_origin] (NewWebsocketBuilder Service_zero)"

theorem ws_server_lets_in_witness:
  "case ws_handler (server_origins (\<lambda>x. Inl EOF) shop_ws) None 0 (base shop_ws) 1
      \<lparr>req_Header = Map.empty, req_Host = ''shop.example''\<rparr> (new_server (\<lambda>a. new_ws_nan0 ''svc'' 0) (base shop_ws)) of
     Ret s' \<Rightarrow> s' = new_server (\<lambda>a. new_ws_nan0 ''svc'' 0) (base shop_ws)
   | Panic p \<Rightarrow> False"
proof -
  have f: "origin shop_ws = ''''" "origins shop_ws = [shop_origin]"
    "receiveBuffer (base shop_ws) = 0" "sendBuffer (base shop_ws) = 0"
    by (simp_all add: shop_ws_def AppendOrigins_def NewWebsocketBuilder_def initialize_def zero_baseBuilder_def)
  show ?thesis
    using ws_server_lets_in [where r = "\<lparr>req_Header = Map.empty, req_Host = ''shop.example''\<rparr>"
        and wsb = shop_ws and s = "new_server (\<lambda>a. new_ws_nan0 ''svc'' 0) (base shop_ws)"
        and parse = "\<lambda>x. Inl EOF" and t = 0 and a = 1]
    by (simp add: served_def f shop_origin_def new_server_def IsShutdown_def split: go.splits)
qed

section \<open>Failures\<close>

text \<open>
  A failed dial is an error of the TCP client and a panic of the websocket client. A websocket
  server never reports that it cannot listen; its only error is an empty URI.
\<close>

lemma dial_failures:
  "buildTcpClient E (Some err) rsaEncrypt reply tp bb = Some ((None, Some err), False)"
  "\<not> secure (base wsb) \<Longrightarrow> dial None (dial_url ''ws'' (ns (base wsb))) = Some err \<Longrightarrow>
     wrapWsClient dial t0 wsb (base wsb) = Panic (PanicErr err)"
  by (simp_all add: buildTcpClient_def wrapWsClient_def)

lemma buildWebsocketServer_result:
  assumes "\<not> serviceDiscovery (base wsb) \<or> mdns = Ret None"
  shows "buildWebsocketServer mdns h wsb =
    (if Uri (ns (base wsb)) = '''' then Ret (None, Some (ErrText ''http: invalid pattern''))
     else Ret (Some ((new_server h (base wsb))\<lparr>wsServer := True\<rparr>), None))"
  using assms
  by (auto simp: buildWebsocketServer_def buildWebsocketServer_body_def act_bind_def act_lift_def
      mux_Handle_def Service_GetUri_def)

text \<open>
  A websocket server whose builder asks for security but has no certificates serves in the clear,
  without an error; the client of the same builder panics.
\<close>

lemma secure_without_certificates:
  "tls wsb = None \<Longrightarrow> serve_goroutine wsb = ListenAndServe"
  "tls wsb = None \<Longrightarrow> secure (base wsb) \<Longrightarrow> wrapWsClient dial t0 wsb (base wsb) = Panic nil_deref"
  by (simp_all add: serve_goroutine_def wrapWsClient_def)

section \<open>The life of a websocket server\<close>

text \<open>
  The handler up to its call of \<open>AddConnection\<close>: no call, a call with a nil wrapper, or with a new
  one. \<^verbatim>\<open>net/http\<close> runs the handler of every request in a goroutine of its own, and recovers its panics.
\<close>

definition ws_handler_wrap ::
    "url option list \<Rightarrow> go_error option \<Rightarrow> int \<Rightarrow> ('m, 'r) baseBuilder \<Rightarrow> ws_request \<Rightarrow> ws_nan0 option option go" where
  "ws_handler_wrap os upgradeErr t0 bb r =
     go_bind (CheckOrigin os r) (\<lambda>ok.
     if \<not> ok then Ret None
     else (case upgradeErr of
             Some err \<Rightarrow> Ret None
           | None \<Rightarrow> Ret (Some (map_option ws_wrapper (fst (wrapConnectionWs t0 bb))))))"

lemma ws_handler_parts:
  "ws_handler os upgradeErr t bb a r server =
     go_bind (ws_handler_wrap os upgradeErr t bb r) (\<lambda>call. Ret (case call of
         None \<Rightarrow> server
       | Some None \<Rightarrow> AddConnection None server
       | Some (Some n) \<Rightarrow> AddConnection (Some a) (server\<lparr>heap := (heap server)(a := n)\<rparr>)))"
  by (cases "CheckOrigin os r")
    (auto simp: ws_handler_def ws_handler_wrap_def split: option.splits)

text \<open>
  Requests come in goroutines of their own, interleaved with everything else that happens at a
  server; a request that is refused, or whose handler panics, leaves the server alone.
\<close>

inductive ws_serving_step ::
    "url option list \<Rightarrow> ('m, 'r) baseBuilder \<Rightarrow> NanoServiceWrapper accepting \<Rightarrow> NanoServiceWrapper accepting \<Rightarrow> bool"
  for os :: "url option list" and bb :: "('m, 'r) baseBuilder" where
  w_request: "at_rest s i \<Longrightarrow> served r \<Longrightarrow> ws_handler_wrap os upgradeErr t bb r = Ret (Some (Some n)) \<Longrightarrow> a \<notin> made s \<Longrightarrow>
     ws_serving_step os bb s (make_wrapper i a (WsWrapper n) s)"
| w_nil: "at_rest s i \<Longrightarrow> served r \<Longrightarrow> ws_handler_wrap os upgradeErr t bb r = Ret (Some None) \<Longrightarrow>
     ws_serving_step os bb s (make_nil i s)"
| w_call: "calling_step Wrapper_Close Wrapper_IsClosed s t \<Longrightarrow> ws_serving_step os bb s t"

definition accepting_with :: "'w nano_server \<Rightarrow> 'w accepting" where
  "accepting_with server =
     \<lparr>site = \<lparr>sv = server, adders = (\<lambda>i. AIdle), shutters = (\<lambda>i. HIdle), present = {}, late = {}, entered = False\<rparr>,
      calls = (\<lambda>i. None), made = {}, turned_away = {}\<rparr>"

lemma ws_serving_accepting: "ws_serving_step os bb s t \<Longrightarrow> accepting_step Wrapper_Close Wrapper_IsClosed s t"
  by (induction rule: ws_serving_step.induct) (auto intro: c_made c_nil c_call)

text \<open>A server that was built is empty.\<close>

lemma built_ws_server_start:
  assumes "buildWebsocketServer mdns h wsb = Ret (Some server, err)"
  shows "accepting_start (accepting_with server)"
proof -
  have "connectionsList server = [] \<and> allConnectionsList server = [] \<and> \<not> IsShutdown server"
    using assms
    by (auto simp: buildWebsocketServer_def buildWebsocketServer_body_def act_bind_def act_lift_def new_server_def
        IsShutdown_def split: prod.splits go.splits panic_value.splits if_splits option.splits)
  then show ?thesis by (simp add: accepting_start_def accepting_with_def serving_start_def)
qed

text \<open>What the handler makes, and that closing it leaves it what it is.\<close>

lemma wrapConnectionWs_wrapper:
  "fst (wrapConnectionWs t bb) = Some st \<Longrightarrow> ws_wrapper st = new_ws_nan0 (ServiceName (ns bb)) t"
  by (cases "makeReceiveChannelFromBuilder bb"; cases "makeSendChannelFromBuilder bb")
    (auto simp: wrapConnectionWs_def recoverPanic_def split: panic_value.splits)

lemma ws_handler_wrap_name:
  "ws_handler_wrap os upgradeErr t bb r = Ret (Some (Some n)) \<Longrightarrow> Ws_GetServiceName n = ServiceName (ns bb)"
  by (auto simp: ws_handler_wrap_def go_bind_Ret_iff Ws_GetServiceName_def new_ws_nan0_def
      dest: wrapConnectionWs_wrapper split: if_splits option.splits)

definition of_service :: "string \<Rightarrow> NanoServiceWrapper \<Rightarrow> bool" where
  "of_service name x \<longleftrightarrow> (\<exists>n. x = WsWrapper n \<and> Ws_GetServiceName n = name)"

lemma of_service_Close: "Wrapper_Close x = Ret y \<Longrightarrow> of_service name x \<Longrightarrow> of_service name y"
  by (auto simp: of_service_def go_bind_Ret_iff Ws_Close_Ret Ws_GetServiceName_def split: if_splits)

lemma working_of_service:
  assumes "working_step Wrapper_Close Wrapper_IsClosed t t'" and "of_service name (heap (sv t) a)"
  shows "of_service name (heap (sv t') a)"
  using assms(1)
proof (cases rule: working_step.cases)
  case (h_finish i env r s')
  with assms(2) finish_shutdown_keeps [OF h_finish(3)] show ?thesis by simp
qed (use assms(2) in \<open>auto simp: put_element_def put_all_element_def intro: of_service_Close split: if_splits\<close>)

lemma calling_of_service:
  "calling_step Wrapper_Close Wrapper_IsClosed s t \<Longrightarrow> made t = made s
     \<and> (of_service name (heap (sv (site s)) a) \<longrightarrow> of_service name (heap (sv (site t)) a))"
  by (induction rule: calling_step.induct) (auto intro: working_of_service)

definition ws_serving_inv :: "url option list \<Rightarrow> ('m, 'r) baseBuilder \<Rightarrow> NanoServiceWrapper accepting \<Rightarrow> bool" where
  "ws_serving_inv os bb s \<longleftrightarrow>
     (\<forall>a \<in> made s. of_service (ServiceName (ns bb)) (heap (sv (site s)) a))
   \<and> (made s \<noteq> {} \<longrightarrow> (\<exists>r. served r \<and> CheckOrigin os r = Ret True))"

lemma ws_serving_inv_step: "ws_serving_step os bb s t \<Longrightarrow> ws_serving_inv os bb s \<Longrightarrow> ws_serving_inv os bb t"
proof (induction rule: ws_serving_step.induct)
  case (w_request s i r upgradeErr t n a)
  then have "CheckOrigin os r = Ret True" by (auto simp: ws_handler_wrap_def go_bind_Ret_iff split: if_splits)
  with w_request(2,5) ws_handler_wrap_name [OF w_request(3)] show ?case
    by (auto simp: ws_serving_inv_def make_wrapper_def of_service_def)
next
  case (w_nil s i r upgradeErr t)
  then show ?case by (simp add: ws_serving_inv_def make_nil_def)
next
  case (w_call s t)
  with calling_of_service [OF w_call(1)] show ?case by (auto simp: ws_serving_inv_def)
qed

interpretation ws_serving: machine_invariant "\<lambda>s. s = accepting_with server" "ws_serving_step os bb" "ws_serving_inv os bb"
  for server os bb
  by unfold_locales (simp add: ws_serving_inv_def accepting_with_def, rule ws_serving_inv_step)

lemma ws_serving_reach:
  assumes "buildWebsocketServer mdns h wsb = Ret (Some server, err)"
    and "reach (\<lambda>s. s = accepting_with server) (ws_serving_step os bb) s"
  shows "accepting_inv Wrapper_IsClosed s"
  using assms(2)
proof (induction rule: reach.induct)
  case (reach_start s)
  with built_ws_server_start [OF assms(1)] show ?case by (simp add: accepting_start_inv)
next
  case (reach_step s t)
  from any_wrapper.accepting_inv_step [OF ws_serving_accepting [OF reach_step(2)] reach_step(3)] show ?case .
qed

text \<open>
  C29. The life of a websocket server, from its building on. Requests come in goroutines of their own;
  their handlers' parts interleave with one another, with \<open>Shutdown\<close>, the purge, the stream and the
  wrappers' closing. In every reachable state: every wrapper that a handler has made is a websocket
  wrapper with the builder's service name, and it is closed, or its handler is about to add it or
  adding it, or \<open>GetAllConnections\<close> returns it, or somebody has entered \<open>Shutdown\<close> and it was written
  after that or its call was refused; nothing else is listed; and if every allowed origin has a
  host, no request that Go's HTTP server hands over makes a wrapper at all.
\<close>

theorem websocket_server_life:
  assumes "buildWebsocketServer mdns h wsb = Ret (Some server, err)" and "origin wsb = ''''"
    and "reach (\<lambda>s. s = accepting_with server) (ws_serving_step (server_origins parse wsb) (base wsb)) s"
  shows "(\<forall>a \<in> made s. (\<exists>n. heap (sv (site s)) a = WsWrapper n \<and> Ws_GetServiceName n = ServiceName (ns (base wsb)))
        \<and> (Wrapper_IsClosed (heap (sv (site s)) a) \<or> a \<in> asked s \<or> a \<in> adding (site s)
           \<or> a \<in> set (GetAllConnections (sv (site s)))
           \<or> entered (site s) \<and> (a \<in> late (site s) \<or> a \<in> turned_away s \<and> IsShutdown (sv (site s)))))
    \<and> set (GetAllConnections (sv (site s))) \<subseteq> made s
    \<and> ((\<forall>u \<in> set (origins wsb). url_Host u \<noteq> '''') \<longrightarrow> made s = {})"
proof (intro conjI ballI impI)
  note inv = ws_serving_reach [OF assms(1,3)] and ws = ws_serving.reach_inv [OF assms(3)]
  show "set (GetAllConnections (sv (site s))) \<subseteq> made s"
    using inv by (auto simp: accepting_inv_def GetAllConnections_def)
  show "made s = {}" if "\<forall>u \<in> set (origins wsb). url_Host u \<noteq> ''''"
    using ws assms(2) that by (auto simp: ws_serving_inv_def server_origins_def CheckOrigin_served)
  fix a assume a: "a \<in> made s"
  with ws show "\<exists>n. heap (sv (site s)) a = WsWrapper n \<and> Ws_GetServiceName n = ServiceName (ns (base wsb))"
    by (auto simp: ws_serving_inv_def of_service_def)
  from any_wrapper.accepting_places [OF inv a]
  show "Wrapper_IsClosed (heap (sv (site s)) a) \<or> a \<in> asked s \<or> a \<in> adding (site s)
      \<or> a \<in> set (GetAllConnections (sv (site s)))
      \<or> entered (site s) \<and> (a \<in> late (site s) \<or> a \<in> turned_away s \<and> IsShutdown (sv (site s)))" by blast
qed

text \<open>A run: two requests, one of whose handlers is between the two lists.\<close>

datatype ws_serving_action = WRequest nat nat ws_request "go_error option" int | WCall accepting_action

fun makes_nothing :: "accepting_action \<Rightarrow> bool" where
  "makes_nothing (CMake i a w) = False"
| "makes_nothing (CNil i) = False"
| "makes_nothing x = True"

fun ws_serving_exec ::
    "url option list \<Rightarrow> ('m, 'r) baseBuilder \<Rightarrow> ws_serving_action \<Rightarrow> NanoServiceWrapper accepting \<Rightarrow>
     NanoServiceWrapper accepting option" where
  "ws_serving_exec os bb (WRequest i a r upgradeErr t) s =
     (if at_rest s i \<and> served r \<and> a \<notin> made s then
        (case ws_handler_wrap os upgradeErr t bb r of
           Ret (Some (Some n)) \<Rightarrow> Some (make_wrapper i a (WsWrapper n) s)
         | Ret (Some None) \<Rightarrow> Some (make_nil i s)
         | _ \<Rightarrow> Some s)
      else None)"
| "ws_serving_exec os bb (WCall x) s = (if makes_nothing x then accepting_exec no_errors x s else None)"

fun ws_serving_run ::
    "url option list \<Rightarrow> ('m, 'r) baseBuilder \<Rightarrow> ws_serving_action list \<Rightarrow> NanoServiceWrapper accepting \<Rightarrow>
     NanoServiceWrapper accepting option" where
  "ws_serving_run os bb [] s = Some s"
| "ws_serving_run os bb (x # xs) s =
     (case ws_serving_exec os bb x s of None \<Rightarrow> None | Some t \<Rightarrow> ws_serving_run os bb xs t)"

lemma ws_serving_exec_sound:
  assumes "ws_serving_exec os bb x s = Some t" shows "t = s \<or> ws_serving_step os bb s t"
proof (cases x)
  case (WRequest i a r upgradeErr t0)
  with assms show ?thesis by (auto intro: w_request w_nil split: if_splits go.splits option.splits)
next
  case (WCall y)
  with assms have "makes_nothing y" "accepting_exec no_errors y s = Some t" by (auto split: if_splits)
  then have "calling_step Wrapper_Close Wrapper_IsClosed s t" by (intro calling_exec_sound) auto
  then show ?thesis by (blast intro: w_call)
qed

lemma ws_serving_run_reach:
  "ws_serving_run os bb xs s = Some t \<Longrightarrow> reach start (ws_serving_step os bb) s \<Longrightarrow> reach start (ws_serving_step os bb) t"
proof (induction xs arbitrary: s)
  case (Cons x xs)
  from Cons(2) obtain u where u: "ws_serving_exec os bb x s = Some u" "ws_serving_run os bb xs u = Some t"
    by (auto simp del: ws_serving_exec.simps split: option.splits)
  from ws_serving_exec_sound [OF u(1)] Cons(3) have "reach start (ws_serving_step os bb) u" by (auto intro: reach_step)
  from Cons(1) [OF u(2) this] show ?case .
qed simp

definition open_ws :: "(raw_message, unit) websocketBuilder" where
  "open_ws = AppendOrigins [shop_origin\<lparr>url_Host := ''''\<rparr>] (NewWebsocketBuilder (Service_zero\<lparr>Uri := ''/shop''\<rparr>))"

definition open_ws_server :: "NanoServiceWrapper nano_server option" where
  "open_ws_server =
     (case buildWebsocketServer (Ret None) (\<lambda>a. WsWrapper (new_ws_nan0 ''svc'' 0)) open_ws of
        Ret (server, err) \<Rightarrow> server | Panic p \<Rightarrow> None)"

definition demo_ws_serving :: "NanoServiceWrapper accepting option" where
  "demo_ws_serving =
     (let r = \<lparr>req_Header = Map.empty, req_Host = ''shop.example''\<rparr>
      in Option.bind open_ws_server (\<lambda>server. ws_serving_run (server_origins (\<lambda>x. Inl EOF) open_ws) (base open_ws)
        [WRequest 0 1 r None 0, WRequest 1 2 r None 0, WCall (CEnter 1), WCall (CEnter 0), WCall (CAdd 0), WCall (CAdd 0),
         WRequest 0 3 r (Some EOF) 0, WCall (CAdd 1)] (accepting_with server)))"

lemma demo_ws_serving_eval:
  "case demo_ws_serving of None \<Rightarrow> False | Some s \<Rightarrow>
     GetAllConnections (sv (site s)) = [1] \<and> 2 \<in> made s \<and> 3 \<notin> made s \<and> \<not> entered (site s)"
  unfolding demo_ws_serving_def by code_simp

theorem websocket_server_life_witness:
  "\<exists>s n. demo_ws_serving = Some s \<and> GetAllConnections (sv (site s)) = [1] \<and> 1 \<in> made s \<and> 2 \<in> made s
     \<and> heap (sv (site s)) 2 = WsWrapper n \<and> Ws_GetServiceName n = ServiceName (ns (base open_ws))"
proof -
  from demo_ws_serving_eval obtain s where s: "demo_ws_serving = Some s" by (cases demo_ws_serving) auto
  note f = demo_ws_serving_eval [unfolded s option.case]
  from s obtain server where server: "open_ws_server = Some server"
    by (cases open_ws_server) (simp_all add: demo_ws_serving_def Let_def)
  then obtain err where b: "buildWebsocketServer (Ret None) (\<lambda>a. WsWrapper (new_ws_nan0 ''svc'' 0)) open_ws = Ret (Some server, err)"
    by (auto simp: open_ws_server_def split: go.splits prod.splits)
  from s have "reach (\<lambda>s. s = accepting_with server) (ws_serving_step (server_origins (\<lambda>x. Inl EOF) open_ws) (base open_ws)) s"
    by (auto simp: demo_ws_serving_def Let_def server simp del: ws_serving_run.simps intro: ws_serving_run_reach reach_start)
  moreover have "origin open_ws = ''''"
    by (simp add: open_ws_def AppendOrigins_def NewWebsocketBuilder_def initialize_def zero_baseBuilder_def)
  ultimately show ?thesis
    using websocket_server_life [OF b] f s by fastforce
qed

end
