(* ===== verification/Spec2Isabelle.thy ===== *)
theory Spec2Isabelle
  imports Nan0_Messaging Nan0_Framing_Limits Nan0_Close Nan0_Duplex Nan0_Link_Progress Nan0_Handshake Nan0_Secure_Link
    Nan0_Ws_Link Nan0_Accepting Nan0_Signals Nan0_Discovery_Claims Nan0_Listener_Claims Nan0_WsServer
begin

text \<open>
  A verification library for nan0, a Go library that carries protocol-buffer messages over TCP
  and websocket connections, with optional encryption on TCP and discovery over mDNS.

  \<^bold>\<open>The program.\<close> A builder (\<^verbatim>\<open>baseBuilder.go\<close>, \<^verbatim>\<open>nanoBuilder.go\<close>,
  \<^verbatim>\<open>nan0WebsocketBuilder.go\<close>) collects options: message types, routes, buffer sizes, time
  limits, security. It makes a client (one wrapped connection) or a server, whose accept loop or
  HTTP handler wraps every connection and adds it to the server's lists (\<^verbatim>\<open>nan0Server.go\<close>). A
  wrapper (\<^verbatim>\<open>nan0.go\<close>, \<^verbatim>\<open>wsnan0.go\<close>) owns a connection, two channels and three goroutines, a
  receiver, a sender and an idle watch; closing it starts a fourth that delivers the shutdown
  signals. Receiver and sender use the framing of \<^verbatim>\<open>nan0Util.go\<close> and the encryption of
  \<^verbatim>\<open>encryption.go\<close>; the messages are those of \<^verbatim>\<open>service.pb.go\<close> and its companions. With discovery a
  server publishes its definition and a client looks it up (\<^verbatim>\<open>serviceDiscovery.go\<close>).

  \<^bold>\<open>Layers of the model\<close>, each theory importing those above it:
  \<^item> \<open>Go_Prelude\<close>: bytes, errors, panics (\<open>go\<close>), state with panics (\<open>act\<close>), \<open>recoverPanic\<close>,
    \<open>checkError\<close>, slices; \<open>reach\<close> and the locales \<open>machine_invariant\<close>, \<open>codec\<close>, \<open>sized_codec\<close>.
  \<^item> \<open>Go_IO\<close>, \<open>Go_AES_GCM\<close>, \<open>Go_HMAC\<close>, \<open>Go_Base64\<close>: the parts of Go's standard library that the code
    uses: buffered reading of a connection that is a list of segments, writers, AES-GCM, HMAC
    with SHA-512/256, base64.
  \<^item> \<open>Nan0_Wire\<close> (size fields, identifiers, addresses), \<open>Nan0_Messages\<close> (the protobuf library as the
    parameter \<open>proto_api\<close> with \<open>proto_laws\<close>; the message structs), \<open>Nan0_Encryption\<close>
    (\<^verbatim>\<open>encryption.go\<close>, one definition per function), \<open>Nan0_Builder\<close> (builders, options, option
    loops) and \<open>Nan0_Registry\<close> (their invariant \<open>registry_inv\<close>).
  \<^item> \<open>Nan0_Frame\<close>: \<open>putMessageInConnection\<close> and \<open>getMessageFromConnection\<close>; lemmas in
    \<open>Nan0_Frame_Props\<close>, claims in \<open>Nan0_Messaging\<close> (round trips, framing, authenticity) and
    \<open>Nan0_Framing_Limits\<close> (what goes wrong: long messages, cut size fields, collisions).
  \<^item> \<open>Nan0_Close\<close>: the TCP wrapper \<open>nan0\<close>, \<open>Close\<close> and \<open>softClose\<close>; \<open>close_step\<close> lets any number of
    goroutines run them in small steps around the mutex. The locale \<open>closer\<close> is what a server
    relies on of a wrapper.
  \<^item> \<open>Nan0_Conn\<close>: \<open>wrapConnectionTcp\<close> and the goroutines of a wrapper as the step relation
    \<open>conn_step\<close>: one step is one channel operation, one operation on the connection or one call of
    \<open>Close\<close>. \<open>Nan0_Conn_Props\<close> holds its invariants, \<open>Nan0_Conn_Run\<close> executable steps that are sound
    for it, \<open>Nan0_Conn_Claims\<close> and \<open>Nan0_Conn_Shutdown\<close> the claims (channels, wire, closing, idling;
    shutdown signals, leaks, frames that arrive together).
  \<^item> \<open>Nan0_Link\<close>: two TCP wrappers on one connection whose reads return one frame each (\<open>link_step\<close>), with
    the invariant from the channel of one to the user of the other. \<open>Nan0_Stream\<close>: the connection as TCP
    has it, a stream of bytes that is cut anywhere (\<open>tcp_link_step\<close>); its runs in which every read has
    returned one frame (\<open>kept_apart\<close>) are runs of the link, and deliver in order.
    \<open>Nan0_Link_Progress\<close>: a link can always empty itself.
  \<^item> \<open>Nan0_Handover\<close>: the temporary and the secure wrapper of a handshake on their one connection
    (\<open>handover_step\<close>): when the second is undisturbed, and what the first can break. \<open>Nan0_Handshake\<close>: the
    handshake on the wire (\<open>handshake_step\<close>), client and server with their temporary wrappers: both
    arrive at the same keys, unless the client's \<open>softClose\<close> loses them. \<open>Nan0_Secure_Link\<close>: the two
    handovers on one stream (\<open>secure_link_step\<close>), and delivery between the secure wrappers.
  \<^item> \<open>Nan0_Duplex\<close>: a client and a server that answers with its routes (\<open>duplex_step\<close>); each direction is
    a run of \<open>tcp_link_step\<close>, and the answers come in the order of the requests, between the values that
    the server's user puts itself.
  \<^item> \<open>Nan0_Ws\<close>, \<open>Nan0_Ws_Claims\<close>: the websocket wrapper: send, receive, closing, \<open>wrapConnectionWs\<close>.
    \<open>Nan0_Ws_Conn\<close>: its goroutines as the step relation \<open>ws_conn_step\<close>, with invariants in
    \<open>Nan0_Ws_Conn_Props\<close>, executable steps and claims in \<open>Nan0_Ws_Conn_Run\<close>, and delivery between two
    wrappers in \<open>Nan0_Ws_Link\<close>.
  \<^item> \<open>Nan0_Server\<close>, \<open>Nan0_Server_Claims\<close>: the connection lists, the purge, \<open>Shutdown\<close>, the stream of
    \<open>GetConnections\<close>, for any wrapper (locale \<open>closer\<close>), interpreted for both wrappers.
  \<^item> \<open>Nan0_Interface\<close>: the interface \<open>NanoServiceWrapper\<close> with its contract (locale \<open>service_wrapper\<close>),
    kept by both kinds of wrapper and by any mixture. \<open>Nan0_Serving\<close>: \<open>AddConnection\<close> and \<open>Shutdown\<close> in
    small steps (\<open>working_step\<close>, \<open>serving_step\<close>), any number of them at once, on wrappers of both kinds.
    \<open>Nan0_Accepting\<close>: the goroutines that make wrappers and call \<open>AddConnection\<close> (\<open>accepting_step\<close>), and
    where every wrapper made is.
  \<^item> \<open>Nan0_Signals\<close>: signal channels and \<open>CheckAndDoWithDuration\<close>, with the idle watch as its use.
  \<^item> \<open>Nan0_Discovery\<close>, \<open>Nan0_Discovery_Claims\<close>: publishing, decoding, the strict check, \<open>buildDNS\<close>.
  \<^item> \<open>Nan0_Listener\<close>, \<open>Nan0_Listener_Claims\<close>: \<open>buildTcpClient\<close>, \<open>buildTcpServer\<close>, the accept loop with
    the security handshake, the purge loop. \<open>Nan0_WsServer\<close>: \<open>wrapWsClient\<close>,
    \<open>buildWebsocketServer\<close>, the origin check, the handler, and the life of a websocket server
    (\<open>ws_serving_step\<close>, every request's handler in a goroutine of its own).
  \<^item> This theory: the properties that span components, the types of received messages and the secure
    session of a client and a server.

  A definition has the name of the Go function it models, with \<open>Server_\<close> or \<open>Ws_\<close> in front where
  two types have a method of that name; \<open>_body\<close> is a function without its deferred recovery,
  \<open>_step\<close> a step relation, \<open>_exec\<close> its executable form. A nil-able pointer or interface is an
  \<open>option\<close>; a pair of a result and an error is a pair or a sum, as the code uses it; a panic is a
  value of \<open>go\<close>. A wrapper in a server's heap is found by its address, a natural number.

  \<^bold>\<open>Parameters.\<close> Code outside the repository is an argument: protobuf (\<open>proto_api\<close>, \<open>md_api\<close>), RSA of
  goprocrypt (\<open>rsa_laws\<close>), the mDNS library, dialling, listening, upgrading, \<^verbatim>\<open>url.Parse\<close>, what
  reading and writing a websocket report, what a route executes. Hypotheses on them state their
  documented behaviour. Randomness is a tape of bytes; time is a number of nanoseconds.

  \<^bold>\<open>Bounds and fuel.\<close> Framing claims take the default width 4 of \<open>SizeArrayWidth\<close> where they say so.
  4096 is the size of a buffered reader: a plaintext frame has 15 bytes before the body, so 4081
  is the longest body one \<open>Read\<close> returns; encryption adds a nonce, a tag, a signature and one more
  size field, so 4017. \<open>check_loop\<close> is a \<open>partial_function\<close>, and \<open>idle_watch_fires\<close> proves that it
  returns. The accept loop runs over a list of events; all other recursion is structural. AES-256
  has 14 rounds and SHA-512 has 80, as their standards fix them.

  \<^bold>\<open>Abstractions.\<close> A whole receive and a whole send are one step each (only the receiver reads a
  connection and only the sender writes to it), a call of \<open>Close\<close> is one step of \<open>conn_step\<close> (which
  \<open>concurrent_closing_safe\<close> justifies). \<open>AddConnection\<close> and \<open>Shutdown\<close> interleave by locked section; the end
  of \<open>Shutdown\<close>, closing the listener and the channel, is one step. In \<open>accept_connection\<close> and \<open>client_secure\<close>
  the messages of the handshake are values; how they travel is \<open>Nan0_Handshake\<close>, whose failed writes
  write nothing. Ticks of the idle watch are on time.

  \<^bold>\<open>What delivery rests on.\<close> The claims of delivery over TCP are about the runs in which every read has
  returned exactly one frame. TCP does not promise that, and the code does not restore it:
  \<open>frames_arriving_together_lost\<close> has the frame that is lost. They say so as a hypothesis on the run
  (\<open>kept_apart\<close>), together with the bound of 4017 bytes and the sender that has not failed
  (\<open>sending_well\<close>). A websocket keeps messages apart by itself.

  \<^bold>\<open>Not modelled.\<close> Logging (\<^verbatim>\<open>slog\<close>), which has no influence on a result. The descriptor tables,
  \<^verbatim>\<open>init\<close>, \<^verbatim>\<open>String\<close> and reflection methods of the generated \<^verbatim>\<open>.pb.go\<close> files: data for the protobuf library.
  RSA key generation. The websocket library's limit on reads after a failure is its own: the model lets
  it panic at any time then. \<open>secure_session\<close> starts the secure wrapper afresh, which \<open>Nan0_Handover\<close>
  justifies once the temporary wrapper is \<open>harmless\<close>, and \<open>Nan0_Secure_Link\<close> for the bytes on the wire.
  The interface \<^verbatim>\<open>Server\<close> has one implementation, \<open>nano_server\<close>, which is modelled directly.
\<close>

section \<open>Types of received messages\<close>

lemma looked_up_type:
  assumes "proto_laws P" and "registry_inv P bb"
    and "Clone P (ident_lookup (messageIdentMap bb) i) = Some c" and "FullName P m = FullName P c"
  shows "inverseIdentMap bb (FullName P m) = Some (ident_of (FullName P m))"
proof -
  obtain mo where mo: "ident_lookup (messageIdentMap bb) i = Some mo" "FullName P c = FullName P mo"
    using Clone_SomeD [OF assms(1,3)] by blast
  then have "messageIdentMap bb i = Some (Some mo)" by (simp add: ident_lookup_def split: option.splits)
  with assms(2) have "inverseIdentMap bb (FullName P mo) \<noteq> None" by (fastforce simp: registry_inv_def)
  with registered_ident [OF assms(2)] assms(4) mo(2) show ?thesis by simp
qed

lemma decoded_type:
  assumes "proto_laws P" and "decode_body P v (Some c) hs dk hk = Ret (Some m)"
  shows "FullName P m = FullName P c"
proof -
  have unm: "FullName P m = FullName P c" if "Unmarshal P real (Some c) = Ret (Inr (Some m))" for real
    using proto_lawsD(5) [OF assms(1) that] by auto
  show ?thesis
  proof (cases "dk \<noteq> None \<and> hk \<noteq> None")
    case True
    then obtain d h where "dk = Some d" "hk = Some h" by auto
    with assms(2) have "DecryptProtobuf_body P v (Some c) hs d h = Ret (Some m)"
      by (intro DecryptProtobuf_Inr [OF assms(1)]) (simp add: decode_body_def)
    then show ?thesis by (rule DecryptProtobuf_body_Ret) (rule unm)
  next
    case False
    with assms(2) unm show ?thesis by (auto simp: decode_body_def go_bind_Ret_iff split: option.splits)
  qed
qed

text \<open>
  C15. Type safety. Whatever bytes arrive, on TCP with or without keys or on a websocket, a message
  is only ever received as a value of a type that the builder has registered, under the identifier
  of that type: in every reachable state of a TCP wrapper all received messages have such types, and
  so has the result of every websocket receive.
\<close>

theorem received_types_are_registered:
  assumes "proto_laws P" and "registry_inv P bb"
  shows "(cfg_api C = P \<and> 4 \<le> cfg_width C \<and> cfg_identMap C = messageIdentMap bb
      \<and> reach (conn_start name t0 tp) (conn_step C) s \<and> m \<in> set (got s)
        \<longrightarrow> inverseIdentMap bb (FullName P m) = Some (ident_of (FullName P m)))
    \<and> (getMessageFromConnectionWs P w (messageIdentMap bb) (t, buffer, spare, err) = (Some m', e)
        \<longrightarrow> inverseIdentMap bb (FullName P m') = Some (ident_of (FullName P m')))"
proof (intro conjI impI; (elim conjE)?)
  assume C: "cfg_api C = P" "4 \<le> cfg_width C" "cfg_identMap C = messageIdentMap bb"
    and s: "reach (conn_start name t0 tp) (conn_step C) s" "m \<in> set (got s)"
  from conn_source.reach_inv [OF s(1)] s(2) obtain c err b where "receive C c = ((Some m, err), b)"
    by (auto simp: source_inv_def)
  from bufio.getMessage_frame [OF this [unfolded receive_def] C(2)] obtain i c' v hs where
    "Clone P (ident_lookup (messageIdentMap bb) i) = Some c'"
    and "decode_body P v (Some c') hs (cfg_encKey C) (cfg_hmacKey C) = Ret (Some m)"
    by (auto simp: C)
  with looked_up_type [OF assms] decoded_type [OF assms(1)]
  show "inverseIdentMap bb (FullName P m) = Some (ident_of (FullName P m))" by blast
next
  assume "getMessageFromConnectionWs P w (messageIdentMap bb) (t, buffer, spare, err) = (Some m', e)"
  then obtain e' where "getMessageWs_body P w (messageIdentMap bb) (t, buffer, spare, err) = Ret (Some m', e')"
    by (cases "getMessageWs_body P w (messageIdentMap bb) (t, buffer, spare, err)")
      (auto simp: getMessageFromConnectionWs_def recoverPanic_def split: panic_value.splits)
  then obtain v i where u: "Unmarshal P v (Clone P (ident_lookup (messageIdentMap bb) i)) = Ret (Inr (Some m'))"
    by (rule getMessageWs_Ret)
  show "inverseIdentMap bb (FullName P m') = Some (ident_of (FullName P m'))"
  proof (cases "Clone P (ident_lookup (messageIdentMap bb) i)")
    case None
    with u proto_lawsD(6) [OF assms(1), of v] show ?thesis by auto
  next
    case (Some c')
    with u looked_up_type [OF assms Some] proto_lawsD(5) [OF assms(1), of v c'] show ?thesis by auto
  qed
qed

theorem received_types_are_registered_witness:
  "\<exists>a b fl m. demo_link = Some (a, b, fl) \<and> m \<in> set (got b)
     \<and> inverseIdentMap (one_type_builder (RawMessage CHR ''a'' ''b'' [])) (FullName raw_api m)
         = Some (ident_of (FullName raw_api m))"
proof -
  let ?C = "demo_cfg None None" and ?bb = "one_type_builder (RawMessage CHR ''a'' ''b'' [])"
  obtain a b fl where s: "demo_link = Some (a, b, fl)" and taken: "taken b = [RawMessage CHR ''a'' ''b'' [5]]"
    using demo_link_eval by (auto split: option.splits)
  have "reach (conn_start ''second'' 0 []) (conn_step ?C) b"
    using link_ends [OF demo_link_reach [OF s]] by simp
  moreover from conn_recv.reach_inv [OF this] taken have "RawMessage CHR ''a'' ''b'' [5] \<in> set (got b)"
    by (metis recv_inv_def append_Cons filter_is_subset list.set_intros(1) subsetD)
  ultimately show ?thesis
    using received_types_are_registered [OF raw_api_laws one_type_builder_inv, where C = ?C and s = b
        and m = "RawMessage CHR ''a'' ''b'' [5]"] s
    by (fastforce simp: demo_cfg_def Let_def)
qed

section \<open>A secure session\<close>





end
